(* ===== verification/Errors.thy ===== *)
theory Errors
  imports Prelude
begin

text \<open>
  The errors of \<^verbatim>\<open>src/src/errors.ts\<close> as one datatype with the fields each class keeps,
  the name and message each constructor sets, and the class test that decides whether an
  attempt may be retried (\<^verbatim>\<open>isNonRetriable\<close> in \<^verbatim>\<open>src/src/worker.ts\<close>).
  Instants are milliseconds since the epoch, as a JavaScript date holds them.
\<close>

section \<open>Instants as text\<close>

text \<open>\<open>Date.prototype.toISOString\<close>, by the proleptic Gregorian calendar.\<close>

fun pad_left :: "nat \<Rightarrow> string \<Rightarrow> string" where
  "pad_left n s = replicate (n - length s) (CHR ''0'') @ s"

definition civil_of_days :: "int \<Rightarrow> int \<times> int \<times> int" where
  "civil_of_days z =
     (let z' = z + 719468;
          era = z' div 146097;
          doe = z' mod 146097;
          yoe = (doe - doe div 1460 + doe div 36524 - doe div 146096) div 365;
          doy = doe - (365 * yoe + yoe div 4 - yoe div 100);
          mp = (5 * doy + 2) div 153;
          d = doy - (153 * mp + 2) div 5 + 1;
          m = (if mp < 10 then mp + 3 else mp - 9);
          y = yoe + era * 400 + (if m \<le> 2 then 1 else 0)
      in (y, m, d))"

definition iso_year :: "int \<Rightarrow> string" where
  "iso_year y =
     (if 0 \<le> y \<and> y \<le> 9999 then pad_left 4 (show_nat (nat y))
      else (if y < 0 then ''-'' else ''+'') @ pad_left 6 (show_nat (nat \<bar>y\<bar>)))"

definition iso_string :: "int \<Rightarrow> string" where
  "iso_string ms =
     (let (y, m, d) = civil_of_days (ms div 86400000);
          r = ms mod 86400000;
          two = (\<lambda>i. pad_left 2 (show_nat (nat i)))
      in iso_year y @ ''-'' @ two m @ ''-'' @ two d @ ''T'' @
         two (r div 3600000) @ '':'' @ two (r div 60000 mod 60) @ '':'' @
         two (r div 1000 mod 60) @ ''.'' @ pad_left 3 (show_nat (nat (r mod 1000))) @ ''Z'')"

text \<open>
  An argument of type \<open>Date | string\<close>: a date object (\<open>None\<close> is an invalid date) or a text,
  which the engine's parser reads. The parser is implementation-defined beyond the ISO
  format, so it is a parameter.
\<close>

datatype date_arg = DateValue "int option" | DateText string

fun to_date :: "(string \<Rightarrow> int option) \<Rightarrow> date_arg \<Rightarrow> int option" where
  "to_date parse_date (DateValue t) = t"
| "to_date parse_date (DateText s) = parse_date s"

section \<open>Error classes\<close>

datatype path_key = PathKey string | PathIndex nat

type_synonym issue = "path_key list \<times> string"

datatype subject = PayloadSubject | OutputSubject

text \<open>
  \<open>NamedError\<close> is any other error object (name and message), \<open>ThrownValue\<close> a thrown
  value that is not an error object, kept as its \<open>String\<close> conversion.
\<close>

datatype js_error =
    NamedError string string
  | ThrownValue string
  | PlainTypeError string
  | PlainRangeError string
  | NonRetriableError string
  | RetryAtError int "js_error option"
  | UnknownQueueError string "string list"
  | JobValidationError string "issue list" subject
  | StepPersistenceError string
  | ShutdownTimeoutError int
  | DatabaseUnreachableError
  | EnqueueCountError string int int
  | EnqueueSkippedError string
  | WorkerStoppedError "string option" "js_error option"
  | JobTimeoutError int
  | DuplicateQueueError string
  | QueueNameCollisionError string
  | InvalidSchemaNameError string
  | StepSerializationError string
  | JobContinuedSignal
  | ChildJobFailedError string string string string
  | WaitTimeoutError string "string list"
  | JobSuspendedSignal string

type_synonym 'a res = "js_error + 'a"

abbreviation plain_error :: "string \<Rightarrow> js_error" where
  "plain_error m \<equiv> NamedError ''Error'' m"

definition quoted :: "string \<Rightarrow> string" where
  "quoted s = dq @ s @ dq"

fun show_path_key :: "path_key \<Rightarrow> string" where
  "show_path_key (PathKey s) = s"
| "show_path_key (PathIndex n) = show_nat n"

definition show_issue :: "issue \<Rightarrow> string" where
  "show_issue i =
     (if fst i \<noteq> [] then join_with ''.'' (map show_path_key (fst i)) else ''(root)'') @
     '': '' @ snd i"

fun show_subject :: "subject \<Rightarrow> string" where
  "show_subject PayloadSubject = ''payload''"
| "show_subject OutputSubject = ''output''"

fun is_error_object :: "js_error \<Rightarrow> bool" where
  "is_error_object (ThrownValue _) = False"
| "is_error_object _ = True"

fun err_name :: "js_error \<Rightarrow> string" where
  "err_name (NamedError n _) = n"
| "err_name (ThrownValue _) = ''Unknown''"
| "err_name (PlainTypeError _) = ''TypeError''"
| "err_name (PlainRangeError _) = ''RangeError''"
| "err_name (NonRetriableError _) = ''NonRetriableError''"
| "err_name (RetryAtError _ _) = ''RetryAtError''"
| "err_name (UnknownQueueError _ _) = ''UnknownQueueError''"
| "err_name (JobValidationError _ _ _) = ''JobValidationError''"
| "err_name (StepPersistenceError _) = ''StepPersistenceError''"
| "err_name (ShutdownTimeoutError _) = ''ShutdownTimeoutError''"
| "err_name DatabaseUnreachableError = ''DatabaseUnreachableError''"
| "err_name (EnqueueCountError _ _ _) = ''EnqueueCountError''"
| "err_name (EnqueueSkippedError _) = ''EnqueueSkippedError''"
| "err_name (WorkerStoppedError _ _) = ''WorkerStoppedError''"
| "err_name (JobTimeoutError _) = ''JobTimeoutError''"
| "err_name (DuplicateQueueError _) = ''DuplicateQueueError''"
| "err_name (QueueNameCollisionError _) = ''QueueNameCollisionError''"
| "err_name (InvalidSchemaNameError _) = ''InvalidSchemaNameError''"
| "err_name (StepSerializationError _) = ''StepSerializationError''"
| "err_name JobContinuedSignal = ''JobContinuedSignal''"
| "err_name (ChildJobFailedError _ _ _ _) = ''ChildJobFailedError''"
| "err_name (WaitTimeoutError _ _) = ''WaitTimeoutError''"
| "err_name (JobSuspendedSignal _) = ''JobSuspendedSignal''"

text \<open>
  Messages. A retry-at error with a cause reports the cause's message (its \<open>String\<close>
  conversion when the cause is not an error object); \<open>ChildJobFailedError\<close> keeps the job,
  the queue and the child's error name and message.
\<close>

fun err_message :: "js_error \<Rightarrow> string" where
  "err_message (NamedError _ m) = m"
| "err_message (ThrownValue s) = s"
| "err_message (PlainTypeError m) = m"
| "err_message (PlainRangeError m) = m"
| "err_message (NonRetriableError m) = m"
| "err_message (RetryAtError t None) = ''Retry at '' @ iso_string t"
| "err_message (RetryAtError t (Some c)) = err_message c"
| "err_message (UnknownQueueError q known) =
     (if known = [] then ''Unknown queue '' @ quoted q @ ''. No queues are registered.''
      else ''Unknown queue '' @ quoted q @ ''. Known queues: '' @ join_with '', '' known)"
| "err_message (JobValidationError q iss sub) =
     ''Invalid '' @ show_subject sub @ '' for queue '' @ quoted q @ '': '' @
     join_with ''; '' (map show_issue iss)"
| "err_message (StepPersistenceError j) =
     ''Cannot checkpoint job '' @ quoted j @ '': its worker no longer owns the lock''"
| "err_message (ShutdownTimeoutError t) =
     ''Worker shutdown exceeded '' @ show_int t @ ''ms; shutdown is still in progress''"
| "err_message DatabaseUnreachableError =
     ''Worker shutdown stopped waiting: the database is unreachable; shutdown is still in progress''"
| "err_message (EnqueueCountError q expected actual) =
     ''Enqueue of '' @ quoted q @ '' returned '' @ show_int actual @ '' of '' @
     show_int expected @ '' jobs, likely a jobKey race; retry the transaction''"
| "err_message (EnqueueSkippedError q) =
     ''Required enqueue of '' @ quoted q @
     '' was skipped because shouldSkipEnqueue() returned true''"
| "err_message (WorkerStoppedError r c) =
     (case r of None \<Rightarrow> ''Worker'' | Some n \<Rightarrow> ''Runner '' @ quoted n) @
     '' stopped without stop() being called'' @
     (case c of None \<Rightarrow> [] | Some e \<Rightarrow> if is_error_object e then '': '' @ err_message e else [])"
| "err_message (JobTimeoutError t) = ''Job attempt exceeded its '' @ show_int t @ ''ms timeout''"
| "err_message (DuplicateQueueError q) = ''Duplicate queue name '' @ quoted q"
| "err_message (QueueNameCollisionError t) =
     ''Queue task name '' @ quoted t @ '' collides with another registered task''"
| "err_message (InvalidSchemaNameError s) =
     ''Invalid Graphile Worker schema name '' @ quoted s @
     ''. Use a simple SQL identifier of at most 63 characters (letters, digits, underscore).''"
| "err_message (StepSerializationError s) =
     ''Step '' @ quoted s @ '' returned a value that is not JSON-serializable''"
| "err_message JobContinuedSignal =
     ''Job continued; code after ctx.continue() must not run''"
| "err_message (ChildJobFailedError j q n m) =
     ''Child job '' @ j @ '' of '' @ quoted q @ '' failed: '' @ m"
| "err_message (WaitTimeoutError w pending) =
     ''Wait '' @ quoted w @ '' timed out with '' @ show_nat (length pending) @
     '' unfinished child job(s): '' @ join_with '', '' pending"
| "err_message (JobSuspendedSignal w) =
     ''Waiting for the child jobs of '' @ quoted w @ ''; not a failure''"

text \<open>\<open>error instanceof NonRetriableError\<close>: the class itself and the four that extend it.\<close>

fun is_non_retriable :: "js_error \<Rightarrow> bool" where
  "is_non_retriable (NonRetriableError _) = True"
| "is_non_retriable (JobValidationError _ _ _) = True"
| "is_non_retriable (StepSerializationError _) = True"
| "is_non_retriable (ChildJobFailedError _ _ _ _) = True"
| "is_non_retriable (WaitTimeoutError _ _) = True"
| "is_non_retriable _ = False"

text \<open>The constructor of \<open>RetryAtError\<close> rejects an invalid date.\<close>

definition new_retry_at ::
  "(string \<Rightarrow> int option) \<Rightarrow> date_arg \<Rightarrow> js_error option \<Rightarrow> js_error res" where
  "new_retry_at parse_date run_at cause =
     (case to_date parse_date run_at of
        None \<Rightarrow> Inl (PlainRangeError ''runAt must be a valid timestamp'')
      | Some t \<Rightarrow> Inr (RetryAtError t cause))"

text \<open>
  What a failed attempt reports: the cause of a retry-at error, otherwise the error itself;
  with its name, \<open>Unknown\<close> for a thrown value that is not an error object.
\<close>

fun reported_error :: "js_error \<Rightarrow> js_error" where
  "reported_error (RetryAtError t (Some c)) = c"
| "reported_error e = e"

lemma retry_at_reports_cause [simp]:
  "err_message (RetryAtError t (Some c)) = err_message (reported_error (RetryAtError t (Some c)))"
  by simp

lemma is_non_retriable_not_retry_at:
  "is_non_retriable e \<Longrightarrow> \<not> (\<exists>t c. e = RetryAtError t c)"
  by (cases e) simp_all

lemma iso_string_epoch: "iso_string 0 = ''1970-01-01T00:00:00.000Z''"
  by code_simp

lemma iso_string_leap: "iso_string 951782400123 = ''2000-02-29T00:00:00.123Z''"
  by code_simp

end
