(* ===== verification/Connection.thy ===== *)
theory Connection
  imports Errors
begin

text \<open>
  The connection a running maintenance holds, \<open>connection\<close>, \<open>discard\<close>, \<open>withConnection\<close> and \<open>stop\<close> of
  \<^verbatim>\<open>src/src/maintenance.ts\<close>: a state machine over the events between two awaits. The pool and its
  clients are node-postgres's: a client may fail at any time, in use, idle or long given back.
\<close>

section \<open>State\<close>

text \<open>
  Clients are numbered in the order the pool gave them out. \<open>mc_released\<close> lists the clients given
  back, each with the error it was given back with, if any. A maintenance does one piece of work at
  a time: it waits for a client, or works with one.
\<close>

datatype work_phase = NoWork | Connecting | Working nat

record connection_state =
  mc_held :: "nat option"
  mc_opened :: nat
  mc_released :: "(nat \<times> js_error option) list"
  mc_phase :: work_phase
  mc_stopped :: bool

definition new_connection :: connection_state where
  "new_connection = \<lparr>mc_held = None, mc_opened = 0, mc_released = [], mc_phase = NoWork, mc_stopped = False\<rparr>"

definition discard_client :: "nat \<Rightarrow> js_error \<Rightarrow> connection_state \<Rightarrow> connection_state" where
  "discard_client c e s =
     (if mc_held s = Some c then s\<lparr>mc_held := None, mc_released := mc_released s @ [(c, Some e)]\<rparr> else s)"

section \<open>Events\<close>

text \<open>
  \<open>WorkBegins\<close> is a call of \<open>withConnection\<close>; \<open>ConnectEnds\<close> the pool's answer; \<open>WorkEnds\<close> the end of
  the work; \<open>ClientFails\<close> an \<open>error\<close> event of a client the pool gave out. \<open>StopCalled\<close> and
  \<open>StopEnds\<close> are the two parts of \<open>stop\<close>, before and after it awaited the pending work.
\<close>

datatype connection_event =
    WorkBegins
  | ConnectEnds "unit res"
  | WorkEnds "unit res"
  | ClientFails nat js_error
  | StopBegins
  | StopEnds

text \<open>Work begins one piece at a time; a stopped maintenance begins none once its pending work is over.\<close>

fun connection_step :: "connection_event \<Rightarrow> connection_state \<Rightarrow> connection_state option" where
  "connection_step WorkBegins s =
     (if mc_phase s \<noteq> NoWork then None
      else Some (s\<lparr>mc_phase := (case mc_held s of None \<Rightarrow> Connecting | Some c \<Rightarrow> Working c)\<rparr>))"
| "connection_step (ConnectEnds r) s =
     (if mc_phase s \<noteq> Connecting then None
      else case r of
        Inl _ \<Rightarrow> Some (s\<lparr>mc_phase := NoWork\<rparr>)
      | Inr _ \<Rightarrow> Some (s\<lparr>mc_held := Some (mc_opened s), mc_opened := Suc (mc_opened s), mc_phase := Working (mc_opened s)\<rparr>))"
| "connection_step (WorkEnds r) s =
     (case mc_phase s of
        Working c \<Rightarrow>
          (let s' = s\<lparr>mc_phase := NoWork\<rparr> in
           Some (case r of Inr _ \<Rightarrow> s' | Inl e \<Rightarrow> discard_client c (if is_error_object e then e else plain_error (err_message e)) s'))
      | _ \<Rightarrow> None)"
| "connection_step (ClientFails c e) s = (if c < mc_opened s then Some (discard_client c e s) else None)"
| "connection_step StopBegins s = Some (s\<lparr>mc_stopped := True\<rparr>)"
| "connection_step StopEnds s =
     (if \<not> mc_stopped s \<or> mc_phase s \<noteq> NoWork then None
      else case mc_held s of
        None \<Rightarrow> Some s
      | Some c \<Rightarrow> Some (s\<lparr>mc_held := None, mc_released := mc_released s @ [(c, None)]\<rparr>))"

inductive connection_reachable :: "connection_state \<Rightarrow> bool" where
  created: "connection_reachable new_connection"
| step: "connection_reachable s \<Longrightarrow> connection_step ev s = Some s' \<Longrightarrow> connection_reachable s'"

section \<open>No client is lost\<close>

text \<open>The clients the pool gave out and did not get back.\<close>

definition open_clients :: "connection_state \<Rightarrow> nat set" where
  "open_clients s = {c. c < mc_opened s \<and> c \<notin> fst ` set (mc_released s)}"

definition connection_inv :: "connection_state \<Rightarrow> bool" where
  "connection_inv s \<longleftrightarrow> distinct (map fst (mc_released s)) \<and>
     (\<forall>c\<in>fst ` set (mc_released s). c < mc_opened s) \<and>
     open_clients s = set_option (mc_held s) \<and>
     (case mc_phase s of
        Connecting \<Rightarrow> mc_held s = None
      | Working c \<Rightarrow> c < mc_opened s \<and> (mc_held s = Some c \<or> mc_held s = None \<and> (\<exists>e. (c, Some e) \<in> set (mc_released s)))
      | NoWork \<Rightarrow> True)"

lemma held_client: "connection_inv s \<Longrightarrow> mc_held s = Some c \<Longrightarrow> c < mc_opened s \<and> c \<notin> fst ` set (mc_released s)"
  by (auto simp: connection_inv_def open_clients_def set_eq_iff)

lemma give_back_inv:
  assumes "connection_inv s" "mc_held s = Some c" "mc_phase s \<noteq> Connecting"
    and "\<And>c'. mc_phase s = Working c' \<Longrightarrow> why \<noteq> None"
  shows "connection_inv (s\<lparr>mc_held := None, mc_released := mc_released s @ [(c, why)]\<rparr>)"
proof -
  have c: "c < mc_opened s" "c \<notin> fst ` set (mc_released s)" using held_client [OF assms(1,2)] by blast+
  have "open_clients (s\<lparr>mc_held := None, mc_released := mc_released s @ [(c, why)]\<rparr>) = open_clients s - {c}"
    by (auto simp: open_clients_def)
  moreover have "open_clients s = {c}" using assms(1,2) by (simp add: connection_inv_def)
  ultimately have "open_clients (s\<lparr>mc_held := None, mc_released := mc_released s @ [(c, why)]\<rparr>) = {}" by simp
  with c assms show ?thesis
    by (auto simp: connection_inv_def split: work_phase.splits)
qed

lemma discard_inv:
  assumes "connection_inv s" shows "connection_inv (discard_client c e s)"
proof (cases "mc_held s = Some c")
  case True
  moreover from True assms have "mc_phase s \<noteq> Connecting" by (auto simp: connection_inv_def)
  ultimately show ?thesis using give_back_inv [OF assms True, of "Some e"] by (simp add: discard_client_def)
qed (simp add: discard_client_def assms)

lemma phase_inv:
  assumes "connection_inv s" "phase = NoWork \<or> phase = Connecting \<and> mc_held s = None \<or> (\<exists>c. phase = Working c \<and> mc_held s = Some c)"
  shows "connection_inv (s\<lparr>mc_phase := phase\<rparr>)"
proof -
  have "open_clients (s\<lparr>mc_phase := phase\<rparr>) = open_clients s" by (simp add: open_clients_def)
  with assms held_client [OF assms(1)] show ?thesis by (auto simp: connection_inv_def)
qed

lemma connection_step_inv:
  assumes inv: "connection_inv s" and step: "connection_step ev s = Some s'"
  shows "connection_inv s'"
proof (cases ev)
  case WorkBegins
  with step have "s' = s\<lparr>mc_phase := (case mc_held s of None \<Rightarrow> Connecting | Some c \<Rightarrow> Working c)\<rparr>"
    by (simp split: if_splits)
  with phase_inv [OF inv] show ?thesis by (cases "mc_held s") auto
next
  case (ConnectEnds r)
  have phase: "mc_phase s = Connecting" using step ConnectEnds by (auto split: if_splits)
  show ?thesis
  proof (cases r)
    case (Inl e)
    with step ConnectEnds phase have "s' = s\<lparr>mc_phase := NoWork\<rparr>" by simp
    with phase_inv [OF inv] show ?thesis by simp
  next
    case (Inr u)
    with step ConnectEnds phase have s': "s' = s\<lparr>mc_held := Some (mc_opened s), mc_opened := Suc (mc_opened s),
        mc_phase := Working (mc_opened s)\<rparr>" by simp
    have "mc_held s = None" using inv phase by (simp add: connection_inv_def)
    with inv have none: "open_clients s = {}" and known: "\<forall>c\<in>fst ` set (mc_released s). c < mc_opened s"
      by (simp_all add: connection_inv_def)
    have "open_clients s' = insert (mc_opened s) (open_clients s)"
      using known by (auto simp: s' open_clients_def less_Suc_eq)
    with inv none known show ?thesis by (auto simp: s' connection_inv_def)
  qed
next
  case (WorkEnds r)
  then obtain c where "mc_phase s = Working c" using step by (auto split: work_phase.splits)
  have "connection_inv (s\<lparr>mc_phase := NoWork\<rparr>)" by (rule phase_inv [OF inv]) simp
  with discard_inv WorkEnds step \<open>mc_phase s = Working c\<close> show ?thesis by (auto simp: Let_def split: sum.splits)
next
  case (ClientFails c e)
  with step inv discard_inv show ?thesis by (auto split: if_splits)
next
  case StopBegins
  have "open_clients (s\<lparr>mc_stopped := True\<rparr>) = open_clients s" by (simp add: open_clients_def)
  moreover have "s' = s\<lparr>mc_stopped := True\<rparr>" using StopBegins step by simp
  ultimately show ?thesis using inv by (cases "mc_phase s") (simp_all add: connection_inv_def)
next
  case StopEnds
  with step inv give_back_inv [OF inv, of _ None] show ?thesis by (auto split: if_splits option.splits)
qed

lemma reachable_connection_inv: "connection_reachable s \<Longrightarrow> connection_inv s"
proof (induction rule: connection_reachable.induct)
  case created
  then show ?case by (simp add: connection_inv_def new_connection_def open_clients_def)
qed (rule connection_step_inv)

text \<open>
  C17 A maintenance never holds two connections and loses none: in every interleaving of its work,
  failing connects, errors of clients in use, idle or given back, and stops, the clients the pool
  gave out and did not get back are the held one, if any; no client is given back twice; work goes
  on with a client that is held or was given back with its error; and after a stop that ended
  with no work begun since, none is left.
\<close>

theorem one_connection_none_lost:
  assumes "connection_reachable s"
  shows "open_clients s = set_option (mc_held s) \<and> distinct (map fst (mc_released s)) \<and>
    (case mc_phase s of
       Working c \<Rightarrow> mc_held s = Some c \<or> (\<exists>e. (c, Some e) \<in> set (mc_released s))
     | _ \<Rightarrow> True) \<and>
    (case connection_step StopEnds s of None \<Rightarrow> True | Some s' \<Rightarrow> open_clients s' = {})"
proof -
  have inv: "connection_inv s" by (rule reachable_connection_inv [OF assms])
  have "open_clients s' = {}" if "connection_step StopEnds s = Some s'" for s'
  proof -
    have "mc_held s' = None" using that by (auto split: if_splits option.splits)
    with connection_step_inv [OF inv that] show ?thesis by (simp add: connection_inv_def)
  qed
  with inv show ?thesis by (auto simp: connection_inv_def split: work_phase.splits option.splits)
qed

text \<open>A client fails while it is in use; the work then fails too, and the next work has a new client.\<close>

theorem one_connection_none_lost_witness:
  "\<exists>s. connection_reachable s \<and> mc_released s = [(0, Some (plain_error ''lost''))] \<and> open_clients s = {1}"
proof -
  let ?run = "foldl (\<lambda>s ev. Option.bind s (connection_step ev)) (Some new_connection)"
  let ?evs = "[WorkBegins, ConnectEnds (Inr ()), ClientFails 0 (plain_error ''lost''), WorkEnds (Inl (plain_error ''query'')),
      WorkBegins, ConnectEnds (Inr ())]"
  have reach: "connection_reachable s" if "?run evs = Some s" for evs s
    using that
  proof (induction evs arbitrary: s rule: rev_induct)
    case Nil
    then show ?case by (auto intro: connection_reachable.created)
  next
    case (snoc ev evs)
    then show ?case by (auto simp: bind_eq_Some_conv intro: connection_reachable.step)
  qed
  obtain s where s: "?run ?evs = Some s" and held: "mc_held s = Some 1"
    and rel: "mc_released s = [(0, Some (plain_error ''lost''))]"
    by (simp add: new_connection_def discard_client_def Let_def)
  from one_connection_none_lost [OF reach [OF s]] held rel reach [OF s] show ?thesis by auto
qed

end
