(* ===== verification/Pool.thy ===== *)
theory Pool
  imports Errors "HOL-Library.Multiset" "HOL-Library.AList"
begin

text \<open>
  Pools of workers, \<^verbatim>\<open>src/src/worker-pool.ts\<close>: the assignment of queues to runners,
  the size of the connection pool, and the transitions that start and stop all runners together.
  Starting and stopping one runner are parameters of the transitions. The concurrency of a
  runner is its number; the runner's own constructor checks it.
\<close>

section \<open>The assignment of queues\<close>

record runner_assignment =
  ra_queues :: "(string \<times> string option) list"
  ra_default :: "string option"

type_synonym runners = "(string \<times> int option) list"

text \<open>The loop keeps the order of the queues within a runner, and of the runners' first queues.\<close>

fun assign_loop ::
  "string set \<Rightarrow> string option \<Rightarrow> (string \<times> string option) list \<Rightarrow> (string \<times> string list) list
    \<Rightarrow> (string \<times> string list) list res" where
  "assign_loop known dflt [] assigned = Inr assigned"
| "assign_loop known dflt ((name, runner) # qs) assigned =
     (case nullish runner dflt of
        None \<Rightarrow> Inl (PlainTypeError (''Queue '' @ quoted name @ '' needs a runner, or the pool a defaultRunner''))
      | Some r \<Rightarrow>
          if r \<notin> known
          then Inl (PlainTypeError (''Queue '' @ quoted name @ '' uses unknown runner '' @ quoted r))
          else assign_loop known dflt qs
                 (AList.update r (nullish_else (map_of assigned r) [] @ [name]) assigned))"

definition assign_queues :: "runners \<Rightarrow> runner_assignment \<Rightarrow> (string \<times> string list) list res" where
  "assign_queues runners a =
     bind_res (guard_res (case ra_default a of None \<Rightarrow> True | Some r \<Rightarrow> r \<in> fst ` set runners)
       (PlainTypeError (''defaultRunner '' @ quoted (nullish_else (ra_default a) []) @ '' is not one of the runners''))) (\<lambda>_.
     assign_loop (fst ` set runners) (ra_default a) (ra_queues a) [])"

definition default_concurrency :: int where
  "default_concurrency = 10"

text \<open>Each started runner's concurrency, and its LISTEN and maintenance connections.\<close>

definition runner_connections :: "int option option \<Rightarrow> int" where
  "runner_connections runner =
     nullish_else (case runner of None \<Rightarrow> None | Some c \<Rightarrow> c) default_concurrency + 2"

definition pg_pool_size :: "runners \<Rightarrow> runner_assignment option \<Rightarrow> int res" where
  "pg_pool_size runners registry =
     (case registry of
        None \<Rightarrow> Inr (sum_list (map (runner_connections \<circ> Some \<circ> snd) runners))
      | Some a \<Rightarrow> bind_res (assign_queues runners a) (\<lambda>assigned.
          Inr (sum_list (map (runner_connections \<circ> map_of runners \<circ> fst) assigned))))"

section \<open>Starting and stopping together\<close>

text \<open>\<open>each\<close>: all runners settle, then the first failure in their order counts.\<close>

fun each_result :: "unit res list \<Rightarrow> unit res" where
  "each_result [] = Inr ()"
| "each_result (Inl e # rs) = Inl e"
| "each_result (Inr _ # rs) = each_result rs"

definition each :: "('w \<Rightarrow> unit res \<times> 'w) \<Rightarrow> 'w list \<Rightarrow> unit res \<times> 'w list" where
  "each run ws = (each_result (map (fst \<circ> run) ws), map (snd \<circ> run) ws)"

text \<open>A pool without runners idles from its start until its stop.\<close>

record 'w pool =
  pl_workers :: "'w list"
  pl_idle :: bool

definition stop_all :: "('w \<Rightarrow> unit res \<times> 'w) \<Rightarrow> 'w pool \<Rightarrow> 'w pool" where
  "stop_all stop p = p\<lparr>pl_workers := map (snd \<circ> stop) (pl_workers p)\<rparr>"

definition pool_start ::
  "('w \<Rightarrow> unit res \<times> 'w) \<Rightarrow> ('w \<Rightarrow> unit res \<times> 'w) \<Rightarrow> 'w pool \<Rightarrow> unit res \<times> 'w pool" where
  "pool_start start stop p =
     (if pl_workers p = [] then (Inr (), p\<lparr>pl_idle := True\<rparr>)
      else case each start (pl_workers p) of
        (Inr _, ws) \<Rightarrow> (Inr (), p\<lparr>pl_workers := ws\<rparr>)
      | (Inl e, ws) \<Rightarrow> (Inl e, stop_all stop (p\<lparr>pl_workers := ws\<rparr>)))"

text \<open>Without runners, \<open>primary\<close> is an unstarted worker whose stop cannot fail.\<close>

definition pool_stop :: "('w \<Rightarrow> unit res \<times> 'w) \<Rightarrow> 'w pool \<Rightarrow> unit res \<times> 'w pool" where
  "pool_stop stop p =
     (if pl_workers p = [] then (Inr (), p\<lparr>pl_idle := False\<rparr>)
      else case each stop (pl_workers p) of (r, ws) \<Rightarrow> (r, p\<lparr>pl_workers := ws, pl_idle := False\<rparr>))"

text \<open>A started runner that ends with an error and is not restarted: the others stop too.\<close>

definition runner_rejects :: "('w \<Rightarrow> unit res \<times> 'w) \<Rightarrow> 'w pool \<Rightarrow> 'w pool" where
  "runner_rejects stop p = stop_all stop p"

section \<open>Each queue has one runner\<close>

lemma distinct_update_keys:
  "distinct (map fst xs) \<Longrightarrow> distinct (map fst (AList.update k v xs))"
  by (rule distinct_update)

lemma mset_concat_update:
  "distinct (map fst xs) \<Longrightarrow>
   mset (concat (map snd (AList.update k (nullish_else (map_of xs k) [] @ [v]) xs))) =
   add_mset v (mset (concat (map snd xs)))"
proof (induction xs)
  case (Cons x xs)
  then show ?case by (cases x) (auto simp: map_of_eq_None_iff)
qed simp

lemma keys_update: "set (map fst (AList.update k v xs)) = insert k (set (map fst xs))"
  by (induction xs) auto

lemma assign_loop_spec:
  assumes "assign_loop known dflt qs assigned = Inr result" "distinct (map fst assigned)"
  shows "distinct (map fst result) \<and>
    mset (concat (map snd result)) = mset (concat (map snd assigned)) + mset (map fst qs) \<and>
    set (map fst result) = set (map fst assigned) \<union> (\<lambda>q. the (nullish (snd q) dflt)) ` set qs \<and>
    (\<forall>q\<in>set qs. \<exists>r\<in>known. nullish (snd q) dflt = Some r) \<and>
    (\<forall>r. nullish_else (map_of result r) [] = nullish_else (map_of assigned r) [] @
       map fst (filter (\<lambda>q. nullish (snd q) dflt = Some r) qs))"
  using assms
proof (induction qs arbitrary: assigned)
  case (Cons q qs)
  obtain name runner where q: "q = (name, runner)" by (cases q)
  obtain r where r: "nullish runner dflt = Some r" "r \<in> known"
    and rest: "assign_loop known dflt qs (AList.update r (nullish_else (map_of assigned r) [] @ [name]) assigned) = Inr result"
    using Cons.prems(1) unfolding q by (auto split: option.splits if_splits)
  note IH = Cons.IH [OF rest distinct_update_keys [OF Cons.prems(2)]]
  have "nullish_else (map_of result s) [] = nullish_else (map_of assigned s) [] @
      map fst (filter (\<lambda>q. nullish (snd q) dflt = Some s) (q # qs))" for s
    using IH r(1) by (auto simp: q update_conv')
  moreover have "mset (concat (map snd result)) = mset (concat (map snd assigned)) + mset (map fst (q # qs))"
    using IH mset_concat_update [OF Cons.prems(2), of r name] by (simp add: q)
  moreover have "set (map fst result) = set (map fst assigned) \<union> (\<lambda>q. the (nullish (snd q) dflt)) ` set (q # qs)"
    using IH r(1) unfolding keys_update by (auto simp: q)
  ultimately show ?case using IH r by (simp add: q)
qed simp

text \<open>
  Every queue has one runner: an accepted assignment places every queue exactly once, with the runner
  it names or else the default one, which the pool has; each runner with queues appears once,
  with its queues in the order of the registry; and the size of the connection pool counts
  exactly these runners.
\<close>

theorem every_queue_one_runner:
  assumes "assign_queues runners a = Inr assigned"
  shows "distinct (map fst assigned) \<and>
    mset (concat (map snd assigned)) = mset (map fst (ra_queues a)) \<and>
    list_all (\<lambda>(r, qs). r \<in> fst ` set runners \<and> qs \<noteq> [] \<and>
      qs = map fst (filter (\<lambda>q. nullish (snd q) (ra_default a) = Some r) (ra_queues a))) assigned \<and>
    pg_pool_size runners (Some a) =
      Inr (\<Sum>r\<leftarrow>map fst assigned. runner_connections (map_of runners r))"
proof -
  have loop: "assign_loop (fst ` set runners) (ra_default a) (ra_queues a) [] = Inr assigned"
    using assms by (simp add: assign_queues_def res_simps)
  have "distinct (map fst [])" by simp
  note spec = assign_loop_spec [OF loop this]
  have keys: "distinct (map fst assigned)" "mset (concat (map snd assigned)) = mset (map fst (ra_queues a))"
    "set (map fst assigned) = (\<lambda>q. the (nullish (snd q) (ra_default a))) ` set (ra_queues a)"
    using spec by simp_all
  have known: "\<exists>r\<in>fst ` set runners. nullish (snd q) (ra_default a) = Some r" if "q \<in> set (ra_queues a)" for q
    using spec that by blast
  have lists: "nullish_else (map_of assigned r) [] =
      map fst (filter (\<lambda>q. nullish (snd q) (ra_default a) = Some r) (ra_queues a))" for r
  proof -
    from spec have "nullish_else (map_of assigned r) [] = nullish_else (map_of [] r) [] @
      map fst (filter (\<lambda>q. nullish (snd q) (ra_default a) = Some r) (ra_queues a))" by blast
    then show ?thesis by simp
  qed
  have "r \<in> fst ` set runners \<and> qs \<noteq> [] \<and>
      qs = map fst (filter (\<lambda>q. nullish (snd q) (ra_default a) = Some r) (ra_queues a))"
    if "(r, qs) \<in> set assigned" for r qs
  proof -
    have "map_of assigned r = Some qs" using that keys(1) by simp
    with lists [of r] have qs: "qs = map fst (filter (\<lambda>q. nullish (snd q) (ra_default a) = Some r) (ra_queues a))"
      by simp
    have "r \<in> set (map fst assigned)" using that by force
    then obtain q where q: "q \<in> set (ra_queues a)" "r = the (nullish (snd q) (ra_default a))"
      unfolding keys(3) by blast
    moreover obtain r' where "r' \<in> fst ` set runners" "nullish (snd q) (ra_default a) = Some r'"
      using known [OF q(1)] by blast
    ultimately have "r \<in> fst ` set runners" "nullish (snd q) (ra_default a) = Some r" by simp_all
    with qs q(1) show ?thesis by (auto simp: filter_empty_conv)
  qed
  moreover have "pg_pool_size runners (Some a) = Inr (\<Sum>r\<leftarrow>map fst assigned. runner_connections (map_of runners r))"
    using assms by (simp add: pg_pool_size_def comp_def)
  ultimately show ?thesis using keys(1,2) by (auto simp: list_all_iff)
qed

theorem every_queue_one_runner_witness:
  "\<exists>assigned. assign_queues [(''fast'', Some 20), (''slow'', None), (''spare'', None)]
      \<lparr>ra_queues = [(''a'', Some ''fast''), (''b'', None), (''c'', Some ''fast'')], ra_default = Some ''slow''\<rparr> = Inr assigned \<and>
    distinct (map fst assigned) \<and>
    pg_pool_size [(''fast'', Some 20), (''slow'', None), (''spare'', None)]
      (Some \<lparr>ra_queues = [(''a'', Some ''fast''), (''b'', None), (''c'', Some ''fast'')], ra_default = Some ''slow''\<rparr>) = Inr 34"
proof -
  let ?rs = "[(''fast'', Some 20), (''slow'', None), (''spare'', None)]"
  let ?a = "\<lparr>ra_queues = [(''a'', Some ''fast''), (''b'', None), (''c'', Some ''fast'')], ra_default = Some ''slow''\<rparr>"
  have ok: "assign_queues ?rs ?a = Inr [(''fast'', [''a'', ''c'']), (''slow'', [''b''])]"
    by (simp add: assign_queues_def)
  from every_queue_one_runner [OF ok] ok show ?thesis
    by (simp add: runner_connections_def default_concurrency_def)
qed

section \<open>All or nothing\<close>

lemma each_result_Inr: "each_result rs = Inr u \<longleftrightarrow> list_all is_ok rs"
  by (induction rs rule: each_result.induct) auto

text \<open>The first failure in the order of the runners.\<close>

definition first_failure :: "unit res list \<Rightarrow> js_error option" where
  "first_failure rs = (case dropWhile is_ok rs of Inl e # _ \<Rightarrow> Some e | _ \<Rightarrow> None)"

lemma each_result_Inl: "each_result rs = Inl e \<longleftrightarrow> first_failure rs = Some e"
  by (induction rs rule: each_result.induct) (auto simp: first_failure_def)

text \<open>
  A pool starts all of its runners or none: given that a successful start of a runner leaves it
  running and a stop leaves it not running, the pool's start either succeeds with every runner
  running, or rejects with the first failure in the order of the runners and leaves none
  running. A pool without runners idles.
\<close>

theorem pool_start_all_or_nothing:
  assumes "\<And>w. fst (start w) = Inr () \<Longrightarrow> running (snd (start w))"
    and "\<And>w. \<not> running (snd (stop w))"
    and "pool_start start stop p = (res, p')"
  shows "case res of
      Inr _ \<Rightarrow> list_all running (pl_workers p') \<and> (pl_workers p = [] \<longrightarrow> pl_idle p')
    | Inl e \<Rightarrow> list_all (\<lambda>w. \<not> running w) (pl_workers p') \<and>
        first_failure (map (fst \<circ> start) (pl_workers p)) = Some e"
proof (cases "each_result (map (fst \<circ> start) (pl_workers p))")
  case (Inl e)
  then have "pl_workers p \<noteq> []" by auto
  with Inl assms(3) have "res = Inl e" "pl_workers p' = map (snd \<circ> stop \<circ> (snd \<circ> start)) (pl_workers p)"
    by (auto simp: pool_start_def each_def stop_all_def)
  moreover have "first_failure (map (fst \<circ> start) (pl_workers p)) = Some e"
    using Inl by (simp only: each_result_Inl)
  ultimately show ?thesis using assms(2) by (simp add: list_all_iff)
next
  case (Inr u)
  then have "list_all is_ok (map (fst \<circ> start) (pl_workers p))" by (simp add: each_result_Inr)
  then have "\<forall>w\<in>set (pl_workers p). running (snd (start w))"
    using assms(1) by (auto simp: list_all_iff is_ok_iff)
  moreover have "res = Inr ()" "pl_workers p' = map (snd \<circ> start) (pl_workers p)"
      "pl_workers p = [] \<longrightarrow> pl_idle p'"
    using Inr assms(3) by (auto simp: pool_start_def each_def split: if_splits)
  ultimately show ?thesis by (simp add: list_all_iff)
qed

text \<open>A runner as a number, which runs when it is odd; starting fails for numbers above 4.\<close>

theorem pool_start_all_or_nothing_witness:
  "pool_start (\<lambda>w :: nat. (if w > 4 then Inl DatabaseUnreachableError else Inr (), 2 * w + 1)) (\<lambda>w. (Inr (), 0))
     \<lparr>pl_workers = [2, 6, 8], pl_idle = False\<rparr> = (Inl DatabaseUnreachableError, \<lparr>pl_workers = [0, 0, 0], pl_idle = False\<rparr>) \<and>
   list_all (\<lambda>w. \<not> odd w) [0, 0, 0 :: nat]"
proof -
  have run: "pool_start (\<lambda>w :: nat. (if w > 4 then Inl DatabaseUnreachableError else Inr (), 2 * w + 1)) (\<lambda>w. (Inr (), 0))
      \<lparr>pl_workers = [2, 6, 8], pl_idle = False\<rparr> =
      (Inl DatabaseUnreachableError, \<lparr>pl_workers = [0, 0, 0], pl_idle = False\<rparr>)"
    by (simp add: pool_start_def each_def stop_all_def)
  from pool_start_all_or_nothing [where running = odd, OF _ _ this] run show ?thesis by simp
qed

end
