(* ===== verification/JsonValues.thy ===== *)
theory JsonValues
  imports Validation
begin

text \<open>
  \<^verbatim>\<open>assertJsonValue\<close> of \<^verbatim>\<open>src/src/validation.ts\<close> and the JSON copy every
  producer takes after it. A JavaScript value is a primitive or a reference into a heap of
  objects, so sharing and cycles are possible. \<open>represents\<close> is the declarative side: the
  value is a finite tree of JSON values. The walk accepts exactly those values, and the copy
  of an accepted value is that tree.
\<close>

section \<open>JSON trees\<close>

datatype json =
    JNull
  | JBool bool
  | JNum rat
  | JStr string
  | JArr "json list"
  | JObj "(string \<times> json) list"

definition json_get :: "string \<Rightarrow> json \<Rightarrow> json option" where
  "json_get k j = (case j of JObj kvs \<Rightarrow> map_of kvs k | _ \<Rightarrow> None)"

text \<open>Assigning a property keeps the position of an existing key and appends a new one.\<close>

definition json_set :: "string \<Rightarrow> json \<Rightarrow> json \<Rightarrow> json" where
  "json_set k v j = (case j of JObj kvs \<Rightarrow> JObj (AList.update k v kvs) | _ \<Rightarrow> j)"

definition json_without :: "string list \<Rightarrow> json \<Rightarrow> json" where
  "json_without ks j = (case j of JObj kvs \<Rightarrow> JObj [kv \<leftarrow> kvs. fst kv \<notin> set ks] | _ \<Rightarrow> j)"

definition is_json_object :: "json \<Rightarrow> bool" where
  "is_json_object j = (case j of JObj _ \<Rightarrow> True | _ \<Rightarrow> False)"

lemma json_get_set [simp]:
  "is_json_object j \<Longrightarrow> json_get k (json_set k' v j) = (if k = k' then Some v else json_get k j)"
  by (auto simp: json_get_def json_set_def is_json_object_def update_conv' split: json.splits)

lemma is_json_object_set [simp]: "is_json_object (json_set k v j) = is_json_object j"
  by (auto simp: json_set_def is_json_object_def split: json.splits)

lemma json_get_None [simp]: "\<not> is_json_object j \<Longrightarrow> json_get k j = None"
  by (auto simp: json_get_def is_json_object_def split: json.splits)

lemma map_of_filter_key:
  "map_of [kv \<leftarrow> kvs. fst kv \<notin> A] k = (if k \<in> A then None else map_of kvs k)"
  by (induction kvs) auto

lemma json_get_without [simp]:
  "json_get k (json_without ks j) = (if k \<in> set ks then None else json_get k j)"
  by (auto simp: json_get_def json_without_def map_of_filter_key split: json.splits)

lemma is_json_object_without [simp]: "is_json_object (json_without ks j) = is_json_object j"
  by (auto simp: json_without_def is_json_object_def split: json.splits)

section \<open>JavaScript values on a heap\<close>

text \<open>
  \<open>GFunction\<close> stands for functions and symbols, which \<open>JSON.stringify\<close> drops. An array
  and a plain object say whether they own symbol properties. \<open>GDate\<close> is a date object,
  \<open>GInstance\<close> any other object with a prototype of its own and no \<open>toJSON\<close> method.
\<close>

datatype gval = GUndef | GNull | GBool bool | GNum jsnum | GStr string | GBigint | GFunction | GRef nat

datatype gobj =
    GArray "gval list" bool
  | GPlain "(string \<times> gval) list" bool
  | GDate "int option"
  | GInstance "(string \<times> gval) list"

type_synonym heap = "gobj list"

definition heap_get :: "heap \<Rightarrow> nat \<Rightarrow> gobj option" where
  "heap_get h i = (if i < length h then Some (h ! i) else None)"

definition unseen :: "heap \<Rightarrow> nat list \<Rightarrow> nat" where
  "unseen h anc = card ({..<length h} - set anc)"

lemma unseen_less:
  "heap_get h i = Some ob \<Longrightarrow> i \<notin> set anc \<Longrightarrow> unseen h (i # anc) < unseen h anc"
  unfolding unseen_def heap_get_def
  by (intro psubset_card_mono) (auto split: if_splits)

section \<open>The check\<close>

abbreviation not_json :: js_error where
  "not_json \<equiv> NonRetriableError ''Value must contain only JSON-compatible values''"

abbreviation json_cycle :: js_error where
  "json_cycle \<equiv> NonRetriableError ''JSON values cannot contain cycles''"

abbreviation not_plain :: js_error where
  "not_plain \<equiv> NonRetriableError
     ''JSON values must use plain objects; encode dates and class instances explicitly''"

abbreviation symbol_property :: js_error where
  "symbol_property \<equiv> NonRetriableError ''JSON values cannot contain symbol properties''"

text \<open>
  \<open>visit\<close> and the loop over the items of an object; \<open>anc\<close> is the set of ancestors on the
  path from the root. A reference outside the heap is no JavaScript value and is refused.
\<close>

function visit :: "heap \<Rightarrow> nat list \<Rightarrow> gval \<Rightarrow> unit res"
  and visit_items :: "heap \<Rightarrow> nat list \<Rightarrow> gval list \<Rightarrow> unit res" where
  "visit h anc GUndef = Inl not_json"
| "visit h anc GNull = Inr ()"
| "visit h anc (GBool b) = Inr ()"
| "visit h anc (GStr s) = Inr ()"
| "visit h anc (GNum n) = (if num_val n \<noteq> None then Inr () else Inl not_json)"
| "visit h anc GBigint = Inl not_json"
| "visit h anc GFunction = Inl not_json"
| "visit h anc (GRef i) =
     (case heap_get h i of
        None \<Rightarrow> Inl not_json
      | Some ob \<Rightarrow>
          if i \<in> set anc then Inl json_cycle
          else (case ob of
                  GArray vs symb \<Rightarrow>
                    if symb then Inl symbol_property else visit_items h (i # anc) vs
                | GPlain kvs symb \<Rightarrow>
                    if symb then Inl symbol_property else visit_items h (i # anc) (map snd kvs)
                | GDate d \<Rightarrow> Inl not_plain
                | GInstance kvs \<Rightarrow> Inl not_plain))"
| "visit_items h anc [] = Inr ()"
| "visit_items h anc (v # vs) =
     (case visit h anc v of Inl e \<Rightarrow> Inl e | Inr _ \<Rightarrow> visit_items h anc vs)"
  by pat_completeness auto
termination
  by (relation "measures [case_sum (\<lambda>(h, anc, v). unseen h anc) (\<lambda>(h, anc, vs). unseen h anc),
                          case_sum (\<lambda>_. 0) (\<lambda>(h, anc, vs). Suc (length vs))]")
     (auto simp: unseen_less)

definition assert_json_value :: "heap \<Rightarrow> gval \<Rightarrow> bool \<Rightarrow> unit res" where
  "assert_json_value h v allow_undefined =
     (if v = GUndef \<and> allow_undefined then Inr () else visit h [] v)"

section \<open>Finite JSON trees on the heap\<close>

inductive represents :: "heap \<Rightarrow> gval \<Rightarrow> json \<Rightarrow> bool" for h where
  rep_null: "represents h GNull JNull"
| rep_bool: "represents h (GBool b) (JBool b)"
| rep_num: "num_val n = Some q \<Longrightarrow> represents h (GNum n) (JNum q)"
| rep_str: "represents h (GStr s) (JStr s)"
| rep_arr: "heap_get h i = Some (GArray vs False) \<Longrightarrow> list_all2 (represents h) vs js \<Longrightarrow>
     represents h (GRef i) (JArr js)"
| rep_obj: "heap_get h i = Some (GPlain kvs False) \<Longrightarrow> map fst kvs = map fst kjs \<Longrightarrow>
     list_all2 (represents h) (map snd kvs) (map snd kjs) \<Longrightarrow>
     represents h (GRef i) (JObj kjs)"

inductive_cases represents_refE: "represents h (GRef i) j"

inductive_simps represents_prim_simps [simp]:
  "represents h GNull j" "represents h (GBool b) j" "represents h (GStr s) j"
  "represents h (GNum n) j" "represents h GUndef j" "represents h GBigint j"
  "represents h GFunction j"

lemma list_all2_functional:
  assumes "list_all2 (\<lambda>v j. R v j \<and> (\<forall>j'. R v j' \<longrightarrow> j = j')) vs js"
    and "list_all2 R vs js'"
  shows "js = js'"
  using assms by (induction arbitrary: js' rule: list_all2_induct) (auto simp: list_all2_Cons1)

lemma represents_unique: "represents h v j \<Longrightarrow> represents h v j' \<Longrightarrow> j = j'"
proof (induction arbitrary: j' rule: represents.induct)
  case (rep_arr i vs js)
  from rep_arr.prems obtain js' where
    j': "j' = JArr js'" "list_all2 (represents h) vs js'"
    by (rule represents_refE) (use rep_arr.hyps(1) in simp_all)
  have "js = js'"
    using rep_arr.IH j'(2) by (rule list_all2_functional)
  with j' show ?case by simp
next
  case (rep_obj i kvs kjs)
  from rep_obj.prems obtain kjs' where
    j': "j' = JObj kjs'" "map fst kvs = map fst kjs'"
        "list_all2 (represents h) (map snd kvs) (map snd kjs')"
    by (rule represents_refE) (use rep_obj.hyps(1) in simp_all)
  have "map snd kjs = map snd kjs'"
    using rep_obj.IH j'(3) by (rule list_all2_functional)
  with j' rep_obj.hyps show ?case by (metis pair_list_eqI)
qed simp_all

text \<open>Acceptance means a tree exists: computation induction on the walk.\<close>

lemma visit_sound:
  "visit h anc v = Inr () \<Longrightarrow> \<exists>j. represents h v j"
  "visit_items h anc vs = Inr () \<Longrightarrow> \<exists>js. list_all2 (represents h) vs js"
proof (induction h anc v and h anc vs rule: visit_visit_items.induct)
  case (8 h anc i)
  then show ?case
  proof (cases "heap_get h i")
    case (Some ob)
    with 8 show ?thesis
    proof (cases ob)
      case (GArray vs symb)
      with 8 Some have "\<not> symb" "\<exists>js. list_all2 (represents h) vs js"
        by (auto split: if_splits)
      with Some GArray show ?thesis by (auto intro: rep_arr)
    next
      case (GPlain kvs symb)
      with 8 Some obtain js where js: "list_all2 (represents h) (map snd kvs) js" "\<not> symb"
        by (auto split: if_splits)
      define kjs where "kjs = zip (map fst kvs) js"
      have "length js = length kvs" using js list_all2_lengthD by fastforce
      then have "map fst kjs = map fst kvs" "map snd kjs = js"
        by (simp_all add: kjs_def)
      with js Some GPlain have "represents h (GRef i) (JObj kjs)"
        by (intro rep_obj) auto
      then show ?thesis by blast
    qed (auto split: if_splits)
  qed auto
next
  case (10 h anc v vs)
  then show ?case by (auto split: sum.splits)
qed (auto intro: represents.intros split: if_splits)

text \<open>
  Conversely the walk never meets an ancestor in a value that is a tree: every ancestor
  stands for a larger tree, and a value stands for one tree only.
\<close>

definition bigger_ancestors :: "heap \<Rightarrow> nat list \<Rightarrow> nat \<Rightarrow> bool" where
  "bigger_ancestors h anc n \<longleftrightarrow> (\<forall>a\<in>set anc. \<exists>j. represents h (GRef a) j \<and> n < size j)"

lemma bigger_ancestors_Nil [simp]: "bigger_ancestors h [] n"
  by (simp add: bigger_ancestors_def)

lemma bigger_ancestors_mono:
  "bigger_ancestors h anc n \<Longrightarrow> m \<le> n \<Longrightarrow> bigger_ancestors h anc m"
  unfolding bigger_ancestors_def by (meson order.strict_trans1)

lemma visit_items_complete:
  assumes "list_all2 (\<lambda>v j. represents h v j \<and>
      (\<forall>anc. bigger_ancestors h anc (size j) \<longrightarrow> visit h anc v = Inr ())) vs js"
    and "bigger_ancestors h anc n" and "size_list size js \<le> n"
  shows "visit_items h anc vs = Inr ()"
  using assms
proof (induction arbitrary: n rule: list_all2_induct)
  case (Cons v vs j js)
  have "visit h anc v = Inr ()"
    using Cons.hyps Cons.prems bigger_ancestors_mono [of h anc n "size j"] by simp
  moreover have "visit_items h anc vs = Inr ()"
    using Cons.IH [of n] Cons.prems by simp
  ultimately show ?case by simp
qed simp

lemma size_list_snd: "size_list size (map snd kjs) \<le> size_list (size_prod (\<lambda>x. 0) size) kjs"
  by (induction kjs) auto

lemma visit_complete:
  "represents h v j \<Longrightarrow> bigger_ancestors h anc (size j) \<Longrightarrow> visit h anc v = Inr ()"
proof (induction arbitrary: anc rule: represents.induct)
  case (rep_arr i vs js)
  have all: "list_all2 (represents h) vs js"
    using rep_arr.IH by (rule list_all2_mono) blast
  have rep: "represents h (GRef i) (JArr js)"
    using rep_arr.hyps all by (rule represents.rep_arr)
  then have "i \<notin> set anc"
    using rep_arr.prems represents_unique unfolding bigger_ancestors_def by blast
  moreover have "bigger_ancestors h (i # anc) (size_list size js)"
    using rep_arr.prems rep unfolding bigger_ancestors_def by fastforce
  then have "visit_items h (i # anc) vs = Inr ()"
    using rep_arr.IH by (intro visit_items_complete [where js = js]) (auto elim: list_all2_mono)
  ultimately show ?case using rep_arr.hyps by simp
next
  case (rep_obj i kvs kjs)
  have all: "list_all2 (represents h) (map snd kvs) (map snd kjs)"
    using rep_obj.IH by (rule list_all2_mono) blast
  have rep: "represents h (GRef i) (JObj kjs)"
    using rep_obj.hyps all by (rule represents.rep_obj)
  then have "i \<notin> set anc"
    using rep_obj.prems represents_unique unfolding bigger_ancestors_def by blast
  moreover have "bigger_ancestors h (i # anc) (size_list size (map snd kjs))"
    using rep_obj.prems rep size_list_snd [of kjs] unfolding bigger_ancestors_def
    by (fastforce simp: less_Suc_eq_le)
  then have "visit_items h (i # anc) (map snd kvs) = Inr ()"
    using rep_obj.IH
    by (intro visit_items_complete [where js = "map snd kjs"]) (auto elim: list_all2_mono)
  ultimately show ?case using rep_obj.hyps by simp
qed simp_all

lemma visit_iff: "visit h [] v = Inr () \<longleftrightarrow> (\<exists>j. represents h v j)"
  using visit_sound(1) visit_complete by (metis bigger_ancestors_Nil)

section \<open>Writing and reading back JSON\<close>

text \<open>
  \<open>JSON.stringify\<close>: functions, symbols and undefined are dropped from objects and become
  null in arrays, numbers JSON cannot write become null, a date becomes its ISO text, an
  instance its own properties; \<open>None\<close> is the undefined result. A text and its tree are
  identified, so \<open>JSON.parse\<close> of the text is \<open>alloc\<close>: fresh objects for the tree.
\<close>

function stringify :: "heap \<Rightarrow> nat list \<Rightarrow> gval \<Rightarrow> json option res"
  and stringify_elems :: "heap \<Rightarrow> nat list \<Rightarrow> gval list \<Rightarrow> json list res"
  and stringify_props :: "heap \<Rightarrow> nat list \<Rightarrow> (string \<times> gval) list \<Rightarrow> (string \<times> json) list res"
where
  "stringify h anc GUndef = Inr None"
| "stringify h anc GFunction = Inr None"
| "stringify h anc GNull = Inr (Some JNull)"
| "stringify h anc (GBool b) = Inr (Some (JBool b))"
| "stringify h anc (GStr s) = Inr (Some (JStr s))"
| "stringify h anc (GNum n) =
     Inr (Some (case num_val n of Some q \<Rightarrow> JNum q | None \<Rightarrow> JNull))"
| "stringify h anc GBigint = Inl (PlainTypeError ''Do not know how to serialize a BigInt'')"
| "stringify h anc (GRef i) =
     (case heap_get h i of
        None \<Rightarrow> Inr None
      | Some ob \<Rightarrow>
          (case ob of
             GDate d \<Rightarrow> Inr (Some (case d of Some t \<Rightarrow> JStr (iso_string t) | None \<Rightarrow> JNull))
           | GArray vs symb \<Rightarrow>
               if i \<in> set anc then Inl (PlainTypeError ''Converting circular structure to JSON'')
               else bind_res (stringify_elems h (i # anc) vs) (\<lambda>js. Inr (Some (JArr js)))
           | GPlain kvs symb \<Rightarrow>
               if i \<in> set anc then Inl (PlainTypeError ''Converting circular structure to JSON'')
               else bind_res (stringify_props h (i # anc) kvs) (\<lambda>js. Inr (Some (JObj js)))
           | GInstance kvs \<Rightarrow>
               if i \<in> set anc then Inl (PlainTypeError ''Converting circular structure to JSON'')
               else bind_res (stringify_props h (i # anc) kvs) (\<lambda>js. Inr (Some (JObj js)))))"
| "stringify_elems h anc [] = Inr []"
| "stringify_elems h anc (v # vs) =
     (case stringify h anc v of
        Inl e \<Rightarrow> Inl e
      | Inr r \<Rightarrow> bind_res (stringify_elems h anc vs)
                   (\<lambda>js. Inr ((case r of None \<Rightarrow> JNull | Some j \<Rightarrow> j) # js)))"
| "stringify_props h anc [] = Inr []"
| "stringify_props h anc ((k, v) # kvs) =
     (case stringify h anc v of
        Inl e \<Rightarrow> Inl e
      | Inr r \<Rightarrow> bind_res (stringify_props h anc kvs)
                   (\<lambda>js. Inr (case r of None \<Rightarrow> js | Some j \<Rightarrow> (k, j) # js)))"
  by pat_completeness auto
termination
  by (relation "measures [case_sum (\<lambda>(h, anc, v). unseen h anc)
                            (case_sum (\<lambda>(h, anc, vs). unseen h anc) (\<lambda>(h, anc, vs). unseen h anc)),
                          case_sum (\<lambda>_. 0)
                            (case_sum (\<lambda>(h, anc, vs). Suc (length vs)) (\<lambda>(h, anc, vs). Suc (length vs)))]")
     (auto simp: unseen_less)

fun alloc :: "heap \<Rightarrow> json \<Rightarrow> heap \<times> gval"
  and alloc_elems :: "heap \<Rightarrow> json list \<Rightarrow> heap \<times> gval list"
  and alloc_props :: "heap \<Rightarrow> (string \<times> json) list \<Rightarrow> heap \<times> (string \<times> gval) list"
where
  "alloc h JNull = (h, GNull)"
| "alloc h (JBool b) = (h, GBool b)"
| "alloc h (JNum q) = (h, GNum (Num q))"
| "alloc h (JStr s) = (h, GStr s)"
| "alloc h (JArr js) =
     (let (h', vs) = alloc_elems h js in (h' @ [GArray vs False], GRef (length h')))"
| "alloc h (JObj kjs) =
     (let (h', kvs) = alloc_props h kjs in (h' @ [GPlain kvs False], GRef (length h')))"
| "alloc_elems h [] = (h, [])"
| "alloc_elems h (j # js) =
     (let (h', v) = alloc h j; (h'', vs) = alloc_elems h' js in (h'', v # vs))"
| "alloc_props h [] = (h, [])"
| "alloc_props h ((k, j) # kjs) =
     (let (h', v) = alloc h j; (h'', kvs) = alloc_props h' kjs in (h'', (k, v) # kvs))"

lemma represents_extend: "represents h v j \<Longrightarrow> represents (h @ ext) v j"
proof (induction rule: represents.induct)
  case (rep_arr i vs js)
  then have "heap_get (h @ ext) i = Some (GArray vs False)"
    by (auto simp: heap_get_def nth_append split: if_splits)
  with rep_arr.IH show ?case
    by (intro represents.rep_arr) (auto elim: list_all2_mono)
next
  case (rep_obj i kvs kjs)
  then have "heap_get (h @ ext) i = Some (GPlain kvs False)"
    by (auto simp: heap_get_def nth_append split: if_splits)
  with rep_obj show ?case
    by (intro represents.rep_obj) (auto elim: list_all2_mono)
qed auto

lemma represents_extend_all:
  "list_all2 (represents h) vs js \<Longrightarrow> list_all2 (represents (h @ ext)) vs js"
  by (auto elim: list_all2_mono intro: represents_extend)

lemma alloc_represents:
  "alloc h j = (h', v) \<Longrightarrow> \<exists>ext. h' = h @ ext \<and> represents h' v j"
  "alloc_elems h js = (h', vs) \<Longrightarrow> \<exists>ext. h' = h @ ext \<and> list_all2 (represents h') vs js"
  "alloc_props h kjs = (h', kvs) \<Longrightarrow> \<exists>ext. h' = h @ ext \<and> map fst kvs = map fst kjs \<and>
     list_all2 (represents h') (map snd kvs) (map snd kjs)"
proof (induction h j and h js and h kjs arbitrary: h' v and h' vs and h' kvs
    rule: alloc_alloc_elems_alloc_props.induct)
  case (5 h js)
  then obtain h1 vs where a: "alloc_elems h js = (h1, vs)" "h' = h1 @ [GArray vs False]"
      "v = GRef (length h1)"
    by (auto split: prod.splits)
  with 5 obtain ext where "h1 = h @ ext" "list_all2 (represents h1) vs js" by blast
  with a have "h' = h @ ext @ [GArray vs False]" "list_all2 (represents h') vs js"
    using represents_extend_all [of h1 vs js "[GArray vs False]"] by auto
  with a show ?case
    by (auto intro!: represents.rep_arr simp: heap_get_def)
next
  case (6 h kjs)
  then obtain h1 kvs where a: "alloc_props h kjs = (h1, kvs)" "h' = h1 @ [GPlain kvs False]"
      "v = GRef (length h1)"
    by (auto split: prod.splits)
  with 6 obtain ext where "h1 = h @ ext" "map fst kvs = map fst kjs"
      "list_all2 (represents h1) (map snd kvs) (map snd kjs)" by blast
  with a have "h' = h @ ext @ [GPlain kvs False]" "map fst kvs = map fst kjs"
      "list_all2 (represents h') (map snd kvs) (map snd kjs)"
    using represents_extend_all [of h1 "map snd kvs" "map snd kjs" "[GPlain kvs False]"] by auto
  with a show ?case
    by (auto intro!: represents.rep_obj simp: heap_get_def)
next
  case (8 h j js)
  from 8(3) obtain h1 v vs2 where a: "alloc h j = (h1, v)" "alloc_elems h1 js = (h', vs2)"
      "vs = v # vs2"
    by (auto split: prod.splits)
  with 8(1) 8(2) obtain e1 e2 where "h1 = h @ e1" "represents h1 v j"
      "h' = h1 @ e2" "list_all2 (represents h') vs2 js"
    by metis
  moreover have "represents (h1 @ e2) v j" by (rule represents_extend) fact
  ultimately show ?case using a by simp
next
  case (10 h k j kjs)
  from 10(3) obtain h1 v kvs2 where a: "alloc h j = (h1, v)" "alloc_props h1 kjs = (h', kvs2)"
      "kvs = (k, v) # kvs2"
    by (auto split: prod.splits)
  with 10(1) 10(2) obtain e1 e2 where "h1 = h @ e1" "represents h1 v j"
      "h' = h1 @ e2" "map fst kvs2 = map fst kjs"
      "list_all2 (represents h') (map snd kvs2) (map snd kjs)"
    by metis
  moreover have "represents (h1 @ e2) v j" by (rule represents_extend) fact
  ultimately show ?case using a by simp
qed auto

text \<open>Writing a tree loses nothing: the text holds exactly the tree the value stands for.\<close>

lemma stringify_elems_complete:
  assumes "list_all2 (\<lambda>v j. represents h v j \<and>
      (\<forall>anc. bigger_ancestors h anc (size j) \<longrightarrow> stringify h anc v = Inr (Some j))) vs js"
    and "bigger_ancestors h anc n" and "size_list size js \<le> n"
  shows "stringify_elems h anc vs = Inr js"
  using assms
proof (induction arbitrary: n rule: list_all2_induct)
  case (Cons v vs j js)
  have "stringify h anc v = Inr (Some j)"
    using Cons.hyps Cons.prems bigger_ancestors_mono [of h anc n "size j"] by simp
  moreover have "stringify_elems h anc vs = Inr js"
    using Cons.IH [of n] Cons.prems by simp
  ultimately show ?case by simp
qed simp

lemma stringify_props_elems:
  "\<forall>v\<in>set (map snd kvs). \<forall>r. stringify h anc v = Inr r \<longrightarrow> r \<noteq> None \<Longrightarrow>
   stringify_props h anc kvs =
     bind_res (stringify_elems h anc (map snd kvs)) (\<lambda>js. Inr (zip (map fst kvs) js))"
proof (induction kvs)
  case (Cons kv kvs)
  obtain k v where kv: "kv = (k, v)" by (cases kv)
  show ?case
  proof (cases "stringify h anc v")
    case (Inr r)
    with Cons.prems kv obtain j where "r = Some j" by fastforce
    with Inr Cons kv show ?thesis
      by (cases "stringify_elems h anc (map snd kvs)") simp_all
  qed (simp add: kv)
qed simp

lemma stringify_complete:
  "represents h v j \<Longrightarrow> bigger_ancestors h anc (size j) \<Longrightarrow> stringify h anc v = Inr (Some j)"
proof (induction arbitrary: anc rule: represents.induct)
  case (rep_arr i vs js)
  have all: "list_all2 (represents h) vs js"
    using rep_arr.IH by (rule list_all2_mono) blast
  have rep: "represents h (GRef i) (JArr js)"
    using rep_arr.hyps all by (rule represents.rep_arr)
  then have "i \<notin> set anc"
    using rep_arr.prems represents_unique unfolding bigger_ancestors_def by blast
  moreover have "bigger_ancestors h (i # anc) (size_list size js)"
    using rep_arr.prems rep unfolding bigger_ancestors_def by fastforce
  then have "stringify_elems h (i # anc) vs = Inr js"
    using rep_arr.IH by (intro stringify_elems_complete) (auto elim: list_all2_mono)
  ultimately show ?case using rep_arr.hyps by simp
next
  case (rep_obj i kvs kjs)
  have all: "list_all2 (represents h) (map snd kvs) (map snd kjs)"
    using rep_obj.IH by (rule list_all2_mono) blast
  have rep: "represents h (GRef i) (JObj kjs)"
    using rep_obj.hyps all by (rule represents.rep_obj)
  then have fresh: "i \<notin> set anc"
    using rep_obj.prems represents_unique unfolding bigger_ancestors_def by blast
  have big: "bigger_ancestors h (i # anc) (size_list size (map snd kjs))"
    using rep_obj.prems rep size_list_snd [of kjs] unfolding bigger_ancestors_def
    by (fastforce simp: less_Suc_eq_le)
  then have elems: "stringify_elems h (i # anc) (map snd kvs) = Inr (map snd kjs)"
    using rep_obj.IH by (intro stringify_elems_complete) (auto elim: list_all2_mono)
  have "\<forall>v\<in>set (map snd kvs). \<forall>r. stringify h (i # anc) v = Inr r \<longrightarrow> r \<noteq> None"
  proof (intro ballI allI impI)
    fix v r
    assume "v \<in> set (map snd kvs)" and r: "stringify h (i # anc) v = Inr r"
    then obtain n where n: "n < length (map snd kvs)" "v = map snd kvs ! n"
      by (metis in_set_conv_nth)
    with rep_obj.IH have len: "n < length (map snd kjs)"
      and IH: "bigger_ancestors h (i # anc) (size (map snd kjs ! n)) \<Longrightarrow>
        stringify h (i # anc) v = Inr (Some (map snd kjs ! n))"
      by (auto simp: list_all2_conv_all_nth)
    have "size (map snd kjs ! n) \<le> size_list size (map snd kjs)"
      using len by (metis nth_mem size_list_estimation' order_refl)
    with IH big r show "r \<noteq> None" by (auto dest: bigger_ancestors_mono)
  qed
  with elems rep_obj.hyps(2) have "stringify_props h (i # anc) kvs = Inr kjs"
    by (simp add: stringify_props_elems zip_map_fst_snd)
  with fresh rep_obj.hyps show ?case by simp
qed simp_all

section \<open>What the check promises its callers\<close>

text \<open>\<open>value === undefined ? undefined : JSON.parse(JSON.stringify(value))\<close>.\<close>

definition json_snapshot :: "heap \<Rightarrow> gval \<Rightarrow> json option res" where
  "json_snapshot h v = (if v = GUndef then Inr None else stringify h [] v)"

text \<open>\<open>toJsonCompat\<close>: through text and back, into fresh objects.\<close>

definition to_json_compat :: "heap \<Rightarrow> gval \<Rightarrow> (heap \<times> gval) res" where
  "to_json_compat h data =
     bind_res (stringify h [] data)
       (\<lambda>doc. Inr (case doc of None \<Rightarrow> (h, GUndef) | Some j \<Rightarrow> alloc h j))"

text \<open>
  C30 The check accepts exactly the values that are finite trees of JSON values: no cycle, no
  class instance, no symbol property, no undefined or function anywhere, no NaN or infinity.
\<close>

theorem assert_json_value_iff_tree:
  "assert_json_value h v False = Inr () \<longleftrightarrow> (\<exists>j. represents h v j)"
  by (simp add: assert_json_value_def visit_iff)

lemma stringify_represents: "represents h v j \<Longrightarrow> stringify h [] v = Inr (Some j)"
  by (rule stringify_complete) simp_all

lemma represents_not_undef: "represents h v j \<Longrightarrow> v \<noteq> GUndef"
  by auto

lemma accepted_cases:
  "assert_json_value h v True = Inr () \<Longrightarrow> v = GUndef \<or> (\<exists>j. represents h v j)"
  by (auto simp: assert_json_value_def visit_iff split: if_splits)

text \<open>
  An accepted value survives JSON: its snapshot is undefined for undefined and otherwise the
  very tree the value stands for (with \<open>-0\<close> read back as \<open>0\<close>, as the rational value).
\<close>

theorem accepted_snapshot_lossless:
  assumes "assert_json_value h v True = Inr ()"
  shows "(if v = GUndef then json_snapshot h v = Inr None
          else \<exists>j. represents h v j \<and> json_snapshot h v = Inr (Some j))"
  using accepted_cases [OF assms]
  by (auto simp: json_snapshot_def stringify_represents)

text \<open>
  Whatever \<open>toJsonCompat\<close> returns passes the check, and the snapshot taken of it is the
  text's tree: in this mode only serialization itself (a cycle, a bigint) can reject an input.
\<close>

theorem json_compat_always_accepted:
  assumes "to_json_compat h data = Inr (h', wire)"
  shows "assert_json_value h' wire True = Inr () \<and> json_snapshot h' wire = stringify h [] data"
proof -
  from assms obtain doc where doc: "stringify h [] data = Inr doc"
    and res: "(case doc of None \<Rightarrow> (h, GUndef) | Some j \<Rightarrow> alloc h j) = (h', wire)"
    by (auto simp: to_json_compat_def res_simps)
  show ?thesis
  proof (cases doc)
    case None
    with doc res show ?thesis by (simp add: assert_json_value_def json_snapshot_def)
  next
    case (Some j)
    with res have "represents h' wire j" using alloc_represents(1) [of h j h' wire] by auto
    with doc Some show ?thesis
      by (auto simp: assert_json_value_def visit_iff json_snapshot_def stringify_represents
          dest: represents_not_undef)
  qed
qed

text \<open>A shared object is no cycle; an object inside itself is one.\<close>

definition shared_heap :: heap where
  "shared_heap = [GArray [GNum (Num 1), GNull] False,
                  GPlain [(''a'', GRef 0), (''b'', GRef 0)] False,
                  GArray [GRef 2] False]"

lemma shared_heap_accepted: "assert_json_value shared_heap (GRef 1) True = Inr ()"
  by code_simp

lemma shared_heap_cycle: "assert_json_value shared_heap (GRef 2) True = Inl json_cycle"
  by code_simp

theorem accepted_snapshot_lossless_witness:
  "\<exists>j. represents shared_heap (GRef 1) j \<and> json_snapshot shared_heap (GRef 1) = Inr (Some j)"
  using accepted_snapshot_lossless [OF shared_heap_accepted] by simp

definition dated_heap :: heap where
  "dated_heap = [GDate (Some 0), GPlain [(''at'', GRef 0), (''x'', GUndef)] False]"

theorem json_compat_always_accepted_witness:
  "\<exists>h' wire. to_json_compat dated_heap (GRef 1) = Inr (h', wire) \<and>
     assert_json_value h' wire True = Inr () \<and>
     json_snapshot h' wire = Inr (Some (JObj [(''at'', JStr ''1970-01-01T00:00:00.000Z'')]))"
proof -
  have doc: "stringify dated_heap [] (GRef 1) =
      Inr (Some (JObj [(''at'', JStr ''1970-01-01T00:00:00.000Z'')]))" by code_simp
  obtain h' wire where "to_json_compat dated_heap (GRef 1) = Inr (h', wire)"
    using doc by (cases "alloc dated_heap (JObj [(''at'', JStr ''1970-01-01T00:00:00.000Z'')])")
      (simp add: to_json_compat_def)
  with json_compat_always_accepted [OF this] doc
  show "\<exists>h' wire. to_json_compat dated_heap (GRef 1) = Inr (h', wire) \<and>
     assert_json_value h' wire True = Inr () \<and>
     json_snapshot h' wire = Inr (Some (JObj [(''at'', JStr ''1970-01-01T00:00:00.000Z'')]))"
    by auto
qed

end
