(* ===== verification/Queues.thy ===== *)
theory Queues
  imports JsonValues
begin

text \<open>
  Queue contracts (\<^verbatim>\<open>src/src/queue.ts\<close>), the uniqueness check of a registry
  (\<^verbatim>\<open>src/src/define-queues.ts\<close>), the pairing of contracts with their handlers
  (\<^verbatim>\<open>src/src/registry.ts\<close>) and the selection of the queues one worker runs
  (\<^verbatim>\<open>selectProcessed\<close> of \<^verbatim>\<open>src/src/create-better-worker.ts\<close>). Schemas are
  third-party validators and are functions of the contract; a closed JavaScript value is a
  heap with a value in it.
\<close>

section \<open>Contracts\<close>

type_synonym jsv = "heap \<times> gval"

type_synonym schema = "jsv \<Rightarrow> issue list + jsv"

definition value_of :: "json option \<Rightarrow> jsv" where
  "value_of w = (case w of None \<Rightarrow> ([], GUndef) | Some j \<Rightarrow> alloc [] j)"

text \<open>A cron matcher function is known by a number only: Graphile calls it.\<close>

datatype cron_schedule = CronText string | CronList "string list" | CronFunction nat

datatype serial = SerialFlag bool | SerialName string

datatype job_key_mode = Replace | PreserveRunAt | UnsafeDedupe

record cron_options =
  co_identifier :: "string option"
  co_backfill_period :: "jsnum option"
  co_max_attempts :: "jsnum option"
  co_queue_name :: "string option"
  co_priority :: "jsnum option"
  co_job_key :: "string option"
  co_job_key_mode :: "job_key_mode option"

text \<open>
  A handler property of an object: not there, there but undefined, there but no function, or
  a function of the caller's handler type.
\<close>

datatype 'h fn_field = Absent | IsUndefined | NotFunction | Fn 'h

record 'h queue =
  q_name :: string
  q_input_schema :: "schema option"
  q_progress_schema :: "schema option"
  q_output_schema :: "schema option"
  q_max_attempts :: "jsnum option"
  q_priority :: "jsnum option"
  q_flags :: "string list option"
  q_timeout :: "jsnum option"
  q_serial :: "serial option"
  q_runner :: "string option"
  q_cron :: "cron_schedule option"
  q_cron_options :: "cron_options option"
  q_derive :: "(jsv \<Rightarrow> jsval res) option"
  q_process :: "'h fn_field"
  q_init :: "'h fn_field"

definition bare_queue :: "string \<Rightarrow> 'h queue" where
  "bare_queue n = \<lparr>q_name = n, q_input_schema = None, q_progress_schema = None,
     q_output_schema = None, q_max_attempts = None, q_priority = None, q_flags = None,
     q_timeout = None, q_serial = None, q_runner = None, q_cron = None, q_cron_options = None,
     q_derive = None, q_process = Absent, q_init = Absent\<rparr>"

definition cron_init_suffix :: string where
  "cron_init_suffix = ''_cron-init''"

definition is_cron_init_queue :: "'h queue \<Rightarrow> bool" where
  "is_cron_init_queue q \<longleftrightarrow> q_cron q \<noteq> None \<and> q_input_schema q \<noteq> None"

definition is_regular_queue :: "'h queue \<Rightarrow> bool" where
  "is_regular_queue q \<longleftrightarrow> q_input_schema q \<noteq> None \<and> q_cron q = None"

definition is_cron_queue :: "'h queue \<Rightarrow> bool" where
  "is_cron_queue q \<longleftrightarrow> q_cron q \<noteq> None \<and> q_input_schema q = None"

datatype queue_type = Regular | Cron | CronInit

definition get_queue_type :: "'h queue \<Rightarrow> queue_type" where
  "get_queue_type q =
     (if q_cron q \<noteq> None \<and> q_input_schema q \<noteq> None then CronInit
      else if is_cron_queue q then Cron
      else Regular)"

definition has_input_schema :: "'h queue \<Rightarrow> bool" where
  "has_input_schema q \<longleftrightarrow> q_input_schema q \<noteq> None"

fun format_cron_schedule :: "cron_schedule option \<Rightarrow> string option" where
  "format_cron_schedule None = None"
| "format_cron_schedule (Some (CronText s)) = Some s"
| "format_cron_schedule (Some (CronFunction _)) = Some ''[function]''"
| "format_cron_schedule (Some (CronList ss)) = Some (join_with '', '' ss)"

fun resolve_serial_queue_name :: "serial option \<Rightarrow> string \<Rightarrow> string option" where
  "resolve_serial_queue_name (Some (SerialFlag True)) name = Some name"
| "resolve_serial_queue_name (Some (SerialName s)) name = Some s"
| "resolve_serial_queue_name _ name = None"

text \<open>The \<open>runAt\<close> of \<open>ctx.continue()\<close>.\<close>

definition parse_continue_run_at ::
  "(string \<Rightarrow> int option) \<Rightarrow> date_arg option \<Rightarrow> int option res" where
  "parse_continue_run_at parse_date run_at =
     (case run_at of
        None \<Rightarrow> Inr None
      | Some a \<Rightarrow> (case to_date parse_date a of
                     None \<Rightarrow> Inl (PlainRangeError ''runAt must be a valid timestamp'')
                   | Some t \<Rightarrow> Inr (Some t)))"

section \<open>Names of a registry\<close>

text \<open>
  The loop of \<open>assertUniqueQueueNames\<close> with its two sets: the queue names and the task
  names taken so far.
\<close>

fun assert_unique_from :: "string list \<Rightarrow> string list \<Rightarrow> 'h queue list \<Rightarrow> unit res" where
  "assert_unique_from names tasks [] = Inr ()"
| "assert_unique_from names tasks (q # qs) =
     (let name = q_name q; init = name @ cron_init_suffix in
      if name = [] \<or> name = ''then'' then
        Inl (plain_error (''Queue names must be non-empty and cannot be '' @ quoted ''then'' @
               '' (reserved for promise assimilation)''))
      else if name \<in> set names then Inl (DuplicateQueueError name)
      else if name \<in> set tasks then Inl (QueueNameCollisionError name)
      else if q_cron q \<noteq> None \<and> q_input_schema q \<noteq> None then
        (if init \<in> set (name # names) \<or> init \<in> set (name # tasks)
         then Inl (QueueNameCollisionError init)
         else assert_unique_from (name # names) (init # name # tasks) qs)
      else assert_unique_from (name # names) (name # tasks) qs)"

definition assert_unique_queue_names :: "'h queue list \<Rightarrow> unit res" where
  "assert_unique_queue_names qs = assert_unique_from [] [] qs"

text \<open>The Graphile task identifiers a queue generates.\<close>

definition task_identifiers :: "'h queue \<Rightarrow> string list" where
  "task_identifiers q =
     (if get_queue_type q = CronInit then [q_name q, q_name q @ cron_init_suffix] else [q_name q])"

definition registry_tasks :: "'h queue list \<Rightarrow> string list" where
  "registry_tasks qs = concat (map task_identifiers qs)"

lemma task_identifiers_simp:
  "task_identifiers q = q_name q #
     (if q_cron q \<noteq> None \<and> q_input_schema q \<noteq> None then [q_name q @ cron_init_suffix] else [])"
  by (simp add: task_identifiers_def get_queue_type_def)

lemma registry_tasks_simps [simp]:
  "registry_tasks [] = []"
  "registry_tasks (q # qs) = task_identifiers q @ registry_tasks qs"
  by (simp_all add: registry_tasks_def)

lemma cron_init_suffix_neq [simp]: "name @ cron_init_suffix \<noteq> name"
  by (simp add: cron_init_suffix_def)

lemma assert_unique_from_iff:
  "set names \<subseteq> set tasks \<Longrightarrow>
   assert_unique_from names tasks qs = Inr () \<longleftrightarrow>
     (\<forall>q\<in>set qs. q_name q \<noteq> [] \<and> q_name q \<noteq> ''then'') \<and>
     distinct (registry_tasks qs) \<and> set tasks \<inter> set (registry_tasks qs) = {}"
proof (induction qs arbitrary: names tasks)
  case (Cons q qs)
  let ?name = "q_name q"
  let ?init = "?name @ cron_init_suffix"
  have sub: "set (?name # names) \<subseteq> set (?init # ?name # tasks)"
    "set (?name # names) \<subseteq> set (?name # tasks)" using Cons.prems by auto
  show ?case
    using Cons.prems Cons.IH [OF sub(1)] Cons.IH [OF sub(2)]
    by (auto simp: Let_def task_identifiers_simp)
qed simp

section \<open>Handlers\<close>

text \<open>
  What \<open>normalizeWorkerQueues\<close> finds configured for a queue: a function, an object with its
  two handler properties, or something else.
\<close>

datatype 'h configured = CFunction 'h | CObject "'h fn_field" "'h fn_field" | CInvalid

text \<open>The \<open>handlers\<close> argument: an object keyed by queue name, or not an object at all.\<close>

datatype 'h handlers_arg = HandlersObject "(string \<times> 'h configured) list" | HandlersInvalid

record 'h normalized =
  nq_queue :: "'h queue"
  nq_process :: 'h
  nq_init :: "'h option"

fun as_function :: "'h fn_field \<Rightarrow> 'h option" where
  "as_function (Fn f) = Some f"
| "as_function _ = None"

definition configured_for :: "'h handlers_arg option \<Rightarrow> 'h queue \<Rightarrow> 'h configured" where
  "configured_for handlers q =
     (case handlers of
        None \<Rightarrow> CObject (q_process q) (q_init q)
      | Some HandlersInvalid \<Rightarrow> CInvalid
      | Some (HandlersObject hs) \<Rightarrow>
          (case map_of hs (q_name q) of None \<Rightarrow> CInvalid | Some c \<Rightarrow> c))"

definition normalize_queue ::
  "'h handlers_arg option \<Rightarrow> 'h queue \<Rightarrow> 'h normalized res" where
  "normalize_queue handlers q =
     (let (process, init) =
        (case configured_for handlers q of
           CFunction f \<Rightarrow> (Fn f, Absent)
         | CObject p i \<Rightarrow> (p, i)
         | CInvalid \<Rightarrow> (Absent, Absent))
      in case as_function process of
           None \<Rightarrow> Inl (PlainTypeError (''Queue '' @ quoted (q_name q) @ '' requires a processFn''))
         | Some p \<Rightarrow>
             bind_res (case q_timeout q of
                 None \<Rightarrow> Inr 0
               | Some t \<Rightarrow> assert_integer t (''Queue '' @ quoted (q_name q) @ '' timeout'') 1 2147483647)
             (\<lambda>_.
               if q_cron q = None \<and> q_input_schema q = None then
                 Inl (PlainTypeError (''Queue '' @ quoted (q_name q) @
                   '' requires an inputSchema or cron schedule''))
               else if q_cron q \<noteq> None \<and> q_input_schema q \<noteq> None \<and> as_function init = None then
                 Inl (PlainTypeError (''Cron-init queue '' @ quoted (q_name q) @
                   '' requires an initFn''))
               else if (q_cron q = None \<or> q_input_schema q = None) \<and>
                       init \<noteq> Absent \<and> init \<noteq> IsUndefined then
                 Inl (PlainTypeError (''initFn requires a cron schedule and inputSchema for '' @
                   quoted (q_name q)))
               else Inr \<lparr>nq_queue = q, nq_process = p, nq_init = as_function init\<rparr>))"

definition normalize_worker_queues ::
  "'h queue list \<Rightarrow> 'h handlers_arg option \<Rightarrow> 'h normalized list res" where
  "normalize_worker_queues qs handlers =
     bind_res (assert_unique_queue_names qs) (\<lambda>_.
       if handlers = Some HandlersInvalid then
         Inl (PlainTypeError ''A handlers registry must be an object'')
       else if handlers \<noteq> None \<and> list_ex (\<lambda>q. q_process q \<noteq> Absent) qs then
         Inl (PlainTypeError
           ''Use inline processFn definitions or a handlers registry, not both'')
       else map_res (normalize_queue handlers) qs)"

lemma normalize_queue_Inr:
  assumes "normalize_queue handlers q = Inr n"
  shows "nq_queue n = q \<and> (nq_init n \<noteq> None \<longleftrightarrow> get_queue_type q = CronInit) \<and>
     (q_cron q \<noteq> None \<or> q_input_schema q \<noteq> None)"
  using assms
  by (auto simp: normalize_queue_def Let_def res_simps get_queue_type_def
      split: prod.splits option.splits if_splits configured.splits)

section \<open>The queues one worker runs\<close>

fun select_names :: "string list \<Rightarrow> string list \<Rightarrow> string list \<Rightarrow> string list res" where
  "select_names known selected [] = Inr selected"
| "select_names known selected (n # ns) =
     (if n \<notin> set known then
        Inl (PlainTypeError (''process lists unknown queue '' @ quoted n))
      else if n \<in> set selected then
        Inl (PlainTypeError (''process lists queue '' @ quoted n @ '' twice''))
      else select_names known (selected @ [n]) ns)"

definition select_processed ::
  "'h normalized list \<Rightarrow> string list option \<Rightarrow> 'h normalized list res" where
  "select_processed qs names =
     (case names of
        None \<Rightarrow> Inr qs
      | Some ns \<Rightarrow>
          if ns = [] then Inl (PlainTypeError ''process must list at least one queue'')
          else bind_res (select_names (map (q_name \<circ> nq_queue) qs) [] ns)
                 (\<lambda>sel. Inr [q \<leftarrow> qs. q_name (nq_queue q) \<in> set sel]))"

lemma select_names_Inr:
  "select_names known selected ns = Inr sel \<longleftrightarrow>
     sel = selected @ ns \<and> set ns \<subseteq> set known \<and> distinct ns \<and> set selected \<inter> set ns = {}"
  by (induction ns arbitrary: selected) auto

text \<open>
  A registry is accepted exactly when no queue is called the empty string or \<open>then\<close> and
  all the task identifiers it generates, the \<open>_cron-init\<close> ones included, are distinct:
  whatever order the queues come in, Graphile never sees one identifier for two tasks.
\<close>

theorem registry_accepted_iff:
  "assert_unique_queue_names qs = Inr () \<longleftrightarrow>
     list_all (\<lambda>q. q_name q \<noteq> [] \<and> q_name q \<noteq> ''then'') qs \<and> distinct (registry_tasks qs)"
  using assert_unique_from_iff [of "[]" "[]" qs]
  by (auto simp: assert_unique_queue_names_def list_all_iff)

lemma normalize_worker_queues_Inr:
  assumes "normalize_worker_queues qs handlers = Inr ns"
  shows "map nq_queue ns = qs \<and> distinct (registry_tasks qs) \<and>
     list_all (\<lambda>n. nq_init n \<noteq> None \<longleftrightarrow> get_queue_type (nq_queue n) = CronInit) ns"
proof -
  from assms have u: "assert_unique_from [] [] qs = Inr ()"
    and m: "list_all2 (\<lambda>q n. normalize_queue handlers q = Inr n) qs ns"
    by (auto simp: normalize_worker_queues_def assert_unique_queue_names_def res_simps
        map_res_Inr_iff split: if_splits)
  from m have "map nq_queue ns = qs \<and>
     list_all (\<lambda>n. nq_init n \<noteq> None \<longleftrightarrow> get_queue_type (nq_queue n) = CronInit) ns"
    by (induction rule: list_all2_induct) (auto dest: normalize_queue_Inr)
  with u show ?thesis using assert_unique_from_iff [of "[]" "[]" qs] by simp
qed

text \<open>
  \<open>process\<close> keeps the registry's order: the selection is the sub-list of the queues it
  names, and it is rejected when it is empty, repeats a name or names an unknown queue.
\<close>

theorem select_processed_spec:
  "select_processed qs (Some ns) = Inr sel \<longleftrightarrow>
     ns \<noteq> [] \<and> distinct ns \<and> set ns \<subseteq> (q_name \<circ> nq_queue) ` set qs \<and>
     sel = [q \<leftarrow> qs. q_name (nq_queue q) \<in> set ns]"
  by (auto simp: select_processed_def res_simps select_names_Inr)

end
