(* ===== verification/Payload.thy ===== *)
theory Payload
  imports Queues
begin

text \<open>
  The wire format (\<^verbatim>\<open>src/src/payload.ts\<close>) and the W3C trace context it carries
  (\<^verbatim>\<open>src/src/otel.ts\<close>). A job's payload is a JSON tree: producers build an envelope,
  workers accept version-2 envelopes only and take the producer's input, its trace link, the
  cron metadata and the step checkpoints back out of it.
\<close>

section \<open>Trace parents\<close>

definition is_hex :: "char \<Rightarrow> bool" where
  "is_hex c \<longleftrightarrow> is_digit c \<or> (97 \<le> (of_char c :: nat) \<and> (of_char c :: nat) \<le> 102)"

definition hex_digit :: "nat \<Rightarrow> char" where
  "hex_digit d = (if d < 10 then char_of (48 + d) else char_of (87 + d))"

definition hex_val :: "char \<Rightarrow> nat" where
  "hex_val c = (if is_digit c then of_char c - 48 else of_char c - 87)"

definition read_hex :: "string \<Rightarrow> nat" where
  "read_hex s = foldl (\<lambda>n c. 16 * n + hex_val c) 0 s"

text \<open>A trace context: trace id, span id, flags.\<close>

type_synonym trace_context = "string \<times> string \<times> int"

fun show_hex_byte :: "nat \<Rightarrow> string" where
  "show_hex_byte n = (if n < 16 then [hex_digit n] else [hex_digit (n div 16), hex_digit (n mod 16)])"

definition format_traceparent :: "string \<Rightarrow> string \<Rightarrow> int \<Rightarrow> string" where
  "format_traceparent trace_id span_id flags =
     ''00-'' @ trace_id @ ''-'' @ span_id @ ''-'' @ pad_left 2 (show_hex_byte (nat (flags mod 256)))"

definition all_zero :: "string \<Rightarrow> bool" where
  "all_zero s \<longleftrightarrow> s \<noteq> [] \<and> list_all (\<lambda>c. c = CHR ''0'') s"

definition parse_traceparent :: "string \<Rightarrow> trace_context option" where
  "parse_traceparent tp =
     (let trace_id = take 32 (drop 3 tp);
          span_id = take 16 (drop 36 tp);
          flags = drop 53 tp
      in if \<not> (length tp = 55 \<and> take 3 tp = ''00-'' \<and> tp ! 35 = CHR ''-'' \<and> tp ! 52 = CHR ''-'' \<and>
               list_all is_hex trace_id \<and> list_all is_hex span_id \<and> list_all is_hex flags)
         then None
         else if all_zero trace_id \<or> all_zero span_id then None
         else Some (trace_id, span_id, int (read_hex flags)))"

definition valid_trace_ids :: "string \<Rightarrow> string \<Rightarrow> bool" where
  "valid_trace_ids trace_id span_id \<longleftrightarrow>
     length trace_id = 32 \<and> list_all is_hex trace_id \<and> \<not> all_zero trace_id \<and>
     length span_id = 16 \<and> list_all is_hex span_id \<and> \<not> all_zero span_id"

lemma hex_digit_simps [simp]:
  "d < 16 \<Longrightarrow> is_hex (hex_digit d)"
  "d < 16 \<Longrightarrow> hex_val (hex_digit d) = d"
  by (auto simp: is_hex_def hex_digit_def hex_val_def is_digit_def)

lemma hex_byte_padded:
  assumes "n < 256"
  shows "pad_left 2 (show_hex_byte n) = [hex_digit (n div 16), hex_digit (n mod 16)]"
proof -
  have "hex_digit 0 = CHR ''0''" by code_simp
  with assms show ?thesis by simp
qed

lemma drop_known: "length xs = n \<Longrightarrow> drop n (xs @ ys) = ys"
  by simp

text \<open>Reading a formatted trace parent back gives the ids and the low byte of the flags.\<close>

lemma parse_format_traceparent:
  assumes "valid_trace_ids t s"
  shows "parse_traceparent (format_traceparent t s f) = Some (t, s, f mod 256)"
proof -
  define n where "n = nat (f mod 256)"
  define tp where "tp = format_traceparent t s f"
  have n: "n < 256" and fn: "f mod 256 = int n" by (simp_all add: n_def nat_less_iff)
  let ?fl = "[hex_digit (n div 16), hex_digit (n mod 16)]"
  have t: "length t = 32" "list_all is_hex t" "\<not> all_zero t"
    and s: "length s = 16" "list_all is_hex s" "\<not> all_zero s"
    using assms by (simp_all add: valid_trace_ids_def)
  have tp: "tp = ''00-'' @ t @ ''-'' @ s @ ''-'' @ ?fl"
    using hex_byte_padded [OF n] by (simp only: tp_def format_traceparent_def n_def [symmetric])
  have len: "length tp = 55" using t s by (simp add: tp)
  have d3: "drop 3 tp = t @ ''-'' @ s @ ''-'' @ ?fl" by (simp add: tp)
  have d36: "drop 36 tp = s @ ''-'' @ ?fl"
    using t by (simp add: tp)
  have d53: "drop 53 tp = ?fl" using t s by (simp add: tp)
  have h: "tp ! 35 = CHR ''-''" "tp ! 52 = CHR ''-''"
    using t s by (simp_all add: tp nth_append)
  have fl: "list_all is_hex ?fl" "int (read_hex ?fl) = f mod 256"
    using n by (simp_all add: read_hex_def fn)
  show ?thesis
    unfolding tp_def [symmetric] parse_traceparent_def Let_def d3 d36 d53
    using t s fl h len by (simp add: tp)
qed

section \<open>Envelopes\<close>

text \<open>
  \<open>active\<close> is what \<open>getActiveTraceparent\<close> gives: possibly nothing, and it may throw, which
  never prevents an enqueue. \<open>None\<close> as data is the undefined root value.
\<close>

definition inject_trace_context :: "json option \<Rightarrow> string option res \<Rightarrow> json" where
  "inject_trace_context data active =
     (let envelope = JObj ([(''__bgw'', JNum 2)] @
            (case data of None \<Rightarrow> [(''payload'', JNull), (''payloadUndefined'', JBool True)]
                        | Some j \<Rightarrow> [(''payload'', j)]))
      in case active of
           Inr (Some tp) \<Rightarrow> if parse_traceparent tp \<noteq> None
                           then json_set ''traceparent'' (JStr tp) envelope else envelope
         | _ \<Rightarrow> envelope)"

definition is_payload_envelope :: "json \<Rightarrow> bool" where
  "is_payload_envelope v \<longleftrightarrow>
     is_json_object v \<and> json_get ''__bgw'' v = Some (JNum 2) \<and> json_get ''payload'' v \<noteq> None \<and>
     (json_get ''payloadUndefined'' v = None \<or>
      json_get ''payloadUndefined'' v = Some (JBool False) \<or>
      (json_get ''payloadUndefined'' v = Some (JBool True) \<and> json_get ''payload'' v = Some JNull))"

definition assert_payload_envelope :: "json \<Rightarrow> unit res" where
  "assert_payload_envelope v =
     guard_res (is_payload_envelope v) (NonRetriableError
       (''Unsupported job payload: expected a version-2 envelope. Drain old jobs before '' @
        ''upgrading and enqueue through the worker/client APIs.''))"

definition clean_payload :: "json \<Rightarrow> json option" where
  "clean_payload v =
     (if json_get ''payloadUndefined'' v = Some (JBool True) then None else json_get ''payload'' v)"

definition extract_producer_link :: "json \<Rightarrow> (trace_context option \<times> json option) res" where
  "extract_producer_link v =
     bind_res (assert_payload_envelope v) (\<lambda>_.
       Inr (case json_get ''traceparent'' v of Some (JStr tp) \<Rightarrow> parse_traceparent tp | _ \<Rightarrow> None,
            clean_payload v))"

text \<open>The cron metadata Graphile adds: an instant, and whether the run was backfilled.\<close>

definition extract_cron_meta :: "(string \<Rightarrow> int option) \<Rightarrow> json \<Rightarrow> (int \<times> bool) option" where
  "extract_cron_meta parse_date v =
     (if \<not> is_payload_envelope v then None
      else case json_get ''_cron'' v of
        Some c \<Rightarrow>
          (if \<not> is_json_object c then None
           else case json_get ''ts'' c of
             Some (JStr ts) \<Rightarrow>
               map_option (\<lambda>t. (t, json_get ''backfilled'' c = Some (JBool True))) (parse_date ts)
           | _ \<Rightarrow> None)
      | None \<Rightarrow> None)"

text \<open>A checkpoint: the output of a step, or the mark of a step that returned undefined.\<close>

datatype step_entry = StepOutput json | StepVoid

definition entry_of_json :: "json \<Rightarrow> step_entry option" where
  "entry_of_json e =
     (if is_json_object e then
        (case json_get ''output'' e of
           None \<Rightarrow> None
         | Some out \<Rightarrow> Some (if json_get ''isVoid'' e = Some (JBool True) then StepVoid else StepOutput out))
      else None)"

fun json_of_entry :: "step_entry \<Rightarrow> json" where
  "json_of_entry StepVoid = JObj [(''output'', JNull), (''isVoid'', JBool True)]"
| "json_of_entry (StepOutput out) = JObj [(''output'', out)]"

lemma entry_of_json_of_entry [simp]: "entry_of_json (json_of_entry e) = Some e"
  by (cases e) (simp_all add: entry_of_json_def json_get_def is_json_object_def)

text \<open>The entries of an object of checkpoints that are well formed; the others are skipped.\<close>

definition step_entries :: "(string \<times> json) list \<Rightarrow> (string \<times> step_entry) list" where
  "step_entries kvs = List.map_filter (\<lambda>(k, e). map_option (Pair k) (entry_of_json e)) kvs"

definition extract_step_cache :: "json \<Rightarrow> (string \<times> step_entry) list res" where
  "extract_step_cache v =
     bind_res (assert_payload_envelope v) (\<lambda>_.
       Inr (case json_get ''steps'' v of Some (JObj kvs) \<Rightarrow> step_entries kvs | _ \<Rightarrow> []))"

lemma step_entries_simps [simp]:
  "step_entries [] = []"
  "step_entries ((k, e) # kvs) =
     (case entry_of_json e of None \<Rightarrow> step_entries kvs | Some s \<Rightarrow> (k, s) # step_entries kvs)"
  by (simp_all add: step_entries_def List.map_filter_def split: option.split)

lemma map_of_entries_update:
  "map_of (step_entries (AList.update sid (json_of_entry s) kvs)) =
     (map_of (step_entries kvs))(sid \<mapsto> s)"
  by (induction kvs) (auto split: option.splits)

lemma inject_envelope [simp]: "is_payload_envelope (inject_trace_context d a)"
  by (auto simp: inject_trace_context_def is_payload_envelope_def is_json_object_def json_get_def
      json_set_def Let_def split: option.splits sum.splits)

lemma inject_clean_payload [simp]: "clean_payload (inject_trace_context d a) = d"
  by (auto simp: inject_trace_context_def clean_payload_def json_get_def
      json_set_def Let_def split: option.splits sum.splits)

lemma inject_no_extras [simp]:
  "k \<notin> {''__bgw'', ''payload'', ''payloadUndefined'', ''traceparent''} \<Longrightarrow>
   json_get k (inject_trace_context d a) = None"
  by (auto simp: inject_trace_context_def json_get_def json_set_def Let_def
      split: option.splits sum.splits)

lemma inject_traceparent:
  "json_get ''traceparent'' (inject_trace_context d a) =
     (case a of Inr (Some tp) \<Rightarrow> if parse_traceparent tp \<noteq> None then Some (JStr tp) else None
              | _ \<Rightarrow> None)"
  by (auto simp: inject_trace_context_def json_get_def json_set_def Let_def
      split: option.splits sum.splits)

text \<open>
  C27 What a producer enqueues is what the worker reads: for every input, undefined included, and
  whatever the tracer does, the envelope is accepted and gives back exactly the input, with the
  trace link exactly when the tracer gave a well-formed trace parent.
\<close>

theorem envelope_roundtrip:
  "extract_producer_link (inject_trace_context data active) =
     Inr (case active of Inr (Some tp) \<Rightarrow> parse_traceparent tp | _ \<Rightarrow> None, data)"
  by (cases "case active of Inr (Some tp) \<Rightarrow> parse_traceparent tp | _ \<Rightarrow> None")
     (auto simp: extract_producer_link_def assert_payload_envelope_def inject_traceparent
      split: option.splits sum.splits)

text \<open>
  A trace context survives its header: a producer's valid ids are read back unchanged, with
  the flags cut to their low byte as the header's two digits require.
\<close>

theorem traceparent_roundtrip:
  assumes "valid_trace_ids trace_id span_id"
  shows "parse_traceparent (format_traceparent trace_id span_id flags) =
     Some (trace_id, span_id, flags mod 256)"
  using assms by (rule parse_format_traceparent)

theorem traceparent_roundtrip_witness:
  "parse_traceparent (format_traceparent (replicate 32 (CHR ''a'')) (replicate 16 (CHR ''1'')) 257) =
     Some (replicate 32 (CHR ''a''), replicate 16 (CHR ''1''), 1)"
proof -
  have "valid_trace_ids (replicate 32 (CHR ''a'')) (replicate 16 (CHR ''1''))"
    by code_simp
  from traceparent_roundtrip [OF this, of 257] show ?thesis by simp
qed

end
