(* ===== verification/Database.thy ===== *)
theory Database
  imports Payload
begin

text \<open>
  The PostgreSQL state the library reads and writes: Graphile's private jobs and lanes, and
  the library's own tables (\<^verbatim>\<open>waitTablesSql\<close>, \<^verbatim>\<open>outcomeTablesSql\<close>,
  \<^verbatim>\<open>idempotencyTablesSql\<close>, \<^verbatim>\<open>heartbeatTableSql\<close>). A table is a list of rows;
  timestamps are microseconds since the epoch, as PostgreSQL keeps them. A statement or
  transaction takes the state and gives a result or an error with the next state; a failed
  transaction rolls back. Row locks serialize the transactions that touch the same rows, so
  an interleaving of transactions is a sequence of these functions.
\<close>

section \<open>Rows\<close>

record job_row =
  jr_id :: nat
  jr_task :: string
  jr_lane :: "string option"
  jr_payload :: json
  jr_priority :: int
  jr_run_at :: int
  jr_attempts :: int
  jr_max_attempts :: int
  jr_last_error :: "string option"
  jr_created_at :: int
  jr_updated_at :: int
  jr_key :: "string option"
  jr_flags :: "string list option"
  jr_locked_at :: "int option"
  jr_locked_by :: "string option"

record lane_row =
  ln_name :: string
  ln_locked_at :: "int option"
  ln_locked_by :: "string option"

datatype outcome_state = CompletedState | FailedState | ContinuedState

record outcome_row =
  oc_job_id :: nat
  oc_task :: string
  oc_state :: outcome_state
  oc_continued_to :: "nat option"
  oc_attempts :: int
  oc_max_attempts :: int
  oc_last_error :: "string option"
  oc_created_at :: int
  oc_finished_at :: int

record group_row =
  gr_parent :: nat
  gr_wait :: string
  gr_remaining :: int
  gr_deadline :: "int option"
  gr_created_at :: int

text \<open>A child's final state, as its worker reports it.\<close>

datatype child_report = ReportOk "json option" | ReportFailed string string

record wait_row =
  wr_parent :: nat
  wr_wait :: string
  wr_idx :: nat
  wr_child :: nat
  wr_result :: "child_report option"
  wr_finished_at :: "int option"

record idem_row =
  ik_queue :: string
  ik_key :: string
  ik_job :: "nat option"
  ik_expires_at :: int

record heartbeat_row =
  hb_worker :: string
  hb_last_seen :: int

record db =
  db_now :: int
  db_jobs :: "job_row list"
  db_lanes :: "lane_row list"
  db_outcomes :: "outcome_row list"
  db_groups :: "group_row list"
  db_waits :: "wait_row list"
  db_idem :: "idem_row list"
  db_heartbeats :: "heartbeat_row list"

definition empty_db :: "int \<Rightarrow> db" where
  "empty_db t = \<lparr>db_now = t, db_jobs = [], db_lanes = [], db_outcomes = [], db_groups = [],
     db_waits = [], db_idem = [], db_heartbeats = []\<rparr>"

abbreviation group_key :: "group_row \<Rightarrow> nat \<times> string" where
  "group_key g \<equiv> (gr_parent g, gr_wait g)"

abbreviation wait_key :: "wait_row \<Rightarrow> nat \<times> string" where
  "wait_key w \<equiv> (wr_parent w, wr_wait w)"

section \<open>Statements and transactions\<close>

type_synonym 'a tx = "db \<Rightarrow> 'a res \<times> db"

definition tx_return :: "'a \<Rightarrow> 'a tx" where
  "tx_return x = (\<lambda>d. (Inr x, d))"

definition tx_throw :: "js_error \<Rightarrow> 'a tx" where
  "tx_throw e = (\<lambda>d. (Inl e, d))"

definition tx_bind :: "'a tx \<Rightarrow> ('a \<Rightarrow> 'b tx) \<Rightarrow> 'b tx" where
  "tx_bind m f = (\<lambda>d. case m d of (Inl e, d') \<Rightarrow> (Inl e, d') | (Inr x, d') \<Rightarrow> f x d')"

definition tx_lift :: "'a res \<Rightarrow> 'a tx" where
  "tx_lift r = (\<lambda>d. (r, d))"

text \<open>A statement that cannot fail, and \<open>BEGIN \<dots> COMMIT\<close> with \<open>ROLLBACK\<close> on an error.\<close>

definition tx_modify :: "(db \<Rightarrow> db) \<Rightarrow> unit tx" where
  "tx_modify f = (\<lambda>d. (Inr (), f d))"

definition transaction :: "'a tx \<Rightarrow> 'a tx" where
  "transaction m = (\<lambda>d. case m d of (Inl e, _) \<Rightarrow> (Inl e, d) | (Inr x, d') \<Rightarrow> (Inr x, d'))"

named_theorems tx_simps "unfolding of statements and transactions"

lemma tx_apply [tx_simps]:
  "tx_return x d = (Inr x, d)"
  "tx_throw e d = (Inl e, d)"
  "tx_lift r d = (r, d)"
  "tx_modify f d = (Inr (), f d)"
  by (simp_all add: tx_return_def tx_throw_def tx_lift_def tx_modify_def)

lemma tx_bind_apply [tx_simps]:
  "tx_bind m f d = (case m d of (Inl e, d') \<Rightarrow> (Inl e, d') | (Inr x, d') \<Rightarrow> f x d')"
  by (simp add: tx_bind_def)

lemma tx_bind_Inr:
  "tx_bind m f d = (Inr y, d'') \<longleftrightarrow> (\<exists>x d'. m d = (Inr x, d') \<and> f x d' = (Inr y, d''))"
  by (auto simp: tx_bind_def split: prod.splits sum.splits)

lemma transaction_Inl: "transaction m d = (Inl e, d') \<Longrightarrow> d' = d"
  by (auto simp: transaction_def split: prod.splits sum.splits)

lemma transaction_Inr: "transaction m d = (Inr x, d') \<longleftrightarrow> m d = (Inr x, d')"
  by (auto simp: transaction_def split: prod.splits sum.splits)

lemma transaction_fails: "fst (m d) = Inl e \<Longrightarrow> transaction m d = (Inl e, d)"
  by (cases "m d") (auto simp: transaction_def)

section \<open>The tables in order\<close>

text \<open>
  The constraints of the tables: primary keys, the foreign key from waits to their group,
  and, beyond what PostgreSQL checks, that a group's \<open>remaining\<close> counts exactly its
  children without a result.
\<close>

definition pending_waits :: "db \<Rightarrow> nat \<times> string \<Rightarrow> wait_row list" where
  "pending_waits d k = [w \<leftarrow> db_waits d. wait_key w = k \<and> wr_result w = None]"

definition wait_inv :: "db \<Rightarrow> bool" where
  "wait_inv d \<longleftrightarrow>
     distinct (map group_key (db_groups d)) \<and>
     distinct (map (\<lambda>w. (wait_key w, wr_idx w)) (db_waits d)) \<and>
     wait_key ` set (db_waits d) \<subseteq> group_key ` set (db_groups d) \<and>
     (\<forall>g\<in>set (db_groups d). gr_remaining g = int (length (pending_waits d (group_key g))))"

definition jobs_inv :: "db \<Rightarrow> bool" where
  "jobs_inv d \<longleftrightarrow> distinct (map jr_id (db_jobs d))"

lemma wait_inv_empty [simp]: "wait_inv (empty_db t)" "jobs_inv (empty_db t)"
  by (simp_all add: wait_inv_def jobs_inv_def empty_db_def)

text \<open>The invariant only reads the two wait tables.\<close>

lemma wait_inv_cong:
  "db_groups d' = db_groups d \<Longrightarrow> db_waits d' = db_waits d \<Longrightarrow> wait_inv d' = wait_inv d"
  by (simp add: wait_inv_def pending_waits_def)

section \<open>The job an attempt holds\<close>

text \<open>
  What the running attempt knows of its job (\<open>helpers.job\<close>): the lock owner is Graphile's
  worker pool id and the lock time a JavaScript date, which keeps milliseconds only.
\<close>

record job_helpers =
  h_id :: nat
  h_task :: string
  h_attempts :: int
  h_max_attempts :: int
  h_locked_by :: "string option"
  h_locked_at :: "int option"
  h_created_at :: int

definition helpers_of :: "job_row \<Rightarrow> job_helpers" where
  "helpers_of r = \<lparr>h_id = jr_id r, h_task = jr_task r, h_attempts = jr_attempts r,
     h_max_attempts = jr_max_attempts r, h_locked_by = jr_locked_by r,
     h_locked_at = map_option (\<lambda>t. t div 1000) (jr_locked_at r), h_created_at = jr_created_at r div 1000\<rparr>"

definition job_id_text :: "job_helpers \<Rightarrow> string" where
  "job_id_text h = show_nat (h_id h)"

text \<open>
  \<open>owned()\<close>: the id, the owner and the lock time to the millisecond. A null on either side
  compares to neither true, so it never owns.
\<close>

definition owns :: "job_helpers \<Rightarrow> job_row \<Rightarrow> bool" where
  "owns h r \<longleftrightarrow> jr_id r = h_id h \<and>
     (case (jr_locked_by r, h_locked_by h) of (Some a, Some b) \<Rightarrow> a = b | _ \<Rightarrow> False) \<and>
     (case (jr_locked_at r, h_locked_at h) of (Some t, Some m) \<Rightarrow> t div 1000 = m | _ \<Rightarrow> False)"

definition owned_row :: "job_helpers \<Rightarrow> db \<Rightarrow> job_row option" where
  "owned_row h d = find_row (owns h) (db_jobs d)"

lemma owned_row_Some:
  "owned_row h d = Some r \<Longrightarrow> r \<in> set (db_jobs d) \<and> owns h r \<and> jr_id r = h_id h"
  by (auto simp: owned_row_def owns_def dest: find_row_Some)

lemma owned_row_unique:
  "jobs_inv d \<Longrightarrow> owned_row h d = Some r \<Longrightarrow> s \<in> set (db_jobs d) \<Longrightarrow> jr_id s = h_id h \<Longrightarrow> s = r"
  by (metis jobs_inv_def owned_row_Some distinct_map inj_on_def)

lemma owns_helpers_of [simp]:
  "jr_locked_by r = Some w \<Longrightarrow> jr_locked_at r = Some t \<Longrightarrow> owns (helpers_of r) r"
  by (simp add: owns_def helpers_of_def)

text \<open>
  \<open>exp(least(attempts, 10))\<close> seconds in microseconds, PostgreSQL's \<open>interval\<close> product
  rounded to the microsecond. Attempts of a job are never negative.
\<close>

definition graphile_backoff :: "int \<Rightarrow> int" where
  "graphile_backoff attempts =
     [1000000, 2718282, 7389056, 20085537, 54598150, 148413159, 403428793,
      1096633158, 2980957987, 8103083928, 22026465795] ! nat (min attempts 10)"

lemma graphile_backoff_pos: "0 < graphile_backoff a"
proof -
  have "nat (min a 10) < 11" by simp
  then have "graphile_backoff a \<in> set [1000000, 2718282, 7389056, 20085537, 54598150, 148413159,
      403428793, 1096633158, 2980957987, 8103083928, 22026465795]"
    unfolding graphile_backoff_def by (intro nth_mem) simp
  then show ?thesis by auto
qed

end
