(* ===== verification/PrivateJobs.thy ===== *)
theory PrivateJobs
  imports Database
begin

text \<open>
  \<^verbatim>\<open>src/src/private-jobs.ts\<close>: every statement and transaction on Graphile's
  private tables. Graphile's own \<open>add_job\<close>, and the prepared statement that enqueues the
  children of a wait, are parameters; what is used of them is stated where it is used.
\<close>

section \<open>Retry scheduling\<close>

text \<open>\<open>scheduleRetry\<close>: \<open>run_at\<close> is an instant in milliseconds; the expected retry time is returned.\<close>

definition schedule_retry :: "job_helpers \<Rightarrow> int \<Rightarrow> int tx" where
  "schedule_retry h run_at = (\<lambda>d.
     case owned_row h d of
       None \<Rightarrow> (Inl (StepPersistenceError (job_id_text h)), d)
     | Some r \<Rightarrow>
         let b = graphile_backoff (jr_attempts r);
             target = run_at * 1000 - b
         in (Inr (max (db_now d) target + b),
             d\<lparr>db_jobs := update_where (owns h) (\<lambda>s. s\<lparr>jr_run_at := run_at * 1000 - graphile_backoff (jr_attempts s)\<rparr>) (db_jobs d)\<rparr>))"

section \<open>Reporting to waiting parents\<close>

text \<open>
  \<open>wakeParents\<close>: \<open>reported\<close> holds the wait keys of the rows just reported. Counting below
  zero violates the table's check and fails the statement.
\<close>

definition counted_groups :: "(nat \<times> string) list \<Rightarrow> db \<Rightarrow> group_row list" where
  "counted_groups reported d =
     [g\<lparr>gr_remaining := gr_remaining g - int (count_list reported (group_key g))\<rparr>.
        g \<leftarrow> db_groups d, group_key g \<in> set reported]"

definition wake_parents :: "(nat \<times> string) list \<Rightarrow> unit tx" where
  "wake_parents reported = (\<lambda>d.
     if list_ex (\<lambda>g. gr_remaining g < 0) (counted_groups reported d)
     then (Inl (NamedError ''error'' ''violates check constraint''), d)
     else (Inr (), d\<lparr>
       db_groups := update_where (\<lambda>g. group_key g \<in> set reported)
         (\<lambda>g. g\<lparr>gr_remaining := gr_remaining g - int (count_list reported (group_key g))\<rparr>)
         (db_groups d),
       db_jobs := update_where
         (\<lambda>j. list_ex (\<lambda>g. gr_parent g = jr_id j \<and> gr_remaining g = 0) (counted_groups reported d))
         (\<lambda>j. j\<lparr>jr_run_at := min (jr_run_at j) (db_now d)\<rparr>) (db_jobs d)\<rparr>))"

text \<open>The rows a statement reports: those that satisfy its condition and have no result yet.\<close>

definition report_waits :: "(wait_row \<Rightarrow> child_report option) \<Rightarrow> (nat \<times> string) list tx" where
  "report_waits result_for = (\<lambda>d.
     let hit = (\<lambda>w. wr_result w = None \<and> result_for w \<noteq> None) in
     (Inr (map wait_key (filter hit (db_waits d))),
      d\<lparr>db_waits := update_where hit
          (\<lambda>w. w\<lparr>wr_result := result_for w, wr_finished_at := Some (db_now d)\<rparr>) (db_waits d)\<rparr>))"

section \<open>Settling a job\<close>

datatype settle_outcome = OutcomeCompleted | OutcomeFailed string | OutcomeContinued nat

datatype settle_row = RowDelete | RowExhaust | RowKeep

record settle =
  st_outcome :: "settle_outcome option"
  st_report :: "child_report option"
  st_row :: settle_row

fun outcome_state_of :: "settle_outcome \<Rightarrow> outcome_state" where
  "outcome_state_of OutcomeCompleted = CompletedState"
| "outcome_state_of (OutcomeFailed _) = FailedState"
| "outcome_state_of (OutcomeContinued _) = ContinuedState"

fun outcome_continued_to :: "settle_outcome \<Rightarrow> nat option" where
  "outcome_continued_to (OutcomeContinued i) = Some i"
| "outcome_continued_to _ = None"

fun outcome_error :: "settle_outcome \<Rightarrow> string option" where
  "outcome_error (OutcomeFailed e) = Some e"
| "outcome_error _ = None"

definition new_outcome :: "settle_outcome \<Rightarrow> job_row \<Rightarrow> int \<Rightarrow> outcome_row" where
  "new_outcome oc r now = \<lparr>oc_job_id = jr_id r, oc_task = jr_task r,
     oc_state = outcome_state_of oc, oc_continued_to = outcome_continued_to oc,
     oc_attempts = jr_attempts r, oc_max_attempts = jr_max_attempts r,
     oc_last_error = outcome_error oc, oc_created_at = jr_created_at r, oc_finished_at = now\<rparr>"

text \<open>\<open>INSERT \<dots> ON CONFLICT (job_id) DO UPDATE\<close>: the task and creation time of an old row stay.\<close>

definition upsert_outcome :: "outcome_row \<Rightarrow> outcome_row list \<Rightarrow> outcome_row list" where
  "upsert_outcome o' os =
     (if list_ex (\<lambda>x. oc_job_id x = oc_job_id o') os
      then update_where (\<lambda>x. oc_job_id x = oc_job_id o')
             (\<lambda>x. o'\<lparr>oc_task := oc_task x, oc_created_at := oc_created_at x\<rparr>) os
      else os @ [o'])"

definition record_outcome :: "settle_outcome option \<Rightarrow> job_row \<Rightarrow> db \<Rightarrow> db" where
  "record_outcome oc r d =
     (case oc of
        None \<Rightarrow> d
      | Some x \<Rightarrow> d\<lparr>db_outcomes := upsert_outcome (new_outcome x r (db_now d)) (db_outcomes d)\<rparr>)"

definition report_child :: "child_report option \<Rightarrow> nat \<Rightarrow> unit tx" where
  "report_child report child =
     (case report of
        None \<Rightarrow> tx_return ()
      | Some rep \<Rightarrow>
          tx_bind (report_waits (\<lambda>w. if wr_child w = child then Some rep else None)) wake_parents)"

definition settle_own_row :: "settle_row \<Rightarrow> job_helpers \<Rightarrow> job_row \<Rightarrow> db \<Rightarrow> db" where
  "settle_own_row row h r d =
     (case row of
        RowKeep \<Rightarrow> d
      | RowExhaust \<Rightarrow> d\<lparr>db_jobs := update_where (\<lambda>s. jr_id s = jr_id r)
                          (\<lambda>s. s\<lparr>jr_max_attempts := jr_attempts s\<rparr>) (db_jobs d)\<rparr>
      | RowDelete \<Rightarrow> d\<lparr>db_jobs := delete_where (\<lambda>s. jr_id s = jr_id r) (db_jobs d),
                         db_lanes := update_where
                           (\<lambda>l. jr_lane r = Some (ln_name l) \<and> ln_locked_by l \<noteq> None \<and>
                                ln_locked_by l = h_locked_by h)
                           (\<lambda>l. l\<lparr>ln_locked_by := None, ln_locked_at := None\<rparr>) (db_lanes d)\<rparr>)"

text \<open>One statement: nothing happens without the lock, and a failing check undoes it all.\<close>

definition settle_job :: "job_helpers \<Rightarrow> settle \<Rightarrow> bool tx" where
  "settle_job h s = transaction (\<lambda>d.
     case owned_row h d of
       None \<Rightarrow> (Inr False, d)
     | Some r \<Rightarrow>
         (case report_child (st_report s) (jr_id r) (record_outcome (st_outcome s) r d) of
            (Inl e, d') \<Rightarrow> (Inl e, d')
          | (Inr _, d') \<Rightarrow> (Inr True, settle_own_row (st_row s) h r d')))"

section \<open>Patching the envelope\<close>

definition patchable :: "json \<Rightarrow> bool" where
  "patchable p \<longleftrightarrow> is_json_object p \<and>
     (json_get ''__bgw'' p = Some (JNum 2) \<or> json_get ''__bgw'' p = Some (JStr ''2'')) \<and>
     json_get ''payload'' p \<noteq> None"

definition patch_envelope :: "job_helpers \<Rightarrow> (json \<Rightarrow> json) \<Rightarrow> unit tx" where
  "patch_envelope h patched = (\<lambda>d.
     case owned_row h d of
       Some r \<Rightarrow>
         if patchable (jr_payload r)
         then (Inr (), d\<lparr>db_jobs := update_where (\<lambda>s. jr_id s = jr_id r)
                 (\<lambda>s. s\<lparr>jr_payload := patched (jr_payload r), jr_updated_at := db_now d\<rparr>) (db_jobs d)\<rparr>)
         else (Inl (StepPersistenceError (job_id_text h)), d)
     | None \<Rightarrow> (Inl (StepPersistenceError (job_id_text h)), d))"

definition patch_step :: "string \<Rightarrow> step_entry \<Rightarrow> json \<Rightarrow> json" where
  "patch_step sid e data =
     json_set ''steps''
       (json_set sid (json_of_entry e)
          (case json_get ''steps'' data of Some (JObj kvs) \<Rightarrow> JObj kvs | _ \<Rightarrow> JObj [])) data"

definition write_checkpoint :: "job_helpers \<Rightarrow> string \<Rightarrow> step_entry \<Rightarrow> unit tx" where
  "write_checkpoint h sid e = patch_envelope h (patch_step sid e)"

definition write_progress :: "job_helpers \<Rightarrow> json \<Rightarrow> unit tx" where
  "write_progress h v = patch_envelope h (json_set ''progress'' v)"

text \<open>\<open>readProgress\<close>: nothing without the job; its progress may be absent.\<close>

definition read_progress :: "db \<Rightarrow> string \<Rightarrow> nat \<Rightarrow> json option option" where
  "read_progress d identifier i =
     map_option (\<lambda>r. json_get ''progress'' (jr_payload r))
       (find_row (\<lambda>r. jr_id r = i \<and> jr_task r = identifier) (db_jobs d))"

section \<open>Continuations\<close>

text \<open>The arguments of one \<open>add_job\<close> call, as \<open>addJobSql\<close> passes them.\<close>

record add_args =
  aa_task :: string
  aa_payload :: json
  aa_queue_name :: "string option"
  aa_run_at :: "date_arg option"
  aa_max_attempts :: "int option"
  aa_job_key :: "string option"
  aa_priority :: "int option"
  aa_flags :: "string list option"
  aa_mode :: job_key_mode

text \<open>Graphile's \<open>add_job\<close>: the id of the row it returns, if it returns one.\<close>

type_synonym add_job_fn = "add_args \<Rightarrow> nat option tx"

definition continuation_payload :: "json \<Rightarrow> string option \<Rightarrow> json option \<Rightarrow> json" where
  "continuation_payload payload traceparent progress =
     (let envelope = json_without [''_cron'', ''traceparent''] payload;
          envelope' = (case progress of None \<Rightarrow> envelope | Some p \<Rightarrow> json_set ''progress'' p envelope)
      in case traceparent of
           Some tp \<Rightarrow> if tp \<noteq> [] then json_set ''traceparent'' (JStr tp) envelope' else envelope'
         | None \<Rightarrow> envelope')"

definition continuation_args ::
  "job_row \<Rightarrow> int option \<Rightarrow> string option \<Rightarrow> json option \<Rightarrow> add_args" where
  "continuation_args r run_at traceparent progress =
     \<lparr>aa_task = jr_task r,
      aa_payload = continuation_payload (jr_payload r) traceparent progress,
      aa_queue_name = jr_lane r,
      aa_run_at = map_option (\<lambda>t. DateValue (Some t)) run_at,
      aa_max_attempts = Some (jr_max_attempts r),
      aa_job_key = jr_key r,
      aa_priority = Some (jr_priority r),
      aa_flags = jr_flags r,
      aa_mode = Replace\<rparr>"

definition exhaust_owned :: "job_helpers \<Rightarrow> db \<Rightarrow> db" where
  "exhaust_owned h d = d\<lparr>db_jobs := update_where (owns h)
     (\<lambda>s. s\<lparr>jr_max_attempts := jr_attempts s\<rparr>) (db_jobs d)\<rparr>"

definition move_waits :: "nat \<Rightarrow> nat \<Rightarrow> db \<Rightarrow> db" where
  "move_waits old new d = d\<lparr>db_waits := update_where
     (\<lambda>w. wr_child w = old \<and> wr_result w = None) (\<lambda>w. w\<lparr>wr_child := new\<rparr>) (db_waits d)\<rparr>"

definition continue_job ::
  "add_job_fn \<Rightarrow> job_helpers \<Rightarrow> int option \<Rightarrow> string option \<Rightarrow> bool \<Rightarrow> json option \<Rightarrow> nat tx" where
  "continue_job add_job h run_at traceparent recording progress = transaction (\<lambda>d.
     case owned_row h d of
       None \<Rightarrow> (Inl (StepPersistenceError (job_id_text h)), d)
     | Some r \<Rightarrow>
         tx_bind (add_job (continuation_args r run_at traceparent progress)) (\<lambda>added.
           case added of
             None \<Rightarrow> tx_throw (plain_error ''Graphile add_job returned no continuation'')
           | Some i \<Rightarrow>
               tx_bind (tx_modify (exhaust_owned h)) (\<lambda>_.
               tx_bind (if json_get ''waited'' (jr_payload r) = Some (JBool True)
                        then tx_modify (move_waits (h_id h) i) else tx_return ()) (\<lambda>_.
               tx_bind (if recording
                        then settle_job h \<lparr>st_outcome = Some (OutcomeContinued i),
                                           st_report = None, st_row = RowDelete\<rparr>
                        else tx_return True) (\<lambda>ok.
               if ok then tx_return i
               else tx_throw (StepPersistenceError (job_id_text h)))))) d)"

section \<open>Crash recovery\<close>

definition release_error :: "string \<Rightarrow> string" where
  "release_error w = ''Worker '' @ w @
     '' stopped sending heartbeats (crashed or blocked); released by crash recovery''"

definition locked_by_any :: "string list \<Rightarrow> string option \<Rightarrow> bool" where
  "locked_by_any workers who = (case who of None \<Rightarrow> False | Some w \<Rightarrow> w \<in> set workers)"

definition release_jobs_locked_by :: "string list \<Rightarrow> db \<Rightarrow> nat list \<times> db" where
  "release_jobs_locked_by workers d =
     (map jr_id (filter (\<lambda>r. locked_by_any workers (jr_locked_by r)) (db_jobs d)),
      d\<lparr>db_jobs := update_where (\<lambda>r. locked_by_any workers (jr_locked_by r))
           (\<lambda>r. r\<lparr>jr_last_error := map_option release_error (jr_locked_by r),
                  jr_run_at := max (db_now d) (jr_run_at r) + graphile_backoff (jr_attempts r),
                  jr_locked_by := None, jr_locked_at := None\<rparr>) (db_jobs d),
        db_lanes := update_where (\<lambda>l. locked_by_any workers (ln_locked_by l))
           (\<lambda>l. l\<lparr>ln_locked_by := None, ln_locked_at := None\<rparr>) (db_lanes d)\<rparr>)"

section \<open>Writes behind the attempt's lock\<close>

text \<open>
  What every write of an attempt promises: without the attempt's lock it is refused and
  changes nothing. The rest of the development uses the operations through this contract.
\<close>

locale fenced_write =
  fixes op :: "job_helpers \<Rightarrow> 'a tx" and refusal :: "job_helpers \<Rightarrow> 'a res"
  assumes fenced: "owned_row h d = None \<Longrightarrow> op h d = (refusal h, d)"
begin

lemma refused_unlocked:
  assumes "list_all (\<lambda>r. jr_id r = h_id h \<longrightarrow> jr_locked_by r = None) (db_jobs d)"
  shows "op h d = (refusal h, d)"
  using assms by (intro fenced) (auto simp: owned_row_def find_row_None owns_def list_all_iff
      split: option.splits)

lemma refused_other_lock:
  assumes "list_all (\<lambda>r. jr_id r = h_id h \<longrightarrow>
      jr_locked_by r \<noteq> h_locked_by h \<or> map_option (\<lambda>t. t div 1000) (jr_locked_at r) \<noteq> h_locked_at h)
    (db_jobs d)"
  shows "op h d = (refusal h, d)"
  using assms by (intro fenced) (auto simp: owned_row_def find_row_None owns_def list_all_iff
      split: option.splits)

lemma refused_null_lock: "h_locked_by h = None \<Longrightarrow> op h d = (refusal h, d)"
  by (intro fenced) (auto simp: owned_row_def find_row_None owns_def split: option.splits)

end

text \<open>A fenced write that is one transaction: an error of any kind also changes nothing.\<close>

locale fenced_transaction = fenced_write op refusal
  for op :: "job_helpers \<Rightarrow> 'a tx" and refusal :: "job_helpers \<Rightarrow> 'a res" +
  assumes atomic: "op h d = (Inl e, d') \<Longrightarrow> d' = d"
begin

lemma error_changes_nothing: "fst (op h d) = Inl e \<Longrightarrow> snd (op h d) = d"
  using atomic [of h d e "snd (op h d)"] by (cases "op h d") auto

lemma changed_succeeds:
  assumes "snd (op h d) \<noteq> d"
  shows "is_ok (fst (op h d)) \<and> owned_row h d \<noteq> None"
proof
  show "is_ok (fst (op h d))"
    using assms error_changes_nothing [of h d] by (cases "fst (op h d)") auto
  show "owned_row h d \<noteq> None"
    using assms fenced [of h d] by (metis snd_conv)
qed

end

abbreviation lock_lost :: "job_helpers \<Rightarrow> 'a res" where
  "lock_lost h \<equiv> Inl (StepPersistenceError (job_id_text h))"

lemma continue_job_owned:
  "owned_row h d = Some r \<Longrightarrow>
   continue_job aj h t tp rec pr d = transaction
     (tx_bind (aj (continuation_args r t tp pr)) (\<lambda>added.
        case added of
          None \<Rightarrow> tx_throw (plain_error ''Graphile add_job returned no continuation'')
        | Some i \<Rightarrow>
            tx_bind (tx_modify (exhaust_owned h)) (\<lambda>_.
            tx_bind (if json_get ''waited'' (jr_payload r) = Some (JBool True)
                     then tx_modify (move_waits (h_id h) i) else tx_return ()) (\<lambda>_.
            tx_bind (if rec
                     then settle_job h \<lparr>st_outcome = Some (OutcomeContinued i),
                                        st_report = None, st_row = RowDelete\<rparr>
                     else tx_return True) (\<lambda>ok.
            if ok then tx_return i
            else tx_throw (StepPersistenceError (job_id_text h))))))) d"
  by (simp add: continue_job_def transaction_def)

interpretation retry: fenced_transaction "\<lambda>h. schedule_retry h t" lock_lost
  by unfold_locales (auto simp: schedule_retry_def Let_def split: option.splits)

interpretation patch: fenced_transaction "\<lambda>h. patch_envelope h f" lock_lost
  by unfold_locales (auto simp: patch_envelope_def split: option.splits if_splits)

interpretation checkpoint: fenced_transaction "\<lambda>h. write_checkpoint h sid e" lock_lost
  unfolding write_checkpoint_def by (rule patch.fenced_transaction_axioms)

interpretation progress: fenced_transaction "\<lambda>h. write_progress h v" lock_lost
  unfolding write_progress_def by (rule patch.fenced_transaction_axioms)

interpretation settled: fenced_transaction "\<lambda>h. settle_job h s" "\<lambda>h. Inr False"
  by unfold_locales (auto simp: settle_job_def transaction_def
      split: option.splits sum.splits prod.splits)

interpretation continued: fenced_transaction "\<lambda>h. continue_job aj h t tp rec pr" lock_lost
proof unfold_locales
  show "continue_job aj h t tp rec pr d = (lock_lost h, d)" if "owned_row h d = None" for h d
    using that by (simp add: continue_job_def transaction_def)
  show "d' = d" if "continue_job aj h t tp rec pr d = (Inl e, d')" for h d e d'
    using that unfolding continue_job_def by (rule transaction_Inl)
qed

section \<open>Crash recovery fences the old attempts\<close>

lemma released_unlocked:
  assumes "h_locked_by h = Some w" "w \<in> set ws"
  shows "owned_row h (snd (release_jobs_locked_by ws d)) = None"
  using assms by (auto simp: owned_row_def find_row_None release_jobs_locked_by_def
      set_update_where owns_def locked_by_any_def split: option.splits if_splits)


text \<open>A job locked by the worker \<open>w1\<close>, with an envelope without steps.\<close>

definition sample_job :: job_row where
  "sample_job = \<lparr>jr_id = 7, jr_task = ''mail'', jr_lane = Some ''lane'',
     jr_payload = JObj [(''__bgw'', JNum 2), (''payload'', JNull)],
     jr_priority = 0, jr_run_at = 0, jr_attempts = 1, jr_max_attempts = 3, jr_last_error = None,
     jr_created_at = 0, jr_updated_at = 0, jr_key = None, jr_flags = None,
     jr_locked_at = Some 5000, jr_locked_by = Some ''w1''\<rparr>"

definition sample_db :: db where
  "sample_db = (empty_db 9000)\<lparr>db_jobs := [sample_job],
     db_lanes := [\<lparr>ln_name = ''lane'', ln_locked_at = Some 5000, ln_locked_by = Some ''w1''\<rparr>]\<rparr>"


end
