(* ===== verification/JobWrites.thy ===== *)
theory JobWrites
  imports PrivateJobs
begin

text \<open>
  What the writes of \<^verbatim>\<open>src/src/private-jobs.ts\<close> achieve for the attempt that holds
  the lock: checkpoints and progress are read back, a scheduled retry lands on its time, a
  settled job is gone or exhausted with its outcome recorded, and a continuation carries its
  job.
\<close>

section \<open>One row changed\<close>

lemma owned_row_update:
  assumes "jobs_inv d" "owned_row h d = Some r" "owns h (f r)" "jr_id (f r) = jr_id r"
    and "db_jobs d' = update_where (\<lambda>s. jr_id s = jr_id r) f (db_jobs d)"
  shows "owned_row h d' = Some (f r)"
proof -
  have r: "r \<in> set (db_jobs d)" "owns h r" "jr_id r = h_id h"
    using owned_row_Some [OF assms(2)] by auto
  have only: "s = r" if "s \<in> set (db_jobs d)" "jr_id s = jr_id r" for s
    using that owned_row_unique [OF assms(1,2), of s] r by simp
  have "jr_id (f s) = jr_id s" if "s \<in> set (db_jobs d)" "jr_id s = jr_id r" for s
    using only [OF that] assms(4) by simp
  then have "map jr_id (db_jobs d') = map jr_id (db_jobs d)"
    by (auto simp: assms(5) update_where_def)
  with assms(1) have dist: "distinct (map jr_id (db_jobs d'))"
    by (simp add: jobs_inv_def)
  have mem: "f r \<in> set (db_jobs d')"
    using r by (force simp: assms(5) set_update_where)
  show ?thesis
    unfolding owned_row_def
  proof (rule find_row_key [where key = jr_id, OF dist mem])
    show "owns h (f r)" by (rule assms(3))
  next
    fix s assume "owns h s"
    then show "jr_id s = jr_id (f r)"
      using assms(3) by (simp add: owns_def)
  qed
qed

lemma owns_payload [simp]: "owns h (r\<lparr>jr_payload := p, jr_updated_at := t\<rparr>) = owns h r"
  by (simp add: owns_def)

lemma envelope_patchable: "is_payload_envelope p \<Longrightarrow> patchable p"
  by (simp add: is_payload_envelope_def patchable_def)

lemma is_payload_envelope_set [simp]:
  "k \<notin> {''__bgw'', ''payload'', ''payloadUndefined''} \<Longrightarrow>
   is_json_object p \<Longrightarrow> is_payload_envelope (json_set k v p) = is_payload_envelope p"
  by (auto simp: is_payload_envelope_def)

lemma clean_payload_set [simp]:
  "k \<notin> {''payload'', ''payloadUndefined''} \<Longrightarrow>
   is_json_object p \<Longrightarrow> clean_payload (json_set k v p) = clean_payload p"
  by (auto simp: clean_payload_def)

lemma patch_envelope_success:
  assumes "jobs_inv d" "owned_row h d = Some r" "is_payload_envelope (jr_payload r)"
  shows "\<exists>d'. patch_envelope h f d = (Inr (), d') \<and>
    owned_row h d' = Some (r\<lparr>jr_payload := f (jr_payload r), jr_updated_at := db_now d\<rparr>) \<and>
    filter (\<lambda>s. jr_id s \<noteq> jr_id r) (db_jobs d') = filter (\<lambda>s. jr_id s \<noteq> jr_id r) (db_jobs d) \<and>
    db_groups d' = db_groups d \<and> db_waits d' = db_waits d \<and> db_outcomes d' = db_outcomes d"
proof -
  let ?f = "\<lambda>s. s\<lparr>jr_payload := f (jr_payload r), jr_updated_at := db_now d\<rparr>"
  let ?d = "d\<lparr>db_jobs := update_where (\<lambda>s. jr_id s = jr_id r) ?f (db_jobs d)\<rparr>"
  have "owned_row h ?d = Some (?f r)"
    using owned_row_Some [OF assms(2)] by (intro owned_row_update [OF assms(1,2)]) auto
  moreover have "filter (\<lambda>s. jr_id s \<noteq> jr_id r) (update_where (\<lambda>s. jr_id s = jr_id r) ?f xs) =
      filter (\<lambda>s. jr_id s \<noteq> jr_id r) xs" for xs
    by (induction xs) (auto simp: update_where_def)
  moreover have "patch_envelope h f d = (Inr (), ?d)"
    using assms envelope_patchable by (simp add: patch_envelope_def)
  ultimately show ?thesis by auto
qed

lemma json_set_JObj: "json_set k v (JObj kvs) = JObj (AList.update k v kvs)"
  by (simp add: json_set_def)

lemma step_cache_after_patch:
  assumes "extract_step_cache p = Inr cache"
  shows "\<exists>cache'. extract_step_cache (patch_step sid e p) = Inr cache' \<and>
    map_of cache' = (map_of cache)(sid \<mapsto> e)"
proof -
  from assms have env: "is_payload_envelope p" and obj: "is_json_object p"
    by (auto simp: extract_step_cache_def assert_payload_envelope_def res_simps is_payload_envelope_def)
  have "is_payload_envelope (patch_step sid e p)"
    using env obj by (simp add: patch_step_def)
  moreover have "json_get ''steps'' (patch_step sid e p) =
      Some (json_set sid (json_of_entry e)
        (case json_get ''steps'' p of Some (JObj kvs) \<Rightarrow> JObj kvs | _ \<Rightarrow> JObj []))"
    using obj by (simp add: patch_step_def)
  ultimately show ?thesis
    using assms env
    by (auto simp: extract_step_cache_def assert_payload_envelope_def json_set_JObj
          map_of_entries_update split: option.split json.split)
qed

section \<open>Checkpoints and retries\<close>

text \<open>
  A checkpoint is durable and read back: for an attempt that holds its job, with an
  envelope it accepts, \<open>writeCheckpoint\<close> succeeds, the next read of the step cache finds
  exactly the old steps with this one added, and neither the input, the trace link, nor any
  other job, wait or outcome changes.
\<close>

theorem checkpoint_roundtrip:
  assumes "jobs_inv d" and "owned_row h d = Some r" and "extract_step_cache (jr_payload r) = Inr cache"
  shows "\<exists>d' r' cache'. write_checkpoint h sid e d = (Inr (), d') \<and>
    owned_row h d' = Some r' \<and>
    extract_step_cache (jr_payload r') = Inr cache' \<and> map_of cache' = (map_of cache)(sid \<mapsto> e) \<and>
    extract_producer_link (jr_payload r') = extract_producer_link (jr_payload r) \<and>
    filter (\<lambda>s. jr_id s \<noteq> jr_id r) (db_jobs d') = filter (\<lambda>s. jr_id s \<noteq> jr_id r) (db_jobs d) \<and>
    db_groups d' = db_groups d \<and> db_waits d' = db_waits d \<and> db_outcomes d' = db_outcomes d"
proof -
  from assms(3) have env: "is_payload_envelope (jr_payload r)" and obj: "is_json_object (jr_payload r)"
    by (auto simp: extract_step_cache_def assert_payload_envelope_def res_simps is_payload_envelope_def)
  obtain cache' where cache': "extract_step_cache (patch_step sid e (jr_payload r)) = Inr cache'"
      "map_of cache' = (map_of cache)(sid \<mapsto> e)"
    using step_cache_after_patch [OF assms(3)] by blast
  have "extract_producer_link (patch_step sid e (jr_payload r)) = extract_producer_link (jr_payload r)"
    using env obj by (simp add: extract_producer_link_def assert_payload_envelope_def patch_step_def)
  with cache' patch_envelope_success [OF assms(1,2) env, of "patch_step sid e"] show ?thesis
    unfolding write_checkpoint_def by fastforce
qed

lemma sample_owned [simp]:
  "jobs_inv sample_db" "owned_row (helpers_of sample_job) sample_db = Some sample_job"
  "extract_step_cache (jr_payload sample_job) = Inr []" "db_now sample_db = 9000"
  "db_jobs sample_db = [sample_job]" "db_groups sample_db = []" "db_waits sample_db = []"
  "db_outcomes sample_db = []"
  by (code_simp+)

theorem checkpoint_roundtrip_witness:
  "\<exists>d' r' cache'. write_checkpoint (helpers_of sample_job) ''a'' StepVoid sample_db = (Inr (), d') \<and>
    owned_row (helpers_of sample_job) d' = Some r' \<and>
    extract_step_cache (jr_payload r') = Inr cache' \<and> map_of cache' = [''a'' \<mapsto> StepVoid] \<and>
    extract_producer_link (jr_payload r') = extract_producer_link (jr_payload sample_job) \<and>
    filter (\<lambda>s. jr_id s \<noteq> jr_id sample_job) (db_jobs d') = [] \<and>
    db_groups d' = [] \<and> db_waits d' = [] \<and> db_outcomes d' = []"
  using checkpoint_roundtrip [of sample_db "helpers_of sample_job" sample_job "[]" "''a''" StepVoid]
  by simp

text \<open>
  A scheduled retry lands on its time. Whatever the instant \<open>now'\<close> at which Graphile's failure
  update then adds its backoff to \<open>greatest(now', run_at)\<close>, the retry is at the requested
  time, or at the default backoff after \<open>now'\<close> when that is later; the time returned is the
  one for an update at once.
\<close>

theorem retry_lands_on_time:
  assumes "jobs_inv d" and "owned_row h d = Some r"
  shows "\<exists>d' r'. schedule_retry h t d =
      (Inr (max (t * 1000) (db_now d + graphile_backoff (jr_attempts r))), d') \<and>
    owned_row h d' = Some r' \<and> jr_attempts r' = jr_attempts r \<and>
    max now' (jr_run_at r') + graphile_backoff (jr_attempts r') =
      max (t * 1000) (now' + graphile_backoff (jr_attempts r))"
proof -
  let ?f = "\<lambda>s. s\<lparr>jr_run_at := t * 1000 - graphile_backoff (jr_attempts s)\<rparr>"
  let ?d = "d\<lparr>db_jobs := update_where (owns h) ?f (db_jobs d)\<rparr>"
  have same: "update_where (owns h) ?f (db_jobs d) = update_where (\<lambda>s. jr_id s = jr_id r) ?f (db_jobs d)"
    using owned_row_Some [OF assms(2)] owned_row_unique [OF assms]
    by (intro update_where_cong) (auto simp: owns_def)
  have "owned_row h ?d = Some (?f r)"
    using owned_row_Some [OF assms(2)]
    by (intro owned_row_update [OF assms]) (auto simp: same owns_def)
  moreover have "schedule_retry h t d =
      (Inr (max (db_now d) (t * 1000 - graphile_backoff (jr_attempts r)) + graphile_backoff (jr_attempts r)), ?d)"
    by (simp add: schedule_retry_def assms Let_def)
  ultimately show ?thesis by (intro exI) (auto simp: max_def)
qed

theorem retry_lands_on_time_witness:
  "\<exists>d' r'. schedule_retry (helpers_of sample_job) 20000 sample_db = (Inr 20000000, d') \<and>
    owned_row (helpers_of sample_job) d' = Some r' \<and> jr_attempts r' = 1 \<and>
    max 60000000 (jr_run_at r') + graphile_backoff (jr_attempts r') = 62718282"
proof -
  have "jr_attempts sample_job = 1" "graphile_backoff 1 = 2718282" by (code_simp+)
  with retry_lands_on_time [of sample_db "helpers_of sample_job" sample_job 20000 60000000]
  show ?thesis by simp
qed

end
