(* ===== verification/Waits.thy ===== *)
theory Waits
  imports JobWrites
begin

text \<open>
  Waiting for child jobs: \<open>enterWait\<close>, \<open>finishWait\<close> and \<open>sweepWaits\<close> of
  \<^verbatim>\<open>src/src/private-jobs.ts\<close>, and the outputs and checkpoints of
  \<^verbatim>\<open>src/src/waits.ts\<close>. The statement that enqueues the children is prepared by the
  caller: its preparation and its execution are parameters here.
\<close>

section \<open>Outputs and checkpoints\<close>

fun report_fields :: "child_report \<Rightarrow> (string \<times> json) list" where
  "report_fields (ReportOk None) = [(''ok'', JBool True)]"
| "report_fields (ReportOk (Some v)) = [(''ok'', JBool True), (''output'', v)]"
| "report_fields (ReportFailed n m) =
     [(''ok'', JBool False), (''error'', JObj [(''name'', JStr n), (''message'', JStr m)])]"

definition wait_result_json :: "wait_row \<Rightarrow> json" where
  "wait_result_json w = JObj ((''id'', JStr (show_nat (wr_child w))) #
     (case wr_result w of None \<Rightarrow> [] | Some rep \<Rightarrow> report_fields rep))"

definition parse_output :: "'h queue \<Rightarrow> jsv \<Rightarrow> jsv option res" where
  "parse_output q v =
     (case q_output_schema q of
        None \<Rightarrow> Inr None
      | Some s \<Rightarrow> (case s v of
            Inl issues \<Rightarrow> Inl (JobValidationError (q_name q) issues OutputSubject)
          | Inr x \<Rightarrow> Inr (Some x)))"

definition encode_queue_output :: "'h queue \<Rightarrow> jsv \<Rightarrow> json option res" where
  "encode_queue_output q v =
     (if q_output_schema q = None then Inr None
      else bind_res (parse_output q v) (\<lambda>_.
           bind_res (assert_json_value (fst v) (snd v) True) (\<lambda>_.
           if snd v = GUndef then Inr None else json_snapshot (fst v) (snd v))))"

text \<open>A decoded result: the child's output as its schema gives it, or the error of its failure.\<close>

datatype wait_result = WaitOk string "jsv option" | WaitFailed string js_error

definition json_text :: "json option \<Rightarrow> string" where
  "json_text v = (case v of Some (JStr s) \<Rightarrow> s | _ \<Rightarrow> ''undefined'')"

fun truthy :: "json option \<Rightarrow> bool" where
  "truthy None = False"
| "truthy (Some JNull) = False"
| "truthy (Some (JBool b)) = b"
| "truthy (Some (JNum q)) = (q \<noteq> 0)"
| "truthy (Some (JStr s)) = (s \<noteq> [])"
| "truthy (Some _) = True"

text \<open>Reading a property of null or undefined throws.\<close>

definition decode_report :: "'h queue \<Rightarrow> json \<Rightarrow> wait_result res" where
  "decode_report q report =
     (let i = json_text (json_get ''id'' report) in
      if report = JNull then Inl (PlainTypeError ''Cannot read properties of null'')
      else if truthy (json_get ''ok'' report)
      then bind_res (parse_output q (value_of (json_get ''output'' report))) (\<lambda>out. Inr (WaitOk i out))
      else (case json_get ''error'' report of
             None \<Rightarrow> Inl (PlainTypeError ''Cannot read properties of undefined'')
           | Some JNull \<Rightarrow> Inl (PlainTypeError ''Cannot read properties of null'')
           | Some e \<Rightarrow> Inr (WaitFailed i (ChildJobFailedError i (q_name q)
                         (json_text (json_get ''name'' e)) (json_text (json_get ''message'' e))))))"

definition decode_wait_checkpoint ::
  "string \<Rightarrow> 'h queue \<Rightarrow> json option \<Rightarrow> wait_result list res" where
  "decode_wait_checkpoint wait_id q stored =
     (case stored of
        Some (JArr reports) \<Rightarrow> map_res (decode_report q) reports
      | Some (JObj kvs) \<Rightarrow>
          (case map_of kvs ''timedOut'' of
             Some (JArr ids) \<Rightarrow> Inl (WaitTimeoutError wait_id (map (json_text \<circ> Some) ids))
           | _ \<Rightarrow> Inl (PlainTypeError (''Checkpoint '' @ quoted wait_id @ '' does not hold wait results'')))
      | _ \<Rightarrow> Inl (PlainTypeError (''Checkpoint '' @ quoted wait_id @ '' does not hold wait results'')))"

section \<open>Finishing a wait\<close>

definition group_rows :: "nat \<times> string \<Rightarrow> db \<Rightarrow> wait_row list" where
  "group_rows k d = sort_key wr_idx [w \<leftarrow> db_waits d. wait_key w = k]"

definition wait_checkpoint :: "bool \<Rightarrow> wait_row list \<Rightarrow> json" where
  "wait_checkpoint all_in rows =
     (if all_in then JArr (map wait_result_json rows)
      else JObj [(''timedOut'', JArr [JStr (show_nat (wr_child w)). w \<leftarrow> rows, wr_result w = None])])"

text \<open>Deleting a group deletes its wait rows with it.\<close>

definition delete_groups :: "(group_row \<Rightarrow> bool) \<Rightarrow> db \<Rightarrow> db" where
  "delete_groups p d = d\<lparr>db_groups := delete_where p (db_groups d),
     db_waits := delete_where (\<lambda>w. list_ex (\<lambda>g. p g \<and> group_key g = wait_key w) (db_groups d)) (db_waits d)\<rparr>"

definition finish_wait :: "job_helpers \<Rightarrow> string \<Rightarrow> bool \<Rightarrow> json tx" where
  "finish_wait h wait_id all_in = (\<lambda>d.
     let k = (h_id h, wait_id); c = wait_checkpoint all_in (group_rows k d) in
     tx_bind (write_checkpoint h wait_id (StepOutput c)) (\<lambda>_.
     tx_bind (tx_modify (delete_groups (\<lambda>g. group_key g = k))) (\<lambda>_. tx_return c)) d)"

section \<open>Entering a wait\<close>

record wait_call =
  wc_id :: string
  wc_count :: nat
  wc_timeout :: "int option"
  wc_suspended :: bool

datatype wait_outcome = WaitFinished json | WaitSuspended

text \<open>\<open>9999-01-01T00:00:00Z\<close> in microseconds.\<close>

definition no_deadline :: int where
  "no_deadline = 253370764800000000"

definition new_group :: "job_helpers \<Rightarrow> wait_call \<Rightarrow> db \<Rightarrow> group_row" where
  "new_group h c d = \<lparr>gr_parent = h_id h, gr_wait = wc_id c, gr_remaining = int (wc_count c),
     gr_deadline = map_option (\<lambda>t. db_now d + t * 1000) (wc_timeout c), gr_created_at = db_now d\<rparr>"

definition new_waits :: "job_helpers \<Rightarrow> wait_call \<Rightarrow> nat list \<Rightarrow> wait_row list" where
  "new_waits h c ids = map (\<lambda>(i, child). \<lparr>wr_parent = h_id h, wr_wait = wc_id c, wr_idx = i,
     wr_child = child, wr_result = None, wr_finished_at = None\<rparr>) (enumerate 0 ids)"

definition mark_waited :: "nat list \<Rightarrow> db \<Rightarrow> db" where
  "mark_waited ids d = d\<lparr>db_jobs := update_where
     (\<lambda>r. jr_id r \<in> set ids \<and> is_json_object (jr_payload r))
     (\<lambda>r. r\<lparr>jr_payload := json_set ''waited'' (JBool True) (jr_payload r)\<rparr>) (db_jobs d)\<rparr>"

text \<open>
  The first call of a wait: \<open>prepare\<close> gives the statement, nothing when the enqueue is
  skipped; \<open>exec\<close> runs it and gives the ids of the children's rows.
\<close>

definition open_wait ::
  "'p option res \<Rightarrow> ('p \<Rightarrow> nat option list tx) \<Rightarrow> job_helpers \<Rightarrow> wait_call \<Rightarrow> unit tx" where
  "open_wait prepare exec h c =
     tx_bind (tx_lift prepare) (\<lambda>prepared.
     case prepared of
       None \<Rightarrow> tx_throw (plain_error (''shouldSkipEnqueue skipped the children of wait '' @ quoted (wc_id c)))
     | Some p \<Rightarrow>
         tx_bind (tx_modify (\<lambda>d. d\<lparr>db_groups := db_groups d @ [new_group h c d]\<rparr>)) (\<lambda>_.
         tx_bind (exec p) (\<lambda>ids.
         if length ids \<noteq> wc_count c \<or> None \<in> set ids
         then tx_throw (plain_error (''Wait '' @ quoted (wc_id c) @ '' enqueued '' @ show_nat (length ids) @
                '' of '' @ show_nat (wc_count c) @ '' children; a jobKey may have been claimed concurrently''))
         else tx_modify (\<lambda>d. mark_waited (map the ids)
                (d\<lparr>db_waits := db_waits d @ new_waits h c (map the ids)\<rparr>)))))"

definition suspend :: "job_helpers \<Rightarrow> wait_call \<Rightarrow> int option \<Rightarrow> db \<Rightarrow> db" where
  "suspend h c deadline d =
     (let s = (if wc_suspended c then 0 else 1) in
      d\<lparr>db_jobs := update_where (\<lambda>r. jr_id r = h_id h)
          (\<lambda>r. let target = nullish_else deadline no_deadline - graphile_backoff (jr_attempts r - s) in
               r\<lparr>jr_attempts := jr_attempts r - s,
                 jr_run_at := (if s = 1 then target else min (jr_run_at r) target)\<rparr>) (db_jobs d)\<rparr>)"

definition find_group :: "job_helpers \<Rightarrow> wait_call \<Rightarrow> db \<Rightarrow> group_row option" where
  "find_group h c d = find_row (\<lambda>g. group_key g = (h_id h, wc_id c)) (db_groups d)"

definition group_expired :: "group_row \<Rightarrow> db \<Rightarrow> bool" where
  "group_expired g d = (case gr_deadline g of None \<Rightarrow> False | Some t \<Rightarrow> t \<le> db_now d)"

definition enter_wait ::
  "'p option res \<Rightarrow> ('p \<Rightarrow> nat option list tx) \<Rightarrow> job_helpers \<Rightarrow> wait_call \<Rightarrow> wait_outcome tx" where
  "enter_wait prepare exec h c = transaction (\<lambda>d.
     if owned_row h d = None then (Inl (StepPersistenceError (job_id_text h)), d)
     else
       tx_bind (case find_group h c d of
           None \<Rightarrow> tx_bind (open_wait prepare exec h c) (\<lambda>_. tx_return (int (wc_count c), False))
         | Some g \<Rightarrow> tx_return (gr_remaining g, group_expired g d)) (\<lambda>(remaining, expired).
       if remaining = 0 \<or> expired
       then tx_bind (finish_wait h (wc_id c) (remaining = 0)) (\<lambda>j. tx_return (WaitFinished j))
       else (\<lambda>d'. (Inr WaitSuspended,
               case find_group h c d' of None \<Rightarrow> d' | Some g \<Rightarrow> suspend h c (gr_deadline g) d'))) d)"

section \<open>Sweeping\<close>

definition child_gone_message :: string where
  "child_gone_message = ''The child job finished without reporting a result '' @
     ''(deleted, or run by a worker without wait support)''"

definition child_failed_message :: string where
  "child_failed_message = ''The child job failed permanently''"

text \<open>The report for a lost child: its row is gone, or unlocked with its attempts spent.\<close>

definition lost_report :: "db \<Rightarrow> nat \<Rightarrow> child_report option" where
  "lost_report d child =
     (case find_row (\<lambda>r. jr_id r = child) (db_jobs d) of
        None \<Rightarrow> Some (ReportFailed ''ChildJobLostError'' child_gone_message)
      | Some r \<Rightarrow>
          if jr_locked_at r = None \<and> jr_attempts r \<ge> jr_max_attempts r
          then Some (ReportFailed ''ChildJobLostError'' (nullish_else (jr_last_error r) child_failed_message))
          else None)"

text \<open>
  A sweep is three statements, each on the database as it then is. The first reports the lost
  children and wakes their parents, \<open>busy\<close> telling the rows that another transaction holds:
  they are skipped.
\<close>

definition sweep_lost :: "(wait_row \<Rightarrow> bool) \<Rightarrow> nat list tx" where
  "sweep_lost busy = transaction (\<lambda>d.
     let lost = (\<lambda>w. if busy w then None else lost_report d (wr_child w));
         found = [w \<leftarrow> db_waits d. wr_result w = None \<and> lost w \<noteq> None] in
     tx_bind (tx_bind (report_waits lost) wake_parents) (\<lambda>_. tx_return (map wr_child found)) d)"

text \<open>The second wakes the parents whose wakeup was swallowed.\<close>

definition wake_swallowed :: "db \<Rightarrow> db" where
  "wake_swallowed d = d\<lparr>db_jobs := update_where
     (\<lambda>r. list_ex (\<lambda>g. gr_remaining g = 0 \<and> gr_parent g = jr_id r) (db_groups d) \<and>
          jr_locked_at r = None \<and> jr_run_at r > db_now d \<and> jr_attempts r < jr_max_attempts r)
     (\<lambda>r. r\<lparr>jr_run_at := db_now d\<rparr>) (db_jobs d)\<rparr>"

text \<open>The third drops the groups of parents that no longer exist.\<close>

definition drop_orphan_groups :: "db \<Rightarrow> db" where
  "drop_orphan_groups d = delete_groups (\<lambda>g. \<not> list_ex (\<lambda>r. jr_id r = gr_parent g) (db_jobs d)) d"

definition sweep_waits :: "(wait_row \<Rightarrow> bool) \<Rightarrow> nat list tx" where
  "sweep_waits busy =
     tx_bind (sweep_lost busy) (\<lambda>lost.
     tx_bind (tx_modify wake_swallowed) (\<lambda>_.
     tx_bind (tx_modify drop_orphan_groups) (\<lambda>_. tx_return lost)))"

end
