(* ===== verification/WaitInvariant.thy ===== *)
theory WaitInvariant
  imports Waits
begin

text \<open>
  The invariant of the wait tables: a group's \<open>remaining\<close> is the number of its children
  without a result. Every statement keeps it, so the table's check never fails, and a group
  reaches zero exactly with its last report, which wakes the parent.
\<close>

section \<open>Counting reports\<close>

definition reports_row :: "(wait_row \<Rightarrow> child_report option) \<Rightarrow> wait_row \<Rightarrow> bool" where
  "reports_row f w \<longleftrightarrow> wr_result w = None \<and> f w \<noteq> None"

definition reported_keys :: "(wait_row \<Rightarrow> child_report option) \<Rightarrow> db \<Rightarrow> (nat \<times> string) list" where
  "reported_keys f d = map wait_key (filter (reports_row f) (db_waits d))"

definition count_reports :: "(wait_row \<Rightarrow> child_report option) \<Rightarrow> db \<Rightarrow> group_row \<Rightarrow> group_row" where
  "count_reports f d g = g\<lparr>gr_remaining := gr_remaining g - int (count_list (reported_keys f d) (group_key g))\<rparr>"

text \<open>The state after the reports of \<open>f\<close> are written, counted and their parents woken.\<close>

definition after_reports :: "(wait_row \<Rightarrow> child_report option) \<Rightarrow> db \<Rightarrow> db" where
  "after_reports f d = d\<lparr>
     db_waits := update_where (reports_row f)
       (\<lambda>w. w\<lparr>wr_result := f w, wr_finished_at := Some (db_now d)\<rparr>) (db_waits d),
     db_groups := map (count_reports f d) (db_groups d),
     db_jobs := update_where
       (\<lambda>j. list_ex (\<lambda>g. gr_parent g = jr_id j \<and> group_key g \<in> set (reported_keys f d) \<and>
                         gr_remaining (count_reports f d g) = 0) (db_groups d))
       (\<lambda>j. j\<lparr>jr_run_at := min (jr_run_at j) (db_now d)\<rparr>) (db_jobs d)\<rparr>"

lemma count_reports_keys [simp]:
  "gr_parent (count_reports f d g) = gr_parent g" "gr_wait (count_reports f d g) = gr_wait g"
  "gr_deadline (count_reports f d g) = gr_deadline g"
  by (simp_all add: count_reports_def)

lemma count_list_map_filter:
  "count_list (map key (filter p xs)) k = length (filter (\<lambda>x. key x = k \<and> p x) xs)"
  by (induction xs) auto

lemma reported_plus_pending:
  "length (filter (\<lambda>w. wait_key w = k \<and> wr_result w = None) ws) =
    length (filter (\<lambda>w. wait_key w = k \<and> reports_row f w) ws) +
    length (filter (\<lambda>w. wait_key w = k \<and> wr_result w = None)
      (update_where (reports_row f) (\<lambda>w. w\<lparr>wr_result := f w, wr_finished_at := t\<rparr>) ws))"
  by (induction ws) (auto simp: update_where_def reports_row_def)

lemma count_list_reported:
  "count_list (reported_keys f d) k = length (filter (\<lambda>w. wait_key w = k \<and> reports_row f w) (db_waits d))"
  by (simp add: reported_keys_def count_list_map_filter)

lemma pending_after_reports:
  "int (length (pending_waits (after_reports f d) k)) =
     int (length (pending_waits d k)) - int (count_list (reported_keys f d) k)"
  using reported_plus_pending [of k "db_waits d" f "Some (db_now d)"]
  by (simp add: pending_waits_def count_list_reported after_reports_def)

lemma reported_keys_zero: "k \<notin> set (reported_keys f d) \<longleftrightarrow> count_list (reported_keys f d) k = 0"
  by (simp add: count_list_0_iff)

lemma reports_row_abs: "reports_row f = (\<lambda>w. wr_result w = None \<and> f w \<noteq> None)"
  by (simp add: fun_eq_iff reports_row_def)

lemma after_reports_keys [simp]:
  "map group_key (db_groups (after_reports f d)) = map group_key (db_groups d)"
  "map (\<lambda>w. (wait_key w, wr_idx w)) (db_waits (after_reports f d)) =
   map (\<lambda>w. (wait_key w, wr_idx w)) (db_waits d)"
  "map wait_key (db_waits (after_reports f d)) = map wait_key (db_waits d)"
  by (auto simp: after_reports_def update_where_def)

lemma wait_inv_alt:
  "wait_inv d \<longleftrightarrow>
     distinct (map group_key (db_groups d)) \<and>
     distinct (map (\<lambda>w. (wait_key w, wr_idx w)) (db_waits d)) \<and>
     set (map wait_key (db_waits d)) \<subseteq> set (map group_key (db_groups d)) \<and>
     (\<forall>g\<in>set (db_groups d). gr_remaining g = int (length (pending_waits d (group_key g))))"
  by (simp add: wait_inv_def)

lemma after_reports_inv:
  assumes "wait_inv d"
  shows "wait_inv (after_reports f d)"
proof -
  have "gr_remaining g = int (length (pending_waits d (group_key g)))" if "g \<in> set (db_groups d)" for g
    using that assms by (simp add: wait_inv_def)
  then have "gr_remaining (count_reports f d g) = int (length (pending_waits (after_reports f d) (group_key g)))"
    if "g \<in> set (db_groups d)" for g
    using that by (simp add: pending_after_reports count_reports_def)
  then have "\<forall>g\<in>set (db_groups (after_reports f d)).
      gr_remaining g = int (length (pending_waits (after_reports f d) (group_key g)))"
    by (simp add: after_reports_def)
  with assms show ?thesis
    unfolding wait_inv_alt after_reports_keys by blast
qed

lemma list_compr_filter: "concat (map (\<lambda>x. if p x then [f x] else []) xs) = map f (filter p xs)"
  by (induction xs) auto

lemma remaining_nonneg:
  "wait_inv d \<Longrightarrow> g \<in> set (db_groups d) \<Longrightarrow> 0 \<le> gr_remaining g"
  by (simp add: wait_inv_def)

lemma report_and_wake:
  assumes "wait_inv d"
  shows "tx_bind (report_waits f) wake_parents d = (Inr (), after_reports f d)"
proof -
  let ?ks = "reported_keys f d"
  let ?d = "d\<lparr>db_waits := update_where (reports_row f)
      (\<lambda>w. w\<lparr>wr_result := f w, wr_finished_at := Some (db_now d)\<rparr>) (db_waits d)\<rparr>"
  have rep: "report_waits f d = (Inr ?ks, ?d)"
    by (simp add: report_waits_def Let_def reported_keys_def reports_row_abs)
  have nonneg: "0 \<le> gr_remaining (count_reports f d g)" if "g \<in> set (db_groups d)" for g
  proof -
    have "count_reports f d g \<in> set (db_groups (after_reports f d))"
      using that by (simp add: after_reports_def)
    with after_reports_inv [OF assms] show ?thesis by (rule remaining_nonneg)
  qed
  have counted: "counted_groups ?ks ?d = map (count_reports f d) [g \<leftarrow> db_groups d. group_key g \<in> set ?ks]"
    unfolding counted_groups_def by (simp add: list_compr_filter count_reports_def)
  have checked: "list_ex (\<lambda>g. gr_remaining g < 0) (counted_groups ?ks ?d) = False"
    using nonneg by (auto simp: counted list_ex_iff not_less)
  have groups: "update_where (\<lambda>g. group_key g \<in> set ?ks)
      (\<lambda>g. g\<lparr>gr_remaining := gr_remaining g - int (count_list ?ks (group_key g))\<rparr>) gs =
      map (count_reports f d) gs" for gs
    by (auto simp: update_where_def count_reports_def reported_keys_zero)
  have woken: "(\<lambda>j. list_ex (\<lambda>g. gr_parent g = jr_id j \<and> gr_remaining g = 0) (counted_groups ?ks ?d)) =
      (\<lambda>j. list_ex (\<lambda>g. gr_parent g = jr_id j \<and> group_key g \<in> set ?ks \<and>
        gr_remaining (count_reports f d g) = 0) (db_groups d))"
    by (auto simp: fun_eq_iff counted list_ex_iff)
  have "wake_parents ?ks ?d = (Inr (), after_reports f d)"
    unfolding wake_parents_def checked woken groups if_False
    by (simp add: after_reports_def)
  then show ?thesis
    by (simp add: tx_bind_def rep)
qed

text \<open>A group that a report brings to zero has its parent due at once.\<close>

lemma after_reports_wakes:
  assumes "g \<in> set (db_groups (after_reports f d))" "gr_remaining g = 0"
    and "\<forall>g0\<in>set (db_groups d). group_key g0 = group_key g \<longrightarrow> gr_remaining g0 \<noteq> 0"
    and "j \<in> set (db_jobs (after_reports f d))" "jr_id j = gr_parent g"
  shows "jr_run_at j \<le> db_now d"
proof -
  from assms(1) obtain g0 where g0: "g0 \<in> set (db_groups d)" "g = count_reports f d g0"
    by (auto simp: after_reports_def)
  have "group_key g0 \<in> set (reported_keys f d)"
    using assms(2,3) g0 unfolding count_reports_def
    by (metis (no_types, lifting) count_reports_keys(1) count_reports_keys(2) count_reports_def
        group_row.select_convs(3) group_row.surjective group_row.update_convs(3) diff_zero of_nat_0 reported_keys_zero)
  with g0 assms show ?thesis
    by (auto simp: after_reports_def set_update_where list_ex_iff split: if_splits)
qed

section \<open>Settling\<close>

definition report_db :: "child_report option \<Rightarrow> nat \<Rightarrow> db \<Rightarrow> db" where
  "report_db report child d =
     (case report of None \<Rightarrow> d
      | Some rep \<Rightarrow> after_reports (\<lambda>w. if wr_child w = child then Some rep else None) d)"

definition settled_db :: "job_helpers \<Rightarrow> settle \<Rightarrow> job_row \<Rightarrow> db \<Rightarrow> db" where
  "settled_db h s r d = settle_own_row (st_row s) h r
     (report_db (st_report s) (jr_id r) (record_outcome (st_outcome s) r d))"

lemma record_outcome_frame [simp]:
  "db_groups (record_outcome oc r d) = db_groups d" "db_waits (record_outcome oc r d) = db_waits d"
  "db_jobs (record_outcome oc r d) = db_jobs d" "db_lanes (record_outcome oc r d) = db_lanes d"
  "db_now (record_outcome oc r d) = db_now d"
  by (simp_all add: record_outcome_def split: option.splits)

lemma settle_own_row_frame [simp]:
  "db_groups (settle_own_row row h r d) = db_groups d" "db_waits (settle_own_row row h r d) = db_waits d"
  "db_outcomes (settle_own_row row h r d) = db_outcomes d" "db_now (settle_own_row row h r d) = db_now d"
  by (simp_all add: settle_own_row_def split: settle_row.splits)

lemma wait_inv_frame [simp]:
  "wait_inv (record_outcome oc r d) = wait_inv d"
  "wait_inv (settle_own_row row h r d) = wait_inv d"
  "wait_inv (exhaust_owned h d) = wait_inv d"
  by (rule wait_inv_cong; simp add: exhaust_owned_def)+

lemma report_db_inv: "wait_inv d \<Longrightarrow> wait_inv (report_db report child d)"
  by (simp add: report_db_def after_reports_inv split: option.split)

lemma after_reports_frame [simp]:
  "db_outcomes (after_reports f d) = db_outcomes d" "db_lanes (after_reports f d) = db_lanes d"
  "db_now (after_reports f d) = db_now d" "db_idem (after_reports f d) = db_idem d"
  "db_heartbeats (after_reports f d) = db_heartbeats d"
  "map jr_id (db_jobs (after_reports f d)) = map jr_id (db_jobs d)"
  by (auto simp: after_reports_def update_where_def)

lemma report_db_frame [simp]:
  "db_outcomes (report_db report child d) = db_outcomes d" "db_lanes (report_db report child d) = db_lanes d"
  "db_now (report_db report child d) = db_now d"
  "map jr_id (db_jobs (report_db report child d)) = map jr_id (db_jobs d)"
  by (simp_all add: report_db_def split: option.split)

lemma settle_job_owned:
  assumes "wait_inv d" "owned_row h d = Some r"
  shows "settle_job h s d = (Inr True, settled_db h s r d)"
proof -
  have "wait_inv (record_outcome (st_outcome s) r d)"
    using assms by simp
  then have "report_child (st_report s) (jr_id r) (record_outcome (st_outcome s) r d) =
      (Inr (), report_db (st_report s) (jr_id r) (record_outcome (st_outcome s) r d))"
    unfolding report_child_def report_db_def
    by (cases "st_report s") (simp_all add: report_and_wake tx_return_def)
  then show ?thesis
    by (simp add: settle_job_def transaction_def assms settled_db_def)
qed

lemma settle_job_result:
  "wait_inv d \<Longrightarrow> settle_job h s d =
     (case owned_row h d of None \<Rightarrow> (Inr False, d) | Some r \<Rightarrow> (Inr True, settled_db h s r d))"
  by (cases "owned_row h d") (simp_all add: settle_job_owned settled.fenced)

lemma settled_db_inv: "wait_inv d \<Longrightarrow> wait_inv (settled_db h s r d)"
  by (simp add: settled_db_def report_db_inv)

lemma settle_job_inv: "wait_inv d \<Longrightarrow> settle_job h s d = (res, d') \<Longrightarrow> wait_inv d'"
  by (auto simp: settle_job_result settled_db_inv split: option.splits)

section \<open>The other writes\<close>

definition keeps_wait_tables :: "'a tx \<Rightarrow> bool" where
  "keeps_wait_tables m \<longleftrightarrow>
     (\<forall>d. db_groups (snd (m d)) = db_groups d \<and> db_waits (snd (m d)) = db_waits d)"

lemma keeps_wait_tablesD:
  "keeps_wait_tables m \<Longrightarrow> m d = (r, d') \<Longrightarrow> db_groups d' = db_groups d \<and> db_waits d' = db_waits d"
  by (metis keeps_wait_tables_def snd_conv)

lemma keeps_patch: "keeps_wait_tables (patch_envelope h f)"
  by (auto simp: keeps_wait_tables_def patch_envelope_def split: option.splits)

lemma keeps_checkpoint: "keeps_wait_tables (write_checkpoint h sid e)"
  unfolding write_checkpoint_def by (rule keeps_patch)

lemma keeps_retry: "keeps_wait_tables (schedule_retry h t)"
  by (auto simp: keeps_wait_tables_def schedule_retry_def Let_def split: option.splits)

lemma move_waits_inv: "wait_inv (move_waits old new d) = wait_inv d"
proof -
  have [simp]: "filter (\<lambda>w. wait_key w = k \<and> wr_result w = None) (update_where p (\<lambda>w. w\<lparr>wr_child := new\<rparr>) ws) =
      update_where p (\<lambda>w. w\<lparr>wr_child := new\<rparr>) (filter (\<lambda>w. wait_key w = k \<and> wr_result w = None) ws)"
    for p k ws by (induction ws) (auto simp: update_where_def)
  have "length (pending_waits (move_waits old new d) k) = length (pending_waits d k)" for k
    unfolding pending_waits_def move_waits_def by (simp add: length_update_where)
  moreover have "map (\<lambda>w. (wait_key w, wr_idx w)) (db_waits (move_waits old new d)) =
      map (\<lambda>w. (wait_key w, wr_idx w)) (db_waits d)"
    "map wait_key (db_waits (move_waits old new d)) = map wait_key (db_waits d)"
    by (auto simp: move_waits_def update_where_def)
  moreover have "db_groups (move_waits old new d) = db_groups d"
    by (simp add: move_waits_def)
  ultimately show ?thesis
    by (simp only: wait_inv_alt)
qed

definition continued_db :: "job_helpers \<Rightarrow> job_row \<Rightarrow> nat \<Rightarrow> db \<Rightarrow> db" where
  "continued_db h r i d =
     (if json_get ''waited'' (jr_payload r) = Some (JBool True)
      then move_waits (h_id h) i (exhaust_owned h d) else exhaust_owned h d)"

definition continued_settle :: "nat \<Rightarrow> settle" where
  "continued_settle i = \<lparr>st_outcome = Some (OutcomeContinued i), st_report = None, st_row = RowDelete\<rparr>"

lemma continued_db_inv [simp]: "wait_inv (continued_db h r i d) = wait_inv d"
  by (simp add: continued_db_def move_waits_inv)

lemma continue_job_success:
  assumes inv: "wait_inv d" and keeps: "\<forall>a. keeps_wait_tables (aj a)"
    and step: "continue_job aj h t tp rec pr d = (Inr i, d')"
  obtains r d1 where "owned_row h d = Some r" "aj (continuation_args r t tp pr) d = (Inr (Some i), d1)"
    "wait_inv d1" "db_groups d1 = db_groups d" "db_waits d1 = db_waits d"
    "\<not> rec \<Longrightarrow> d' = continued_db h r i d1"
    "rec \<Longrightarrow> \<exists>r'. owned_row h (continued_db h r i d1) = Some r' \<and>
       d' = settled_db h (continued_settle i) r' (continued_db h r i d1)"
proof (cases "owned_row h d")
  case None
  with step show ?thesis using continued.fenced [OF None, of aj t tp rec pr] by simp
next
  case (Some r)
  from step[unfolded continue_job_owned [OF Some] transaction_Inr tx_bind_Inr]
  obtain added d1 where d1: "aj (continuation_args r t tp pr) d = (Inr added, d1)"
    and rest: "(case added of
        None \<Rightarrow> tx_throw (plain_error ''Graphile add_job returned no continuation'')
      | Some i \<Rightarrow>
          tx_bind (tx_modify (exhaust_owned h)) (\<lambda>_.
          tx_bind (if json_get ''waited'' (jr_payload r) = Some (JBool True)
                   then tx_modify (move_waits (h_id h) i) else tx_return ()) (\<lambda>_.
          tx_bind (if rec
                   then settle_job h \<lparr>st_outcome = Some (OutcomeContinued i),
                                      st_report = None, st_row = RowDelete\<rparr>
                   else tx_return True) (\<lambda>ok.
          if ok then tx_return i
          else tx_throw (StepPersistenceError (job_id_text h)))))) d1 = (Inr i, d')"
    by blast
  have tabs: "db_groups d1 = db_groups d" "db_waits d1 = db_waits d"
    using keeps_wait_tablesD [OF spec [OF keeps] d1] by auto
  have inv1: "wait_inv d1" using inv wait_inv_cong [OF tabs] by simp
  then have inv2: "wait_inv (continued_db h r i d1)" by simp
  have added: "added = Some i"
    using rest by (cases added) (auto simp: tx_simps split: if_splits sum.splits prod.splits)
  have "(if rec then settle_job h (continued_settle i) else tx_return True) (continued_db h r i d1) = (Inr True, d')"
    using rest unfolding added continued_db_def continued_settle_def
    by (auto simp: tx_simps split: if_splits sum.splits prod.splits)
  with inv2 show ?thesis
    using that [OF Some d1[unfolded added] inv1 tabs]
    by (cases rec) (auto simp: settle_job_result tx_simps split: option.splits)
qed

lemma continue_job_inv:
  assumes "wait_inv d" "\<forall>a. keeps_wait_tables (aj a)" "continue_job aj h t tp rec pr d = (res, d')"
  shows "wait_inv d'"
proof (cases res)
  case (Inl e)
  with assms show ?thesis using continued.atomic by blast
next
  case (Inr i)
  from assms(3)[unfolded Inr] show ?thesis
    by (rule continue_job_success [OF assms(1,2)])
       (metis continued_db_inv settled_db_inv)
qed

section \<open>Groups come and go\<close>

lemma delete_groups_inv:
  assumes inv: "wait_inv d"
  shows "wait_inv (delete_groups p d)"
proof -
  let ?gone = "\<lambda>w. list_ex (\<lambda>g. p g \<and> group_key g = wait_key w) (db_groups d)"
  have uniq: "g = g'" if "g \<in> set (db_groups d)" "g' \<in> set (db_groups d)" "group_key g = group_key g'" for g g'
    using inv that by (auto simp: wait_inv_alt distinct_map inj_on_def)
  have kept: "\<not> ?gone w" if "g \<in> set (db_groups d)" "\<not> p g" "wait_key w = group_key g" for g w
    using that uniq by (auto simp: list_ex_iff)
  have "pending_waits (delete_groups p d) (group_key g) = pending_waits d (group_key g)"
    if "g \<in> set (db_groups d)" "\<not> p g" for g
    using kept [OF that] unfolding pending_waits_def
    by (auto simp: delete_groups_def delete_where_def intro!: filter_cong)
  moreover have "wait_key w \<in> set (map group_key (delete_where p (db_groups d)))"
    if "w \<in> set (db_waits d)" "\<not> ?gone w" for w
  proof -
    have "wait_key w \<in> group_key ` set (db_groups d)"
      using inv that(1) unfolding wait_inv_def by blast
    then obtain g where g: "wait_key w = group_key g" "g \<in> set (db_groups d)"
      by (rule imageE)
    with that(2) have "\<not> p g"
      unfolding list_ex_iff by metis
    with g show ?thesis
      unfolding set_map set_delete_where by blast
  qed
  ultimately show ?thesis
    using inv unfolding wait_inv_alt
    by (auto simp: delete_groups_def table_simps intro: distinct_map_delete_where)
qed

lemma new_waits_keys:
  "w \<in> set (new_waits h c ids) \<Longrightarrow> wait_key w = (h_id h, wc_id c) \<and> wr_result w = None"
  by (auto simp: new_waits_def)

lemma new_waits_idx: "map wr_idx (new_waits h c ids) = [0..<length ids]"
  by (simp add: new_waits_def comp_def case_prod_unfold enumerate_eq_zip map_fst_zip)

lemma length_new_waits [simp]: "length (new_waits h c ids) = length ids"
  by (simp add: new_waits_def)

lemma mark_waited_frame [simp]:
  "db_groups (mark_waited ids d) = db_groups d" "db_waits (mark_waited ids d) = db_waits d"
  "db_now (mark_waited ids d) = db_now d"
  by (simp_all add: mark_waited_def)

lemma add_group_inv:
  assumes inv: "wait_inv d" and none: "find_group h c d = None"
    and "gr_parent g = h_id h" "gr_wait g = wc_id c" "gr_remaining g = int (length ids)"
    and "db_groups d' = db_groups d @ [g]" "db_waits d' = db_waits d @ new_waits h c ids"
  shows "wait_inv d'"
proof -
  let ?k = "(h_id h, wc_id c)"
  have fresh: "?k \<notin> set (map group_key (db_groups d))"
    using none by (auto simp: find_group_def find_row_None)
  with inv have freshw: "?k \<notin> set (map wait_key (db_waits d))"
    by (auto simp: wait_inv_alt)
  have new: "filter (\<lambda>w. wait_key w = k \<and> wr_result w = None) (new_waits h c ids) =
      (if k = ?k then new_waits h c ids else [])" for k
    using new_waits_keys [of _ h c ids] by (auto simp: filter_id_conv filter_empty_conv)
  have pend: "pending_waits d' k = pending_waits d k @ (if k = ?k then new_waits h c ids else [])" for k
    unfolding pending_waits_def assms(7) filter_append new by simp
  have "pending_waits d ?k = []"
    using freshw by (auto simp: pending_waits_def filter_empty_conv image_iff)
  with inv fresh have "\<forall>g\<in>set (db_groups d'). gr_remaining g = int (length (pending_waits d' (group_key g)))"
    by (auto simp: wait_inv_alt pend assms image_iff)
  moreover have "distinct (map (\<lambda>w. (wait_key w, wr_idx w)) (new_waits h c ids))"
  proof -
    have "distinct (map wr_idx (new_waits h c ids))"
      unfolding new_waits_idx by simp
    then show ?thesis by (auto simp: distinct_map inj_on_def)
  qed
  moreover have "(\<lambda>w. (wait_key w, wr_idx w)) ` set (db_waits d) \<inter>
      (\<lambda>w. (wait_key w, wr_idx w)) ` set (new_waits h c ids) = {}"
  proof -
    have "wait_key v \<noteq> wait_key w" if "v \<in> set (db_waits d)" "w \<in> set (new_waits h c ids)" for v w
    proof
      assume "wait_key v = wait_key w"
      with new_waits_keys [OF that(2)] have v: "wait_key v = (h_id h, wc_id c)" by argo
      have "wait_key v \<in> set (map wait_key (db_waits d))"
        unfolding set_map using that(1) by (rule imageI)
      with freshw show False unfolding v by contradiction
    qed
    then show ?thesis by fast
  qed
  ultimately show ?thesis
    using inv fresh new_waits_keys [of _ h c ids] unfolding wait_inv_alt
    by (auto simp: assms)
qed

section \<open>Entering a wait\<close>

lemma open_wait_db:
  assumes "\<And>p. keeps_wait_tables (exec p)" "open_wait prepare exec h c d = (Inr u, d')"
  shows "\<exists>ids. length ids = wc_count c \<and>
    db_groups d' = db_groups d @ [new_group h c d] \<and> db_waits d' = db_waits d @ new_waits h c ids"
proof -
  from assms(2) obtain p ids d1 where
    ex: "exec p (d\<lparr>db_groups := db_groups d @ [new_group h c d]\<rparr>) = (Inr ids, d1)"
    and len: "length ids = wc_count c"
    and d': "d' = mark_waited (map the ids) (d1\<lparr>db_waits := db_waits d1 @ new_waits h c (map the ids)\<rparr>)"
    unfolding open_wait_def
    by (auto simp: tx_simps tx_modify_def tx_lift_def tx_throw_def tx_bind_Inr
        split: option.splits if_splits sum.splits prod.splits)
  with keeps_wait_tablesD [OF assms(1) ex] show ?thesis
    by (intro exI [of _ "map the ids"]) simp
qed

lemma open_wait_inv:
  assumes "wait_inv d" "find_group h c d = None"
    and "\<And>p. keeps_wait_tables (exec p)" "open_wait prepare exec h c d = (Inr u, d')"
  shows "wait_inv d'"
proof -
  obtain ids where "length ids = wc_count c" "db_groups d' = db_groups d @ [new_group h c d]"
      "db_waits d' = db_waits d @ new_waits h c ids"
    using open_wait_db [OF assms(3,4)] by blast
  then show ?thesis
    by (intro add_group_inv [OF assms(1,2), of "new_group h c d" ids]) (simp_all add: new_group_def)
qed

lemma finish_wait_inv:
  assumes "wait_inv d" "finish_wait h i b d = (Inr j, d')"
  shows "wait_inv d'"
proof -
  from assms(2) obtain d1 where "write_checkpoint h i (StepOutput j) d = (Inr (), d1)"
      "d' = delete_groups (\<lambda>g. group_key g = (h_id h, i)) d1"
    unfolding finish_wait_def Let_def tx_bind_Inr by (auto simp: tx_simps)
  with keeps_wait_tablesD [OF keeps_checkpoint] assms(1) show ?thesis
    using delete_groups_inv wait_inv_cong by metis
qed

lemma suspend_frame [simp]:
  "db_groups (suspend h c t d) = db_groups d" "db_waits (suspend h c t d) = db_waits d"
  "wait_inv (suspend h c t d) = wait_inv d"
proof -
  show g: "db_groups (suspend h c t d) = db_groups d" and w: "db_waits (suspend h c t d) = db_waits d"
    by (simp_all add: suspend_def Let_def)
  show "wait_inv (suspend h c t d) = wait_inv d"
    by (rule wait_inv_cong [OF g w])
qed

interpretation entered: fenced_transaction "\<lambda>h. enter_wait prepare exec h c" lock_lost
proof unfold_locales
  show "enter_wait prepare exec h c d = (lock_lost h, d)" if "owned_row h d = None" for h d
    using that by (simp add: enter_wait_def transaction_def)
  show "d' = d" if "enter_wait prepare exec h c d = (Inl e, d')" for h d e d'
    using that unfolding enter_wait_def by (rule transaction_Inl)
qed

lemma enter_wait_success:
  assumes inv: "wait_inv d" and keeps: "\<forall>p. keeps_wait_tables (exec p)"
    and enter: "enter_wait prepare exec h c d = (Inr out, d')"
  obtains d1 b j where "wait_inv d1" "set (db_waits d) \<subseteq> set (db_waits d1)"
    "finish_wait h (wc_id c) b d1 = (Inr j, d')"
  | d1 t where "wait_inv d1" "set (db_waits d) \<subseteq> set (db_waits d1)"
    "d' = suspend h c t d1 \<or> d' = d1"
proof -
  from enter obtain rem expd d1 where
    grp: "(case find_group h c d of
        None \<Rightarrow> tx_bind (open_wait prepare exec h c) (\<lambda>_. tx_return (int (wc_count c), False))
      | Some g \<Rightarrow> tx_return (gr_remaining g, group_expired g d)) d = (Inr (rem, expd), d1)"
    and rest: "(if rem = 0 \<or> expd
       then tx_bind (finish_wait h (wc_id c) (rem = 0)) (\<lambda>j. tx_return (WaitFinished j))
       else (\<lambda>d'. (Inr WaitSuspended,
               case find_group h c d' of None \<Rightarrow> d' | Some g \<Rightarrow> suspend h c (gr_deadline g) d'))) d1 = (Inr out, d')"
    unfolding enter_wait_def by (auto simp: transaction_Inr tx_bind_Inr split: if_splits)
  have d1: "wait_inv d1 \<and> set (db_waits d) \<subseteq> set (db_waits d1)"
  proof (cases "find_group h c d")
    case None
    with grp obtain u where op: "open_wait prepare exec h c d = (Inr u, d1)"
      by (auto simp: tx_simps tx_bind_Inr split: prod.splits sum.splits)
    then show ?thesis
      using open_wait_inv [OF inv None _ op] open_wait_db [OF _ op] keeps by auto
  next
    case (Some g)
    with grp inv show ?thesis by (simp add: tx_simps)
  qed
  show ?thesis
  proof (cases "rem = 0 \<or> expd")
    case True
    with rest obtain j where "finish_wait h (wc_id c) (rem = 0) d1 = (Inr j, d')"
      by (auto simp: tx_bind_Inr tx_return_def)
    with d1 show ?thesis using that(1) by blast
  next
    case False
    with rest d1 show ?thesis using that(2) by (auto split: option.splits)
  qed
qed

lemma enter_wait_inv:
  assumes "wait_inv d" and "\<forall>p. keeps_wait_tables (exec p)"
    and "enter_wait prepare exec h c d = (res, d')"
  shows "wait_inv d'"
proof (cases res)
  case (Inl e)
  with assms show ?thesis using entered.atomic by blast
next
  case (Inr out)
  from assms(3)[unfolded Inr] show ?thesis
    by (rule enter_wait_success [OF assms(1,2)]) (auto intro: finish_wait_inv)
qed

section \<open>Sweeping\<close>

lemma wake_swallowed_frame [simp]:
  "db_groups (wake_swallowed d) = db_groups d" "db_waits (wake_swallowed d) = db_waits d"
  "db_now (wake_swallowed d) = db_now d"
  by (simp_all add: wake_swallowed_def)

text \<open>What the statements do: the lost children reported, and then the rest of the sweep.\<close>

definition lost_db :: "(wait_row \<Rightarrow> bool) \<Rightarrow> db \<Rightarrow> db" where
  "lost_db busy d = after_reports (\<lambda>w. if busy w then None else lost_report d (wr_child w)) d"

definition swept_db :: "(wait_row \<Rightarrow> bool) \<Rightarrow> db \<Rightarrow> db" where
  "swept_db busy d = drop_orphan_groups (wake_swallowed (lost_db busy d))"

lemma sweep_lost_result:
  assumes "wait_inv d"
  shows "sweep_lost busy d =
    (Inr (map wr_child [w \<leftarrow> db_waits d. wr_result w = None \<and> \<not> busy w \<and> lost_report d (wr_child w) \<noteq> None]),
     lost_db busy d)"
  unfolding sweep_lost_def Let_def transaction_def
    tx_bind_def [of "tx_bind (report_waits _) wake_parents"] report_and_wake [OF assms] lost_db_def
  by (auto simp: tx_return_def intro!: arg_cong [of _ _ "map wr_child"] filter_cong)

lemma sweep_waits_result:
  assumes "wait_inv d"
  shows "sweep_waits busy d =
    (Inr (map wr_child [w \<leftarrow> db_waits d. wr_result w = None \<and> \<not> busy w \<and> lost_report d (wr_child w) \<noteq> None]),
     swept_db busy d)"
  unfolding sweep_waits_def tx_bind_def [of "sweep_lost busy"] sweep_lost_result [OF assms]
  by (simp add: tx_simps swept_db_def)

lemma sweep_statements_inv:
  assumes "wait_inv d"
  shows "wait_inv (lost_db busy d)" "wait_inv (wake_swallowed d)" "wait_inv (drop_orphan_groups d)"
proof -
  show "wait_inv (lost_db busy d)"
    unfolding lost_db_def by (rule after_reports_inv [OF assms])
  show "wait_inv (wake_swallowed d)"
    using assms wait_inv_cong [of "wake_swallowed d" d] by simp
  show "wait_inv (drop_orphan_groups d)"
    unfolding drop_orphan_groups_def by (rule delete_groups_inv [OF assms])
qed

lemma swept_db_inv: "wait_inv d \<Longrightarrow> wait_inv (swept_db busy d)"
  by (simp add: swept_db_def sweep_statements_inv)

end
