(* ===== verification/WaitProtocol.thy ===== *)
theory WaitProtocol
  imports WaitInvariant
begin

text \<open>
  The protocol of waiting parents and reporting children, as a step relation over the
  database: any interleaving of the library's writes, with anything else that leaves the two
  wait tables alone (Graphile's own statements, other tables, the clock).
\<close>

section \<open>Steps and reachable states\<close>

inductive wait_step :: "db \<Rightarrow> db \<Rightarrow> bool" where
  settle: "settle_job h s d = (res, d') \<Longrightarrow> wait_step d d'"
| continue: "\<forall>a. keeps_wait_tables (aj a) \<Longrightarrow>
    continue_job aj h t tp rec pr d = (res', d') \<Longrightarrow> wait_step d d'"
| enter: "\<forall>p :: nat. keeps_wait_tables (exec p) \<Longrightarrow>
    enter_wait prepare exec h c d = (res'', d') \<Longrightarrow> wait_step d d'"
| sweep_lost: "sweep_lost busy d = (res''', d') \<Longrightarrow> wait_step d d'"
| sweep_wake: "wait_step d (wake_swallowed d)"
| sweep_drop: "wait_step d (drop_orphan_groups d)"
| elsewhere: "db_groups d' = db_groups d \<Longrightarrow> db_waits d' = db_waits d \<Longrightarrow> wait_step d d'"

inductive wait_reachable :: "db \<Rightarrow> bool" where
  migrated: "db_groups d = [] \<Longrightarrow> db_waits d = [] \<Longrightarrow> wait_reachable d"
| step: "wait_reachable d \<Longrightarrow> wait_step d d' \<Longrightarrow> wait_reachable d'"

inductive_cases wait_stepE: "wait_step d d'"
inductive_simps wait_reachable_simps: "wait_reachable d"

lemma wait_step_inv:
  assumes "wait_step d d'" "wait_inv d"
  shows "wait_inv d'"
  using assms
proof (induction rule: wait_step.induct)
  case settle
  then show ?case by (blast intro: settle_job_inv)
next
  case continue
  then show ?case by (blast intro: continue_job_inv)
next
  case enter
  then show ?case by (blast intro: enter_wait_inv)
next
  case (sweep_lost busy d res''' d')
  then show ?case using sweep_lost_result [of d busy] sweep_statements_inv(1) [of d busy] by simp
next
  case sweep_wake
  then show ?case by (rule sweep_statements_inv)
next
  case sweep_drop
  then show ?case by (rule sweep_statements_inv)
next
  case (elsewhere d' d)
  then show ?case using wait_inv_cong by blast
qed

lemma wait_reachable_inv: "wait_reachable d \<Longrightarrow> wait_inv d"
proof (induction rule: wait_reachable.induct)
  case (migrated d)
  then show ?case by (simp add: wait_inv_def)
qed (rule wait_step_inv)

text \<open>A sweep that nothing interrupts is three steps.\<close>

lemma sweep_is_steps:
  assumes "wait_inv d" "sweep_waits busy d = (r, d')"
  shows "wait_step\<^sup>*\<^sup>* d d'"
proof -
  let ?d1 = "lost_db busy d"
  have "wait_step d ?d1" by (rule wait_step.sweep_lost [OF sweep_lost_result [OF assms(1)]])
  moreover have "wait_step ?d1 (wake_swallowed ?d1)" by (rule wait_step.sweep_wake)
  moreover have "wait_step (wake_swallowed ?d1) d'"
    using assms wait_step.sweep_drop by (auto simp: sweep_waits_result swept_db_def)
  ultimately show ?thesis by (meson rtranclp.intros)
qed

text \<open>A statement that keeps the wait tables is one step.\<close>

lemma keeps_is_step: "keeps_wait_tables m \<Longrightarrow> wait_step d (snd (m d))"
  by (rule wait_step.elsewhere) (auto simp: keeps_wait_tables_def)

text \<open>
  C1 Whatever the interleaving of parents, children, continuations, sweeps and unrelated
  statements, a group's \<open>remaining\<close> is exactly the number of its children without a result.
  So the check on the column never fails: settling a job and sweeping never raise an error.
\<close>

theorem wait_counts_exact:
  assumes "wait_reachable d"
  shows "list_all (\<lambda>g. gr_remaining g = int (length (pending_waits d (group_key g)))) (db_groups d) \<and>
    is_ok (fst (settle_job h s d)) \<and> is_ok (fst (sweep_waits busy d))"
proof -
  from assms have inv: "wait_inv d" by (rule wait_reachable_inv)
  then show ?thesis
    by (auto simp: settle_job_result sweep_waits_result list_all_iff wait_inv_def split: option.split)
qed

text \<open>A parent that waits for the jobs 21 and 22, and the first child's attempt.\<close>

definition sample_wait :: wait_call where
  "sample_wait = \<lparr>wc_id = ''w'', wc_count = 2, wc_timeout = Some 1000, wc_suspended = False\<rparr>"

definition sample_waiting :: db where
  "sample_waiting = snd (enter_wait (Inr (Some (0 :: nat))) (\<lambda>_. tx_return [Some 21, Some 22])
     (helpers_of sample_job) sample_wait sample_db)"

lemma sample_waiting_reachable: "wait_reachable sample_waiting"
proof (rule wait_reachable.step)
  show "wait_reachable sample_db" by (rule wait_reachable.migrated) simp_all
  show "wait_step sample_db sample_waiting"
    unfolding sample_waiting_def
    by (rule wait_step.enter [OF _ surjective_pairing])
       (simp add: keeps_wait_tables_def tx_simps)
qed

theorem wait_counts_exact_witness:
  "length (db_groups sample_waiting) = 1 \<and>
   list_all (\<lambda>g. gr_remaining g = int (length (pending_waits sample_waiting (group_key g))))
     (db_groups sample_waiting) \<and>
   is_ok (fst (settle_job (helpers_of sample_job)
     \<lparr>st_outcome = None, st_report = Some (ReportOk None), st_row = RowDelete\<rparr> sample_waiting)) \<and>
   is_ok (fst (sweep_waits (\<lambda>_. False) sample_waiting))"
proof -
  have "length (db_groups sample_waiting) = 1" by code_simp
  with wait_counts_exact [OF sample_waiting_reachable] show ?thesis by blast
qed

section \<open>Waking the parent\<close>

text \<open>
  C3 No wakeup is lost on a report: when settling a child brings a group of any parent to zero
  unreported children, that parent's job is due at once in the very same statement, whatever
  its run time was.
\<close>

theorem last_report_wakes_parent:
  assumes "wait_inv d" and "settle_job h s d = (Inr True, d')"
    and "g \<in> set (db_groups d')" and "gr_remaining g = 0"
    and "list_all (\<lambda>g0. group_key g0 = group_key g \<longrightarrow> gr_remaining g0 \<noteq> 0) (db_groups d)"
    and "j \<in> set (db_jobs d')" and "jr_id j = gr_parent g"
  shows "jr_run_at j \<le> db_now d"
proof -
  obtain r where r: "d' = settled_db h s r d"
    using assms(1,2) by (auto simp: settle_job_result split: option.splits)
  let ?d1 = "record_outcome (st_outcome s) r d"
  show ?thesis
  proof (cases "st_report s")
    case None
    with assms r have False by (auto simp: settled_db_def report_db_def list_all_iff)
    then show ?thesis ..
  next
    case (Some rep)
    let ?d2 = "report_db (st_report s) (jr_id r) ?d1"
    have g: "g \<in> set (db_groups ?d2)" using assms(3) by (simp add: r settled_db_def)
    have "\<exists>k\<in>set (db_jobs ?d2). jr_id k = jr_id j \<and> jr_run_at k = jr_run_at j"
      using assms(6) unfolding r settled_db_def settle_own_row_def
      by (auto simp: set_update_where set_delete_where split: settle_row.splits)
    then obtain k where "k \<in> set (db_jobs ?d2)" "jr_id k = gr_parent g" "jr_run_at k = jr_run_at j"
      using assms(7) by auto
    with g assms(4,5) Some show ?thesis
      unfolding report_db_def
      by (auto simp: list_all_iff dest: after_reports_wakes [of g _ ?d1])
  qed
qed

text \<open>Job 7 waits, unlocked and until its deadline, for its last child, the locked job 21.\<close>

definition sample_child :: job_row where
  "sample_child = sample_job\<lparr>jr_id := 21, jr_task := ''child''\<rparr>"

definition sample_last_child :: db where
  "sample_last_child = (empty_db 9000)\<lparr>
     db_jobs := [sample_job\<lparr>jr_locked_at := None, jr_locked_by := None, jr_run_at := 70000\<rparr>, sample_child],
     db_groups := [\<lparr>gr_parent = 7, gr_wait = ''w'', gr_remaining = 1, gr_deadline = Some 70000,
                    gr_created_at = 0\<rparr>],
     db_waits := [\<lparr>wr_parent = 7, wr_wait = ''w'', wr_idx = 0, wr_child = 21, wr_result = None,
                   wr_finished_at = None\<rparr>]\<rparr>"

definition sample_report :: settle where
  "sample_report = \<lparr>st_outcome = None, st_report = Some (ReportOk None), st_row = RowDelete\<rparr>"

lemma sample_last_child_inv: "wait_inv sample_last_child" "jobs_inv sample_last_child"
  by (code_simp+)

theorem last_report_wakes_parent_witness:
  "\<exists>d' g j. settle_job (helpers_of sample_child) sample_report sample_last_child = (Inr True, d') \<and>
     g \<in> set (db_groups d') \<and> gr_remaining g = 0 \<and> j \<in> set (db_jobs d') \<and> jr_id j = gr_parent g \<and>
     jr_run_at j \<le> 9000"
proof -
  let ?r = "settle_job (helpers_of sample_child) sample_report sample_last_child"
  let ?d = "snd ?r" let ?g = "hd (db_groups ?d)" let ?j = "hd (db_jobs ?d)"
  have eq: "?r = (Inr True, ?d)" by code_simp
  have mem: "?g \<in> set (db_groups ?d)" "?j \<in> set (db_jobs ?d)"
    and zero: "gr_remaining ?g = 0" and par: "jr_id ?j = gr_parent ?g"
    and before: "list_all (\<lambda>g0. group_key g0 = group_key ?g \<longrightarrow> gr_remaining g0 \<noteq> 0) (db_groups sample_last_child)"
    and now: "db_now sample_last_child = 9000"
    by (code_simp+)
  have "jr_run_at ?j \<le> db_now sample_last_child"
    by (rule last_report_wakes_parent [OF sample_last_child_inv(1) eq mem(1) zero before mem(2) par])
  with eq mem zero par now show ?thesis by metis
qed

section \<open>Entering a wait\<close>

text \<open>
  A replay enqueues nothing: when the group of this wait exists, neither the preparation nor
  the execution of the enqueue statement has any influence on the result or on the database.
\<close>

theorem enter_wait_replay:
  assumes "find_group h c d = Some g"
  shows "enter_wait prepare exec h c d = enter_wait prepare' exec' h c d"
  using assms by (simp add: enter_wait_def transaction_def tx_bind_def tx_return_def)

theorem enter_wait_replay_witness:
  "enter_wait (Inr (Some (0 :: nat))) (\<lambda>_. tx_return [Some 21, Some 22]) (helpers_of sample_job) sample_wait sample_waiting
   = enter_wait (Inl DatabaseUnreachableError) (\<lambda>_. tx_return []) (helpers_of sample_job) sample_wait sample_waiting"
proof -
  have "find_group (helpers_of sample_job) sample_wait sample_waiting = Some (hd (db_groups sample_waiting))"
    by code_simp
  then show ?thesis by (rule enter_wait_replay)
qed

lemma finish_wait_success:
  fixes b :: bool and i :: string
  assumes "jobs_inv d" "owned_row h d = Some r" "is_payload_envelope (jr_payload r)"
  defines "j \<equiv> wait_checkpoint b (group_rows (h_id h, i) d)"
  shows "\<exists>d' r'. finish_wait h i b d = (Inr j, d') \<and>
    owned_row h d' = Some r' \<and> jr_payload r' = patch_step i (StepOutput j) (jr_payload r) \<and>
    db_groups d' = delete_where (\<lambda>g. group_key g = (h_id h, i)) (db_groups d)"
proof -
  obtain d1 where d1: "write_checkpoint h i (StepOutput j) d = (Inr (), d1)"
      "owned_row h d1 = Some (r\<lparr>jr_payload := patch_step i (StepOutput j) (jr_payload r), jr_updated_at := db_now d\<rparr>)"
      "db_groups d1 = db_groups d"
    using patch_envelope_success [OF assms(1-3), of "patch_step i (StepOutput j)"]
    unfolding write_checkpoint_def by blast
  let ?d2 = "delete_groups (\<lambda>g. group_key g = (h_id h, i)) d1"
  have "finish_wait h i b d = (Inr j, ?d2)"
    unfolding finish_wait_def Let_def j_def [symmetric] by (simp add: tx_simps d1)
  moreover have "owned_row h ?d2 = owned_row h d1"
    by (simp add: owned_row_def delete_groups_def)
  ultimately show ?thesis
    by (simp add: d1 delete_groups_def)
qed

text \<open>
  C7 A wait finishes exactly when it can: on a replay by the attempt that holds its job, the
  call finishes when every child has reported or the deadline has passed, and suspends
  otherwise. Finishing stores the results, or the children still pending after the deadline, as
  the wait's checkpoint and deletes the group; the step cache then holds them.
\<close>

theorem enter_wait_outcome:
  assumes "wait_inv d" and "jobs_inv d" and "owned_row h d = Some r"
    and "extract_step_cache (jr_payload r) = Inr cache" and "find_group h c d = Some g"
  defines "pending \<equiv> pending_waits d (h_id h, wc_id c)"
    and "j \<equiv> wait_checkpoint (pending_waits d (h_id h, wc_id c) = []) (group_rows (h_id h, wc_id c) d)"
  shows "if pending = [] \<or> (\<exists>t. gr_deadline g = Some t \<and> t \<le> db_now d)
    then \<exists>d' r' cache'. enter_wait prepare exec h c d = (Inr (WaitFinished j), d') \<and>
      owned_row h d' = Some r' \<and> extract_step_cache (jr_payload r') = Inr cache' \<and>
      map_of cache' = (map_of cache)(wc_id c \<mapsto> StepOutput j) \<and> find_group h c d' = None
    else enter_wait prepare exec h c d = (Inr WaitSuspended, suspend h c (gr_deadline g) d)"
proof -
  have g: "g \<in> set (db_groups d)" "group_key g = (h_id h, wc_id c)"
    using find_row_Some [OF assms(5)[unfolded find_group_def]] by auto
  then have rem: "gr_remaining g = int (length pending)"
    using assms(1) unfolding wait_inv_def pending_def by metis
  have env: "is_payload_envelope (jr_payload r)"
    using assms(4) by (auto simp: extract_step_cache_def assert_payload_envelope_def res_simps)
  let ?b = "pending = []"
  have enter: "enter_wait prepare exec h c d = transaction (\<lambda>d.
      if ?b \<or> group_expired g d
      then tx_bind (finish_wait h (wc_id c) ?b) (\<lambda>j. tx_return (WaitFinished j)) d
      else (Inr WaitSuspended, suspend h c (gr_deadline g) d)) d"
    by (simp add: enter_wait_def transaction_def tx_bind_def tx_return_def assms(3,5) rem)
  have expired: "(\<exists>t. gr_deadline g = Some t \<and> t \<le> db_now d) = group_expired g d"
    by (simp add: group_expired_def split: option.split)
  show ?thesis
  proof (cases "?b \<or> group_expired g d")
    case True
    obtain d' r' where f: "finish_wait h (wc_id c) ?b d = (Inr j, d')" "owned_row h d' = Some r'"
        "jr_payload r' = patch_step (wc_id c) (StepOutput j) (jr_payload r)"
        "db_groups d' = delete_where (\<lambda>g. group_key g = (h_id h, wc_id c)) (db_groups d)"
      using finish_wait_success [OF assms(2,3) env, of "wc_id c" ?b]
      unfolding j_def pending_def by blast
    have "find_group h c d' = None"
      unfolding find_group_def find_row_None f(4) set_delete_where by blast
    moreover obtain cache' where "extract_step_cache (jr_payload r') = Inr cache'"
        "map_of cache' = (map_of cache)(wc_id c \<mapsto> StepOutput j)"
      using step_cache_after_patch [OF assms(4)] f(3) by metis
    ultimately show ?thesis
      using True f by (auto simp: expired enter transaction_def tx_simps)
  next
    case False
    then show ?thesis by (simp add: expired enter transaction_def)
  qed
qed

text \<open>The same wait past its deadline, both children unfinished.\<close>

theorem enter_wait_outcome_witness:
  "\<exists>j d' r' cache'. enter_wait (Inr (Some (0 :: nat))) (\<lambda>_. tx_return []) (helpers_of sample_job) sample_wait
      (sample_waiting\<lparr>db_now := 2000000\<rparr>) = (Inr (WaitFinished j), d') \<and>
    owned_row (helpers_of sample_job) d' = Some r' \<and> extract_step_cache (jr_payload r') = Inr cache' \<and>
    map_of cache' = [''w'' \<mapsto> StepOutput (JObj [(''timedOut'', JArr [JStr ''21'', JStr ''22''])])] \<and>
    find_group (helpers_of sample_job) sample_wait d' = None"
proof -
  let ?h = "helpers_of sample_job" let ?d = "sample_waiting\<lparr>db_now := 2000000\<rparr>"
  let ?r = "hd (db_jobs ?d)" let ?g = "hd (db_groups ?d)"
  have "wait_inv ?d" "jobs_inv ?d" and owned: "owned_row ?h ?d = Some ?r"
    and cache: "extract_step_cache (jr_payload ?r) = Inr []" and grp: "find_group ?h sample_wait ?d = Some ?g"
    by (code_simp+)
  moreover have "group_expired ?g ?d" "wc_id sample_wait = ''w''"
      "wait_checkpoint (pending_waits ?d (h_id ?h, ''w'') = []) (group_rows (h_id ?h, ''w'') ?d) =
       JObj [(''timedOut'', JArr [JStr ''21'', JStr ''22''])]"
    by (code_simp+)
  ultimately show ?thesis
    using enter_wait_outcome [of ?d ?h ?r "[]" sample_wait ?g "Inr (Some 0)" "\<lambda>_. tx_return []"]
    by (auto simp: group_expired_def split: option.splits)
qed

section \<open>Suspending and sweeping\<close>



text \<open>
  C4 What a sweep leaves behind: every group has its parent's job; a parent whose children have
  all reported is due at once unless it is locked or out of attempts (its wakeup may have been
  swallowed by a late failure update); and a wait without a result is either held by another
  transaction or its child is still alive.
\<close>

theorem sweep_leaves_no_stuck_wait:
  assumes "wait_inv d" and "sweep_waits busy d = (Inr lost, d')"
  shows "list_all (\<lambda>g. list_ex (\<lambda>j. jr_id j = gr_parent g) (db_jobs d') \<and>
      (gr_remaining g = 0 \<longrightarrow> list_all (\<lambda>j. jr_id j = gr_parent g \<longrightarrow>
        jr_locked_at j \<noteq> None \<or> jr_attempts j \<ge> jr_max_attempts j \<or> jr_run_at j \<le> db_now d) (db_jobs d')))
      (db_groups d') \<and>
    list_all (\<lambda>w. wr_result w = None \<longrightarrow> busy w \<or> lost_report d (wr_child w) = None) (db_waits d')"
proof -
  let ?f = "\<lambda>w. if busy w then None else lost_report d (wr_child w)"
  let ?d1 = "after_reports ?f d"
  have d': "d' = delete_groups (\<lambda>g. \<not> list_ex (\<lambda>r. jr_id r = gr_parent g) (db_jobs (wake_swallowed ?d1)))
      (wake_swallowed ?d1)"
    using assms sweep_waits_result [OF assms(1), of busy] by (simp add: swept_db_def lost_db_def drop_orphan_groups_def)
  have jobs: "db_jobs d' = db_jobs (wake_swallowed ?d1)" by (simp add: d' delete_groups_def)
  have groups: "set (db_groups d') = {g \<in> set (db_groups ?d1).
      list_ex (\<lambda>r. jr_id r = gr_parent g) (db_jobs (wake_swallowed ?d1))}"
    by (simp add: d' delete_groups_def set_delete_where)
  have due: "jr_locked_at j \<noteq> None \<or> jr_attempts j \<ge> jr_max_attempts j \<or> jr_run_at j \<le> db_now d"
    if "g \<in> set (db_groups ?d1)" "gr_remaining g = 0" "j \<in> set (db_jobs (wake_swallowed ?d1))"
      "jr_id j = gr_parent g" for g j
    using that by (auto simp: wake_swallowed_def set_update_where list_ex_iff split: if_splits)
  have "busy w \<or> lost_report d (wr_child w) = None"
    if "w \<in> set (db_waits d')" "wr_result w = None" for w
  proof -
    from that(1) have "w \<in> set (db_waits ?d1)"
      by (simp add: d' delete_groups_def set_delete_where)
    with that(2) show ?thesis
      by (auto simp: after_reports_def set_update_where reports_row_def split: if_splits)
  qed
  then show ?thesis
    using due by (auto simp: list_all_iff groups jobs)
qed

theorem sweep_leaves_no_stuck_wait_witness:
  "\<exists>lost d'. sweep_waits (\<lambda>_. False) sample_waiting = (Inr lost, d') \<and> lost = [21, 22] \<and>
    list_all (\<lambda>w. wr_result w = None \<longrightarrow> lost_report sample_waiting (wr_child w) = None) (db_waits d')"
proof -
  have inv: "wait_inv sample_waiting" by (rule wait_reachable_inv [OF sample_waiting_reachable])
  have "sweep_waits (\<lambda>_. False) sample_waiting = (Inr [21, 22], snd (sweep_waits (\<lambda>_. False) sample_waiting))"
    by code_simp
  with sweep_leaves_no_stuck_wait [OF inv this] show ?thesis by fastforce
qed

section \<open>Results are final and in order\<close>

lemma after_reports_final:
  "w \<in> set (db_waits d) \<Longrightarrow> wr_result w \<noteq> None \<Longrightarrow> w \<in> set (db_waits (after_reports f d))"
  by (force simp: after_reports_def set_update_where reports_row_def)

lemma delete_groups_final:
  "w \<in> set (db_waits d) \<Longrightarrow>
   w \<in> set (db_waits (delete_groups p d)) \<or> wait_key w \<notin> group_key ` set (db_groups (delete_groups p d))"
  if "wait_inv d"
proof -
  assume w: "w \<in> set (db_waits d)"
  show ?thesis
  proof (cases "list_ex (\<lambda>g. p g \<and> group_key g = wait_key w) (db_groups d)")
    case False
    with w show ?thesis by (simp add: delete_groups_def set_delete_where)
  next
    case True
    then obtain g where g: "g \<in> set (db_groups d)" "p g" "group_key g = wait_key w"
      unfolding list_ex_iff by blast
    have "g' = g" if "g' \<in> set (db_groups d)" "group_key g' = wait_key w" for g'
    proof -
      have "inj_on group_key (set (db_groups d))"
        using \<open>wait_inv d\<close> by (simp add: wait_inv_alt distinct_map)
      moreover have "group_key g' = group_key g" using that(2) g(3) by argo
      ultimately show ?thesis using that(1) g(1) by (rule inj_onD)
    qed
    then have "wait_key w \<notin> group_key ` set (db_groups (delete_groups p d))"
      using g(2) unfolding delete_groups_def by (auto simp: set_delete_where)
    then show ?thesis ..
  qed
qed

lemma settled_db_final:
  "w \<in> set (db_waits d) \<Longrightarrow> wr_result w \<noteq> None \<Longrightarrow> w \<in> set (db_waits (settled_db h s r d))"
  by (auto simp: settled_db_def report_db_def split: option.split intro: after_reports_final)

lemma move_waits_final:
  "w \<in> set (db_waits d) \<Longrightarrow> wr_result w \<noteq> None \<Longrightarrow> w \<in> set (db_waits (move_waits old new d))"
  by (force simp: move_waits_def set_update_where)

lemma continue_job_final:
  assumes "wait_inv d" "\<forall>a. keeps_wait_tables (aj a)" "continue_job aj h t tp rec pr d = (res, d')"
    and w: "w \<in> set (db_waits d)" "wr_result w \<noteq> None"
  shows "w \<in> set (db_waits d')"
proof (cases res)
  case (Inl e)
  then show ?thesis using assms continued.atomic by blast
next
  case (Inr i)
  from assms(3)[unfolded Inr] show ?thesis
  proof (rule continue_job_success [OF assms(1,2)])
    fix r d1
    assume waits: "db_waits d1 = db_waits d"
      and plain: "\<not> rec \<Longrightarrow> d' = continued_db h r i d1"
      and recorded: "rec \<Longrightarrow> \<exists>r'. owned_row h (continued_db h r i d1) = Some r' \<and>
        d' = settled_db h (continued_settle i) r' (continued_db h r i d1)"
    have "w \<in> set (db_waits (exhaust_owned h d1))" using w waits by (simp add: exhaust_owned_def)
    then have "w \<in> set (db_waits (continued_db h r i d1))"
      unfolding continued_db_def using move_waits_final [OF _ w(2)] by simp
    with plain recorded show ?thesis
      using settled_db_final [OF _ w(2)] by blast
  qed
qed

lemma enter_wait_final:
  assumes "wait_inv d" and "\<forall>p :: nat. keeps_wait_tables (exec p)"
    and "enter_wait prepare exec h c d = (res, d')"
    and w: "w \<in> set (db_waits d)" "wr_result w \<noteq> None"
  shows "w \<in> set (db_waits d') \<or> wait_key w \<notin> group_key ` set (db_groups d')"
proof (cases res)
  case (Inl e)
  then show ?thesis using assms entered.atomic by blast
next
  case (Inr out)
  from assms(3)[unfolded Inr] show ?thesis
  proof (rule enter_wait_success [OF assms(1,2)])
    fix d1 b j
    assume d1: "wait_inv d1" "set (db_waits d) \<subseteq> set (db_waits d1)"
      and "finish_wait h (wc_id c) b d1 = (Inr j, d')"
    then obtain d2 where d2: "write_checkpoint h (wc_id c) (StepOutput j) d1 = (Inr (), d2)"
        "d' = delete_groups (\<lambda>g. group_key g = (h_id h, wc_id c)) d2"
      unfolding finish_wait_def Let_def tx_bind_Inr by (auto simp: tx_simps)
    have tabs: "db_groups d2 = db_groups d1" "db_waits d2 = db_waits d1"
      using keeps_wait_tablesD [OF keeps_checkpoint d2(1)] by auto
    have "wait_inv d2" using d1 wait_inv_cong [OF tabs] by simp
    with d1 w tabs show ?thesis
      unfolding d2(2) by (intro delete_groups_final) auto
  next
    fix d1 t
    assume "set (db_waits d) \<subseteq> set (db_waits d1)" "d' = suspend h c t d1 \<or> d' = d1"
    with w show ?thesis by auto
  qed
qed

text \<open>
  C2 A child's result is final: along any step of the protocol a wait that has a result keeps it,
  and its child, unchanged until its whole group is deleted.
\<close>

theorem results_are_final:
  assumes "wait_inv d" and "wait_step d d'" and "w \<in> set (db_waits d)" and "wr_result w \<noteq> None"
  shows "w \<in> set (db_waits d') \<or> wait_key w \<notin> group_key ` set (db_groups d')"
  using assms(2,1,3,4)
proof (induction rule: wait_step.induct)
  case (settle h s d res d')
  then show ?case
    using settled_db_final [of w d h s] by (auto simp: settle_job_result split: option.splits)
next
  case (continue aj h t tp rec pr d res d')
  then show ?case by (blast intro: continue_job_final)
next
  case (enter exec prepare h c d res d')
  then show ?case by (blast dest: enter_wait_final)
next
  case (sweep_lost busy d res d')
  then show ?case
    by (auto simp: sweep_lost_result lost_db_def intro: after_reports_final)
next
  case (sweep_drop d)
  show ?case unfolding drop_orphan_groups_def by (rule delete_groups_final [OF sweep_drop(1,2)])
qed auto

theorem results_are_final_witness:
  "\<exists>w. w \<in> set (db_waits (lost_db (\<lambda>_. False) sample_waiting)) \<and> wr_result w \<noteq> None \<and>
    (w \<in> set (db_waits (drop_orphan_groups (lost_db (\<lambda>_. False) sample_waiting))) \<or>
     wait_key w \<notin> group_key ` set (db_groups (drop_orphan_groups (lost_db (\<lambda>_. False) sample_waiting))))"
proof -
  let ?d = "lost_db (\<lambda>_. False) sample_waiting" let ?w = "hd (db_waits ?d)"
  have inv: "wait_inv ?d"
    by (rule sweep_statements_inv [OF wait_reachable_inv [OF sample_waiting_reachable]])
  have w: "?w \<in> set (db_waits ?d)" "wr_result ?w \<noteq> None"
    by (code_simp+)
  from results_are_final [OF inv wait_step.sweep_drop w] w show ?thesis by blast
qed

text \<open>The result of one child as the parent reads it.\<close>

definition result_of_row :: "'h queue \<Rightarrow> wait_row \<Rightarrow> wait_result res" where
  "result_of_row q w =
     (let i = show_nat (wr_child w) in
      case wr_result w of
        Some (ReportOk out) \<Rightarrow> bind_res (parse_output q (value_of out)) (\<lambda>x. Inr (WaitOk i x))
      | Some (ReportFailed n m) \<Rightarrow> Inr (WaitFailed i (ChildJobFailedError i (q_name q) n m))
      | None \<Rightarrow> Inl (PlainTypeError ''Cannot read properties of undefined''))"

lemma decode_wait_result: "decode_report q (wait_result_json w) = result_of_row q w"
proof (cases "wr_result w")
  case None
  then show ?thesis
    by (simp add: decode_report_def wait_result_json_def result_of_row_def json_get_def)
next
  case (Some rep)
  then show ?thesis
    by (cases rep; cases "case rep of ReportOk v \<Rightarrow> v | _ \<Rightarrow> None")
       (simp_all add: decode_report_def wait_result_json_def result_of_row_def json_get_def
          json_text_def Let_def)
qed

text \<open>
  C12 The parent reads back what its children reported, in input order: decoding a complete
  checkpoint gives each row's outcome in the order of the rows, with the output passed through
  the schema and a failure as the child's error; decoding a timed-out one throws the timeout
  with exactly the children that had not reported.
\<close>

theorem wait_checkpoint_roundtrip:
  "decode_wait_checkpoint i q (Some (wait_checkpoint True rows)) = map_res (result_of_row q) rows \<and>
   decode_wait_checkpoint i q (Some (wait_checkpoint False rows)) =
     Inl (WaitTimeoutError i (map (show_nat \<circ> wr_child) (filter (\<lambda>w. wr_result w = None) rows)))"
proof
  have "map_res (decode_report q) (map wait_result_json rows) = map_res (result_of_row q) rows"
    by (induction rows) (simp_all add: decode_wait_result)
  then show "decode_wait_checkpoint i q (Some (wait_checkpoint True rows)) = map_res (result_of_row q) rows"
    by (simp add: decode_wait_checkpoint_def wait_checkpoint_def)
  have "map (json_text \<circ> Some) [JStr (show_nat (wr_child w)). w \<leftarrow> rows, wr_result w = None] =
      map (show_nat \<circ> wr_child) (filter (\<lambda>w. wr_result w = None) rows)"
    by (induction rows) (simp_all add: json_text_def)
  then show "decode_wait_checkpoint i q (Some (wait_checkpoint False rows)) =
     Inl (WaitTimeoutError i (map (show_nat \<circ> wr_child) (filter (\<lambda>w. wr_result w = None) rows)))"
    by (simp add: decode_wait_checkpoint_def wait_checkpoint_def)
qed

end
