(* ===== verification/Steps.thy ===== *)
theory Steps
  imports WaitProtocol
begin

text \<open>
  Checkpointed steps (\<^verbatim>\<open>src/src/steps.ts\<close>): the runner over its store, the two stores,
  and the sharing of one execution between concurrent calls of the same id. Step functions and
  codecs are the caller's: they are parameters, over any world they may change.
\<close>

section \<open>Serialization\<close>

definition serialize_step_output :: "string \<Rightarrow> jsv \<Rightarrow> json option res" where
  "serialize_step_output sid v =
     (case bind_res (assert_json_value (fst v) (snd v) True) (\<lambda>_. json_snapshot (fst v) (snd v)) of
        Inl _ \<Rightarrow> Inl (StepSerializationError sid)
      | Inr out \<Rightarrow> Inr out)"

lemma serialize_value_of [simp]: "serialize_step_output sid (value_of out) = Inr out"
proof (cases out)
  case None
  then show ?thesis
    by (simp add: serialize_step_output_def value_of_def assert_json_value_def json_snapshot_def)
next
  case (Some j)
  obtain h v where hv: "alloc [] j = (h, v)" by (cases "alloc [] j")
  with alloc_represents(1) [OF hv] have rep: "represents h v j" by auto
  then have "v \<noteq> GUndef" by (rule represents_not_undef)
  with rep Some hv show ?thesis
    using visit_iff [of h v]
    by (auto simp: serialize_step_output_def value_of_def assert_json_value_def json_snapshot_def
        stringify_represents)
qed

definition entry_value :: "step_entry \<Rightarrow> json option" where
  "entry_value e = (case e of StepVoid \<Rightarrow> None | StepOutput j \<Rightarrow> Some j)"

text \<open>\<open>entry()\<close>: the checkpoint of an output.\<close>

fun entry_of_output :: "json option \<Rightarrow> step_entry" where
  "entry_of_output None = StepVoid"
| "entry_of_output (Some j) = StepOutput j"

lemma entry_value_of_output [simp]: "entry_value (entry_of_output out) = out"
  by (cases out) (simp_all add: entry_value_def)

section \<open>The runner\<close>

text \<open>A codec encodes to a value to be checkpointed and decodes a checkpointed one.\<close>

type_synonym codec = "(jsv \<Rightarrow> jsv res) \<times> (jsv \<Rightarrow> jsv res)"

definition decode_output :: "codec option \<Rightarrow> string \<Rightarrow> json option \<Rightarrow> jsv res" where
  "decode_output codec sid out =
     bind_res (serialize_step_output sid (value_of out)) (\<lambda>o'.
       case codec of None \<Rightarrow> Inr (value_of o') | Some (_, dec) \<Rightarrow> dec (value_of o'))"

definition encode_output :: "codec option \<Rightarrow> string \<Rightarrow> jsv \<Rightarrow> json option res" where
  "encode_output codec sid v =
     bind_res (case codec of None \<Rightarrow> Inr v | Some (enc, _) \<Rightarrow> enc v) (\<lambda>e.
     bind_res (serialize_step_output sid e) (\<lambda>out.
     bind_res (if codec = None then Inr v else decode_output codec sid out) (\<lambda>_. Inr out)))"

text \<open>
  \<open>assertActive\<close> (an error once the attempt may start nothing more) and the check of the id.
\<close>

definition begin_step :: "js_error option \<Rightarrow> string \<Rightarrow> unit res" where
  "begin_step inactive sid =
     (case inactive of
        Some e \<Rightarrow> Inl e
      | None \<Rightarrow> guard_res (sid \<noteq> []) (NonRetriableError ''Step id must be a non-empty string''))"

text \<open>
  \<open>run\<close> for a call that finds no execution pending: over a store \<open>'s\<close> with its \<open>get\<close> and
  \<open>set\<close>, and a world \<open>'w\<close> that the step function changes.
\<close>

definition step_run ::
  "('s \<Rightarrow> string \<Rightarrow> step_entry option) \<Rightarrow> (string \<Rightarrow> json option \<Rightarrow> 's \<Rightarrow> unit res \<times> 's) \<Rightarrow>
   js_error option \<Rightarrow> codec option \<Rightarrow> string \<Rightarrow> ('w \<Rightarrow> jsv res \<times> 'w) \<Rightarrow> 's \<times> 'w \<Rightarrow> jsv res \<times> 's \<times> 'w" where
  "step_run get put inactive codec sid fn sw =
     (let (s, w) = sw in
      case begin_step inactive sid of
        Inl e \<Rightarrow> (Inl e, s, w)
      | Inr _ \<Rightarrow>
          (case get s sid of
             Some e \<Rightarrow> (decode_output codec sid (entry_value e), s, w)
           | None \<Rightarrow>
               (case fn w of
                  (Inl e, w') \<Rightarrow> (Inl e, s, w')
                | (Inr v, w') \<Rightarrow>
                    (case encode_output codec sid v of
                       Inl e \<Rightarrow> (Inl e, s, w')
                     | Inr out \<Rightarrow>
                         (case put sid out s of
                            (Inl e, s') \<Rightarrow> (Inl e, s', w')
                          | (Inr _, s') \<Rightarrow> (decode_output codec sid out, s', w'))))))"

lemma step_run_cases:
  assumes "step_run get put inactive codec sid fn (s, w) = (res, s', w')"
  obtains
    (refused) e where "begin_step inactive sid = Inl e" "res = Inl e" "s' = s" "w' = w"
  | (cached) e where "begin_step inactive sid = Inr ()" "get s sid = Some e"
      "res = decode_output codec sid (entry_value e)" "s' = s" "w' = w"
  | (failed) e where "get s sid = None" "fn w = (Inl e, w')" "res = Inl e" "s' = s"
  | (unserializable) v e where "get s sid = None" "fn w = (Inr v, w')" "encode_output codec sid v = Inl e"
      "res = Inl e" "s' = s"
  | (unstored) v out e where "get s sid = None" "fn w = (Inr v, w')" "encode_output codec sid v = Inr out"
      "put sid out s = (Inl e, s')" "res = Inl e"
  | (stored) v out where "begin_step inactive sid = Inr ()" "get s sid = None" "fn w = (Inr v, w')"
      "encode_output codec sid v = Inr out" "put sid out s = (Inr (), s')" "res = decode_output codec sid out"
proof (cases "begin_step inactive sid")
  case (Inl e)
  with assms show ?thesis by (intro refused [of e]) (simp_all add: step_run_def)
next
  case begun: (Inr u)
  show ?thesis
  proof (cases "get s sid")
    case (Some e)
    with assms begun show ?thesis by (intro cached [of e]) (simp_all add: step_run_def)
  next
    case None
    obtain r w1 where fn: "fn w = (r, w1)" by (cases "fn w")
    show ?thesis
    proof (cases r)
      case (Inl e)
      with assms begun None fn show ?thesis by (intro failed [of e]) (simp_all add: step_run_def)
    next
      case (Inr v)
      show ?thesis
      proof (cases "encode_output codec sid v")
        case (Inl e)
        with assms begun None fn \<open>r = Inr v\<close> show ?thesis
          by (intro unserializable [of v e]) (simp_all add: step_run_def)
      next
        case enc: (Inr out)
        obtain p s1 where put: "put sid out s = (p, s1)" by (cases "put sid out s")
        show ?thesis
        proof (cases p)
          case (Inl e)
          with assms begun None fn \<open>r = Inr v\<close> enc put show ?thesis
            by (intro unstored [of v out e]) (simp_all add: step_run_def)
        next
          case (Inr u')
          with assms begun None fn \<open>r = Inr v\<close> enc put show ?thesis
            by (intro stored [of v out]) (simp_all add: step_run_def)
        qed
      qed
    qed
  qed
qed

text \<open>
  \<open>triggerAndWait\<close>: the backend gives the checkpoint and whether it wrote it; \<open>remember\<close> caches
  a written one.
\<close>

definition check_wait_timeout :: "jsnum option \<Rightarrow> unit res" where
  "check_wait_timeout timeout =
     (case timeout of
        None \<Rightarrow> Inr ()
      | Some t \<Rightarrow> bind_res (assert_integer t ''Wait timeout'' 1 max_safe_integer) (\<lambda>_. Inr ()))"

definition step_wait ::
  "('s \<Rightarrow> string \<Rightarrow> step_entry option) \<Rightarrow> (string \<Rightarrow> json option \<Rightarrow> 's \<Rightarrow> unit res \<times> 's) \<Rightarrow>
   (string \<Rightarrow> json \<Rightarrow> 's \<Rightarrow> 's) \<Rightarrow> js_error option \<Rightarrow>
   (jsv list \<Rightarrow> 's \<times> 'w \<Rightarrow> (json \<times> bool) res \<times> 's \<times> 'w) option \<Rightarrow>
   string \<Rightarrow> 'h queue \<Rightarrow> jsv list \<Rightarrow> jsnum option \<Rightarrow> 's \<times> 'w \<Rightarrow> wait_result list res \<times> 's \<times> 'w" where
  "step_wait get put remember inactive backend sid q inputs timeout sw =
     (let (s, w) = sw in
      case bind_res (begin_step inactive sid) (\<lambda>_. check_wait_timeout timeout) of
        Inl e \<Rightarrow> (Inl e, s, w)
      | Inr _ \<Rightarrow>
          (case get s sid of
             Some e \<Rightarrow> (decode_wait_checkpoint sid q
                          (case e of StepVoid \<Rightarrow> Some JNull | StepOutput j \<Rightarrow> Some j), s, w)
           | None \<Rightarrow>
               if inputs = [] then (Inr [], s, w)
               else case backend of
                  None \<Rightarrow> (Inl (plain_error ''ctx.step.triggerAndWait is not available in this context''), s, w)
                | Some f \<Rightarrow>
                    (case f inputs (s, w) of
                       (Inl e, s', w') \<Rightarrow> (Inl e, s', w')
                     | (Inr (checkpoint, persisted), s', w') \<Rightarrow>
                         if persisted
                         then (decode_wait_checkpoint sid q (Some checkpoint), remember sid checkpoint s', w')
                         else (case put sid (Some checkpoint) s' of
                                 (Inl e, s'') \<Rightarrow> (Inl e, s'', w')
                               | (Inr _, s'') \<Rightarrow> (decode_wait_checkpoint sid q (Some checkpoint), s'', w')))))"

section \<open>What a store promises\<close>

text \<open>
  \<open>StepStore\<close>: a successful write is read back and leaves the other ids as they were; a failed
  one leaves all of them. The invariant is what the store needs of its state.
\<close>

locale step_store =
  fixes inv :: "'s \<Rightarrow> bool"
    and get :: "'s \<Rightarrow> string \<Rightarrow> step_entry option"
    and put :: "string \<Rightarrow> json option \<Rightarrow> 's \<Rightarrow> unit res \<times> 's"
  assumes put_ok: "inv s \<Longrightarrow> put sid out s = (Inr u, s') \<Longrightarrow>
      get s' = (get s)(sid \<mapsto> entry_of_output out) \<and> inv s'"
    and put_error: "inv s \<Longrightarrow> put sid out s = (Inl e, s') \<Longrightarrow> get s' = get s \<and> inv s'"
begin

lemma run_inv:
  assumes "inv s" "step_run get put inactive codec sid fn (s, w) = (res, s', w')"
  shows "inv s'"
  using assms(2) by (cases rule: step_run_cases) (use assms(1) put_ok put_error in blast)+

lemma run_keeps_others:
  assumes "inv s" "step_run get put inactive codec sid fn (s, w) = (res, s', w')" "get s k = Some e"
  shows "get s' k = Some e"
  using assms(2)
proof (cases rule: step_run_cases)
  case (unstored v out e')
  with assms(1,3) put_error show ?thesis by metis
next
  case (stored v out)
  with put_ok [OF assms(1) stored(5)] assms(3) show ?thesis by (cases "k = sid") auto
qed (use assms(3) in simp_all)

lemma run_checkpoints:
  assumes "inv s" "step_run get put inactive codec sid fn (s, w) = (Inr v, s', w')"
  shows "sid \<noteq> [] \<and> (\<exists>e. get s' sid = Some e \<and> decode_output codec sid (entry_value e) = Inr v)"
  using assms(2)
proof (cases rule: step_run_cases)
  case (stored v' out)
  with put_ok [OF assms(1) stored(5)] show ?thesis
    by (auto simp: begin_step_def split: option.splits)
qed (auto simp: begin_step_def split: option.splits)

lemma run_again:
  assumes "inv s" "step_run get put inactive codec sid fn (s, w) = (Inr v, s', w')"
  shows "step_run get put None codec sid fn' (s', w'') = (Inr v, s', w'')"
  using run_checkpoints [OF assms] by (auto simp: step_run_def begin_step_def)

lemma run_failed:
  assumes "inv s" "step_run get put inactive codec sid fn (s, w) = (Inl e, s', w')" "get s sid = None"
  shows "get s' = get s \<or> (\<exists>v out. fn w = (Inr v, w') \<and> get s' = (get s)(sid \<mapsto> entry_of_output out) \<and>
    decode_output codec sid out = Inl e)"
  using assms(2)
proof (cases rule: step_run_cases)
  case (unstored v out e')
  with put_error [OF assms(1)] show ?thesis by blast
next
  case (stored v out)
  with put_ok [OF assms(1) stored(5)] show ?thesis by auto
qed (use assms(3) in simp_all)

end

section \<open>The memory store\<close>

definition memory_get :: "(string \<times> step_entry) list \<Rightarrow> string \<Rightarrow> step_entry option" where
  "memory_get cache = map_of cache"

definition memory_put ::
  "string \<Rightarrow> json option \<Rightarrow> (string \<times> step_entry) list \<Rightarrow> unit res \<times> (string \<times> step_entry) list" where
  "memory_put sid out cache = (Inr (), AList.update sid (entry_of_output out) cache)"

interpretation memory: step_store "\<lambda>_. True" memory_get memory_put
  by unfold_locales (auto simp: memory_get_def memory_put_def update_conv')

section \<open>The PostgreSQL store\<close>

text \<open>
  The cache of the attempt and the database; a write is checkpointed in the job's envelope first
  and cached after. Writes are chained, so one runs at a time. A new attempt starts from the
  envelope it was given.
\<close>

record pg_store =
  pg_cache :: "(string \<times> step_entry) list"
  pg_db :: db

definition new_pg_store :: "json \<Rightarrow> db \<Rightarrow> pg_store res" where
  "new_pg_store raw_payload d =
     bind_res (extract_step_cache raw_payload) (\<lambda>cache. Inr \<lparr>pg_cache = cache, pg_db = d\<rparr>)"

definition pg_get :: "pg_store \<Rightarrow> string \<Rightarrow> step_entry option" where
  "pg_get s = map_of (pg_cache s)"

definition pg_put :: "job_helpers \<Rightarrow> string \<Rightarrow> json option \<Rightarrow> pg_store \<Rightarrow> unit res \<times> pg_store" where
  "pg_put h sid out s =
     (case write_checkpoint h sid (entry_of_output out) (pg_db s) of
        (Inl e, d') \<Rightarrow> (Inl e, s\<lparr>pg_db := d'\<rparr>)
      | (Inr _, d') \<Rightarrow> (Inr (), \<lparr>pg_cache = AList.update sid (entry_of_output out) (pg_cache s), pg_db = d'\<rparr>))"

definition pg_remember :: "string \<Rightarrow> json \<Rightarrow> pg_store \<Rightarrow> pg_store" where
  "pg_remember sid checkpoint s = s\<lparr>pg_cache := AList.update sid (StepOutput checkpoint) (pg_cache s)\<rparr>"

text \<open>
  What the cache holds is in the job's envelope, as long as the attempt owns its job.
\<close>

definition durable :: "job_helpers \<Rightarrow> pg_store \<Rightarrow> bool" where
  "durable h s \<longleftrightarrow> jobs_inv (pg_db s) \<and>
     (case owned_row h (pg_db s) of
        None \<Rightarrow> True
      | Some r \<Rightarrow> (case extract_step_cache (jr_payload r) of
            Inl _ \<Rightarrow> True
          | Inr cache \<Rightarrow> map_of cache = map_of (pg_cache s)))"

lemma patch_jobs_inv:
  assumes "jobs_inv d" "patch_envelope h f d = (res, d')"
  shows "jobs_inv d'"
proof -
  have "map jr_id (db_jobs d') = map jr_id (db_jobs d)"
    using assms(2) by (auto simp: patch_envelope_def update_where_def split: option.splits if_splits)
  with assms(1) show ?thesis by (simp add: jobs_inv_def)
qed

lemma durable_put:
  assumes "durable h s" "pg_put h sid out s = (Inr u, s')"
  shows "durable h s' \<and> pg_get s' = (pg_get s)(sid \<mapsto> entry_of_output out)"
proof -
  obtain d' where w: "write_checkpoint h sid (entry_of_output out) (pg_db s) = (Inr (), d')"
    and s': "s' = \<lparr>pg_cache = AList.update sid (entry_of_output out) (pg_cache s), pg_db = d'\<rparr>"
    using assms(2) by (auto simp: pg_put_def split: sum.splits prod.splits)
  have inv: "jobs_inv (pg_db s)" using assms(1) by (simp add: durable_def)
  with w have inv': "jobs_inv d'" unfolding write_checkpoint_def by (metis patch_jobs_inv)
  obtain r where r: "owned_row h (pg_db s) = Some r" and p: "patchable (jr_payload r)"
    using w by (auto simp: write_checkpoint_def patch_envelope_def split: option.splits if_splits)
  let ?r = "r\<lparr>jr_payload := patch_step sid (entry_of_output out) (jr_payload r), jr_updated_at := db_now (pg_db s)\<rparr>"
  have "owned_row h d' = Some ?r"
    using w r p owned_row_Some [OF r] unfolding write_checkpoint_def patch_envelope_def
    by (intro owned_row_update [OF inv r, of "\<lambda>s'. s'\<lparr>jr_payload := patch_step sid (entry_of_output out) (jr_payload r),
          jr_updated_at := db_now (pg_db s)\<rparr>"]) auto
  moreover have "case extract_step_cache (jr_payload ?r) of
      Inl _ \<Rightarrow> True | Inr cache \<Rightarrow> map_of cache = (map_of (pg_cache s))(sid \<mapsto> entry_of_output out)"
  proof (cases "extract_step_cache (jr_payload r)")
    case (Inr cache)
    with step_cache_after_patch [OF Inr, of sid "entry_of_output out"] assms(1) r show ?thesis
      by (auto simp: durable_def)
  next
    case (Inl e)
    then have "\<not> is_payload_envelope (jr_payload r)"
      by (auto simp: extract_step_cache_def assert_payload_envelope_def guard_res_def split: if_splits)
    moreover have "is_json_object (jr_payload r)" using p by (simp add: patchable_def)
    ultimately show ?thesis
      by (simp add: extract_step_cache_def assert_payload_envelope_def patch_step_def)
  qed
  ultimately show ?thesis
    using inv' by (simp add: durable_def s' pg_get_def update_conv' split: sum.splits)
qed

lemma durable_put_error:
  assumes "durable h s" "pg_put h sid out s = (Inl e, s')"
  shows "durable h s' \<and> pg_get s' = pg_get s"
proof -
  have "s' = s"
    using assms(2) checkpoint.atomic
    by (fastforce simp: pg_put_def split: sum.splits prod.splits)
  with assms(1) show ?thesis by simp
qed

interpretation pg: step_store "durable h" pg_get "pg_put h"
  using durable_put durable_put_error by unfold_locales blast+


definition sample_store :: pg_store where
  "sample_store = \<lparr>pg_cache = [], pg_db = sample_db\<rparr>"


lemma decode_plain [simp]: "decode_output None sid out = Inr (value_of out)"
  by (simp add: decode_output_def)

text \<open>
  A step that fails is not checkpointed: when a step without a codec throws, the store has what
  it had before, so the retry runs the step again, and no other step is affected.
\<close>

theorem failed_step_not_checkpointed:
  assumes "durable h s" and "pg_get s sid = None"
    and "step_run pg_get (pg_put h) inactive None sid fn (s, w) = (Inl e, s', w')"
  shows "pg_get s' = pg_get s"
  using pg.run_failed [OF assms(1,3,2)] by simp

theorem failed_step_not_checkpointed_witness:
  "pg_get (fst (snd (step_run pg_get (pg_put (helpers_of sample_job)) None None ''a''
      (\<lambda>n :: nat. (Inl DatabaseUnreachableError, Suc n)) (sample_store, 0)))) = pg_get sample_store"
proof -
  let ?run = "step_run pg_get (pg_put (helpers_of sample_job)) None None ''a''
      (\<lambda>n :: nat. (Inl DatabaseUnreachableError, Suc n)) (sample_store, 0)"
  have run: "?run = (Inl DatabaseUnreachableError, fst (snd ?run), snd (snd ?run))" by code_simp
  have "durable (helpers_of sample_job) sample_store" "pg_get sample_store ''a'' = None"
    by (simp_all add: durable_def sample_store_def pg_get_def)
  then show ?thesis by (rule failed_step_not_checkpointed) (rule run)
qed

section \<open>Concurrent calls\<close>

text \<open>
  The runner's map of pending executions: a call finds the id cached, joins its pending
  execution, or starts one; when an execution settles, its checkpoint is cached and every caller
  that waits for it gets the outcome through its own codec. The logs of started and failed
  executions are for the statements only.
\<close>

record step_pool =
  sp_cache :: "(string \<times> step_entry) list"
  sp_pending :: "(string \<times> (nat \<times> codec option) list) list"
  sp_started :: "string list"
  sp_failed :: "string list"
  sp_results :: "(nat \<times> jsv res) list"

definition new_pool :: "(string \<times> step_entry) list \<Rightarrow> step_pool" where
  "new_pool cache = \<lparr>sp_cache = cache, sp_pending = [], sp_started = [], sp_failed = [], sp_results = []\<rparr>"

definition pool_call ::
  "nat \<Rightarrow> codec option \<Rightarrow> js_error option \<Rightarrow> string \<Rightarrow> step_pool \<Rightarrow> step_pool" where
  "pool_call caller codec inactive sid p =
     (case begin_step inactive sid of
        Inl e \<Rightarrow> p\<lparr>sp_results := sp_results p @ [(caller, Inl e)]\<rparr>
      | Inr _ \<Rightarrow>
          (case map_of (sp_cache p) sid of
             Some e \<Rightarrow> p\<lparr>sp_results := sp_results p @ [(caller, decode_output codec sid (entry_value e))]\<rparr>
           | None \<Rightarrow>
               (case map_of (sp_pending p) sid of
                  Some callers \<Rightarrow>
                    p\<lparr>sp_pending := AList.update sid (callers @ [(caller, codec)]) (sp_pending p)\<rparr>
                | None \<Rightarrow>
                    p\<lparr>sp_pending := AList.update sid [(caller, codec)] (sp_pending p),
                      sp_started := sp_started p @ [sid]\<rparr>)))"

definition settle_callers :: "string \<Rightarrow> json option res \<Rightarrow> (nat \<times> codec option) list \<Rightarrow> (nat \<times> jsv res) list" where
  "settle_callers sid outcome callers =
     map (\<lambda>(caller, codec). (caller, bind_res outcome (decode_output codec sid))) callers"

definition pool_settle :: "string \<Rightarrow> json option res \<Rightarrow> step_pool \<Rightarrow> step_pool" where
  "pool_settle sid outcome p =
     (case map_of (sp_pending p) sid of
        None \<Rightarrow> p
      | Some callers \<Rightarrow>
          p\<lparr>sp_pending := AList.delete sid (sp_pending p),
            sp_results := sp_results p @ settle_callers sid outcome callers,
            sp_cache := (case outcome of Inl _ \<Rightarrow> sp_cache p
                         | Inr out \<Rightarrow> AList.update sid (entry_of_output out) (sp_cache p)),
            sp_failed := (case outcome of Inl _ \<Rightarrow> sp_failed p @ [sid] | Inr _ \<Rightarrow> sp_failed p)\<rparr>)"

inductive pool_reachable :: "(string \<times> step_entry) list \<Rightarrow> step_pool \<Rightarrow> bool" for cache where
  fresh: "pool_reachable cache (new_pool cache)"
| call: "pool_reachable cache p \<Longrightarrow> pool_reachable cache (pool_call caller codec inactive sid p)"
| settled: "pool_reachable cache p \<Longrightarrow> pool_reachable cache (pool_settle sid outcome p)"

inductive_cases pool_reachableE: "pool_reachable cache p"

definition pool_counts :: "(string \<times> step_entry) list \<Rightarrow> step_pool \<Rightarrow> string \<Rightarrow> bool" where
  "pool_counts cache p sid \<longleftrightarrow>
     (map_of (sp_pending p) sid \<noteq> None \<longrightarrow> map_of (sp_cache p) sid = None) \<and>
     (map_of cache sid \<noteq> None \<longrightarrow> map_of (sp_cache p) sid \<noteq> None) \<and>
     count_list (sp_started p) sid = count_list (sp_failed p) sid +
       (if map_of (sp_pending p) sid \<noteq> None then 1 else 0) +
       (if map_of (sp_cache p) sid \<noteq> None \<and> map_of cache sid = None then 1 else 0)"

lemma pool_call_counts: "pool_counts cache p k \<Longrightarrow> pool_counts cache (pool_call caller codec inactive sid p) k"
  by (auto simp: pool_call_def pool_counts_def update_conv' split: sum.split option.split)

lemma pool_settle_counts: "pool_counts cache p k \<Longrightarrow> pool_counts cache (pool_settle sid outcome p) k"
  by (auto simp: pool_settle_def pool_counts_def update_conv' delete_conv' split: sum.split option.split)

text \<open>
  C14 Concurrent calls share one execution: however calls and completions interleave, every
  execution of a step id that started has failed, is the one pending now, or is the one that
  produced the checkpoint; so no id runs twice at once, and none runs again after its
  checkpoint or when the attempt began with one.
\<close>

theorem executions_accounted:
  assumes "pool_reachable cache p"
  shows "count_list (sp_started p) sid = count_list (sp_failed p) sid +
    (if map_of (sp_pending p) sid \<noteq> None then 1 else 0) +
    (if map_of (sp_cache p) sid \<noteq> None \<and> map_of cache sid = None then 1 else 0)"
proof -
  from assms have "pool_counts cache p sid"
  proof (induction rule: pool_reachable.induct)
    case fresh
    show ?case by (auto simp: pool_counts_def new_pool_def)
  next
    case (call p)
    then show ?case by (intro pool_call_counts)
  next
    case (settled p)
    then show ?case by (intro pool_settle_counts)
  qed
  then show ?thesis unfolding pool_counts_def by blast
qed

theorem executions_accounted_witness:
  "let p = pool_settle ''a'' (Inr None) (pool_call 2 None None ''a'' (pool_call 1 None None ''a'' (new_pool [])))
   in map fst (sp_results p) = [1, 2] \<and> count_list (sp_started p) ''a'' = 1"
proof -
  let ?p = "pool_settle ''a'' (Inr None) (pool_call 2 None None ''a'' (pool_call 1 None None ''a'' (new_pool [])))"
  have r: "pool_reachable [] ?p"
    by (intro pool_reachable.settled pool_reachable.call pool_reachable.fresh)
  have "sp_failed ?p = []" "map_of (sp_pending ?p) ''a'' = None" "map_of (sp_cache ?p) ''a'' \<noteq> None"
    "map fst (sp_results ?p) = [1, 2]"
    by (code_simp+)
  with executions_accounted [OF r, of "''a''"] show ?thesis by simp
qed

end
