(* ===== verification/Progress.thy ===== *)
theory Progress
  imports Steps
begin

text \<open>
  The progress runner (\<^verbatim>\<open>createProgressRunner\<close> in \<^verbatim>\<open>src/src/progress.ts\<close>): values are kept at
  once and written behind, one write at a time, at most one automatic write per interval. The
  promise chain \<open>writes\<close> is a queue of numbered links; an event is a stretch of the code between two
  awaits, so an interleaving of calls, timers and writes is a sequence of events.
\<close>

section \<open>State\<close>

text \<open>
  The closure's variables, with what the promises remember: the links made and done, the
  value of the write in flight and, for every \<open>flush\<close> that waits, the link it waits for.
  \<open>ps_stored\<close> is not a variable of the code: it is what the last write left in the job's row.
\<close>

record progress_state =
  ps_value :: "json option"
  ps_dirty :: bool
  ps_queued :: bool
  ps_closed :: bool
  ps_last :: "int option"
  ps_timer :: "int option"
  ps_failure :: "js_error option"
  ps_made :: nat
  ps_done :: nat
  ps_running :: "json option option"
  ps_flushing :: "nat list"
  ps_stored :: "json option"

definition progress_write_interval_ms :: int where
  "progress_write_interval_ms = 1000"

definition new_progress :: "json option \<Rightarrow> progress_state" where
  "new_progress initial = \<lparr>ps_value = initial, ps_dirty = False, ps_queued = False, ps_closed = False,
     ps_last = None, ps_timer = None, ps_failure = None, ps_made = 0, ps_done = 0,
     ps_running = None, ps_flushing = [], ps_stored = initial\<rparr>"

section \<open>The pieces of the code\<close>

text \<open>\<open>write()\<close>: it clears the timer, and appends a link unless there is nothing to write.\<close>

definition request_write :: "int \<Rightarrow> progress_state \<Rightarrow> progress_state" where
  "request_write now s =
     (let s = s\<lparr>ps_timer := None\<rparr> in
      if \<not> ps_dirty s \<or> ps_queued s then s
      else s\<lparr>ps_queued := True, ps_last := Some now, ps_made := Suc (ps_made s)\<rparr>)"

text \<open>The body of a link: it writes the value of that moment, unless there is nothing to write.\<close>

definition link_starts :: "progress_state \<Rightarrow> progress_state" where
  "link_starts s =
     (let s = s\<lparr>ps_queued := False\<rparr> in
      if \<not> ps_dirty s then s\<lparr>ps_done := Suc (ps_done s)\<rparr>
      else s\<lparr>ps_dirty := False, ps_running := Some (ps_value s)\<rparr>)"

text \<open>A failed write may nevertheless have reached the database, as \<open>applied\<close> tells.\<close>

definition link_ends :: "unit res \<Rightarrow> bool \<Rightarrow> json option \<Rightarrow> progress_state \<Rightarrow> progress_state" where
  "link_ends r applied v s =
     (let s = s\<lparr>ps_running := None, ps_done := Suc (ps_done s)\<rparr> in
      case r of
        Inr _ \<Rightarrow> s\<lparr>ps_stored := v\<rparr>
      | Inl e \<Rightarrow> (if applied then s\<lparr>ps_stored := v\<rparr> else s)\<lparr>ps_failure := Some e, ps_dirty := True\<rparr>)"

definition rethrow :: "progress_state \<Rightarrow> unit res \<times> progress_state" where
  "rethrow s = (case ps_failure s of None \<Rightarrow> (Inr (), s) | Some e \<Rightarrow> (Inl e, s\<lparr>ps_failure := None\<rparr>))"

definition assert_open :: "progress_state \<Rightarrow> unit res" where
  "assert_open s = guard_res (\<not> ps_closed s) (plain_error ''ctx.progress was used after the job finished'')"

definition set_begins :: "progress_state \<Rightarrow> unit res \<times> progress_state" where
  "set_begins s = (case assert_open s of Inl e \<Rightarrow> (Inl e, s) | Inr _ \<Rightarrow> rethrow s)"

text \<open>What follows the schema's answer \<open>parsed\<close>.\<close>

definition set_commits :: "int \<Rightarrow> jsv res \<Rightarrow> progress_state \<Rightarrow> unit res \<times> progress_state" where
  "set_commits now parsed s =
     (case bind_res parsed (\<lambda>next. bind_res (assert_json_value (fst next) (snd next) False) (\<lambda>_.
             bind_res (assert_open s) (\<lambda>_. json_snapshot (fst next) (snd next)))) of
        Inl e \<Rightarrow> (Inl e, s)
      | Inr v \<Rightarrow>
          (Inr (),
           let s = s\<lparr>ps_value := v, ps_dirty := True\<rparr> in
           if ps_timer s \<noteq> None then s
           else case ps_last s of
                  None \<Rightarrow> request_write now s
                | Some l \<Rightarrow>
                    if l + progress_write_interval_ms - now \<le> 0 then request_write now s
                    else s\<lparr>ps_timer := Some (l + progress_write_interval_ms)\<rparr>))"

definition flush_begins :: "int \<Rightarrow> progress_state \<Rightarrow> unit res \<times> progress_state" where
  "flush_begins now s =
     (case assert_open s of
        Inl e \<Rightarrow> (Inl e, s)
      | Inr _ \<Rightarrow> (Inr (), let s = request_write now s in s\<lparr>ps_flushing := ps_made s # ps_flushing s\<rparr>))"

definition close_begins :: "int \<Rightarrow> bool \<Rightarrow> progress_state \<Rightarrow> progress_state" where
  "close_begins now persist s =
     (let s = s\<lparr>ps_closed := True\<rparr>; s = (if persist then request_write now s else s) in s\<lparr>ps_timer := None\<rparr>)"

section \<open>Events\<close>

datatype progress_event =
    SetBegins
  | SetCommits int "jsv res"
  | TimerFires int
  | LinkStarts
  | LinkEnds "unit res" bool
  | FlushBegins int
  | FlushEnds nat
  | CloseBegins int bool
  | CloseEnds

text \<open>
  An event that cannot happen yet is None: a timer before its time, a link before the one
  before it is done, the end of a \<open>flush\<close> before its link is done. A link in flight is the one
  numbered \<open>ps_done s + 1\<close>.
\<close>

fun progress_step :: "progress_event \<Rightarrow> progress_state \<Rightarrow> (unit res \<times> progress_state) option" where
  "progress_step SetBegins s = Some (set_begins s)"
| "progress_step (SetCommits now parsed) s = Some (set_commits now parsed s)"
| "progress_step (TimerFires now) s =
     (case ps_timer s of
        Some t \<Rightarrow> if t \<le> now then Some (Inr (), request_write now s) else None
      | None \<Rightarrow> None)"
| "progress_step LinkStarts s =
     (if ps_queued s \<and> ps_running s = None then Some (Inr (), link_starts s) else None)"
| "progress_step (LinkEnds r applied) s =
     (case ps_running s of Some v \<Rightarrow> Some (Inr (), link_ends r applied v s) | None \<Rightarrow> None)"
| "progress_step (FlushBegins now) s = Some (flush_begins now s)"
| "progress_step (FlushEnds n) s =
     (if n \<in> set (ps_flushing s) \<and> n \<le> ps_done s
      then Some (rethrow (s\<lparr>ps_flushing := remove1 n (ps_flushing s)\<rparr>)) else None)"
| "progress_step (CloseBegins now persist) s = Some (Inr (), close_begins now persist s)"
| "progress_step CloseEnds s =
     (if ps_closed s \<and> ps_made s \<le> ps_done s then Some (rethrow s) else None)"

fun_cases progress_step_SomeE: "progress_step ev s = Some y"

inductive progress_reachable :: "progress_state \<Rightarrow> bool" where
  created: "progress_reachable (new_progress initial)"
| step: "progress_reachable s \<Longrightarrow> progress_step ev s = Some (r, s') \<Longrightarrow> progress_reachable s'"

text \<open>The events that are not calls: timers and the links of the chain.\<close>

fun is_background :: "progress_event \<Rightarrow> bool" where
  "is_background (TimerFires _) = True"
| "is_background LinkStarts = True"
| "is_background (LinkEnds _ _) = True"
| "is_background _ = False"

inductive background :: "progress_state \<Rightarrow> progress_state \<Rightarrow> bool" where
  nothing: "background s s"
| step: "background s s1 \<Longrightarrow> is_background ev \<Longrightarrow> progress_step ev s1 = Some (r, s2) \<Longrightarrow> background s s2"

section \<open>What every interleaving keeps\<close>

text \<open>
  Nothing dirty means that the current value is stored or is being written; a link is queued
  only for a dirty value; a timer always stands one interval after the last requested write;
  the links not yet done are the queued one and the one in flight.
\<close>

definition progress_inv :: "progress_state \<Rightarrow> bool" where
  "progress_inv s \<longleftrightarrow>
     (\<not> ps_dirty s \<longrightarrow> (case ps_running s of Some v \<Rightarrow> v = ps_value s | None \<Rightarrow> ps_stored s = ps_value s)) \<and>
     (ps_queued s \<longrightarrow> ps_dirty s) \<and>
     (case ps_timer s of None \<Rightarrow> True | Some t \<Rightarrow> ps_last s = Some (t - progress_write_interval_ms)) \<and>
     ps_made s = ps_done s + of_bool (ps_queued s) + of_bool (ps_running s \<noteq> None) \<and>
     (ps_closed s \<longrightarrow> ps_timer s = None) \<and>
     list_all (\<lambda>n. n \<le> ps_made s) (ps_flushing s)"

lemma assert_open_Inr [simp]: "assert_open s = Inr u \<longleftrightarrow> \<not> ps_closed s"
  by (simp add: assert_open_def)

lemma request_write_inv: "progress_inv s \<Longrightarrow> progress_inv (request_write now s)"
  by (auto simp: progress_inv_def request_write_def Let_def list_all_iff split: option.splits)

lemma request_write_fields [simp]:
  "ps_value (request_write now s) = ps_value s" "ps_stored (request_write now s) = ps_stored s"
  "ps_closed (request_write now s) = ps_closed s" "ps_dirty (request_write now s) = ps_dirty s"
  "ps_failure (request_write now s) = ps_failure s" "ps_done (request_write now s) = ps_done s"
  "ps_running (request_write now s) = ps_running s" "ps_timer (request_write now s) = None"
  "ps_flushing (request_write now s) = ps_flushing s"
  "ps_queued (request_write now s) \<longleftrightarrow> ps_queued s \<or> ps_dirty s"
  by (auto simp: request_write_def Let_def)

lemma progress_inv_failure [simp]: "progress_inv (s\<lparr>ps_failure := x\<rparr>) = progress_inv s"
  by (simp add: progress_inv_def cong: option.case_cong)

lemma progress_inv_flush:
  "progress_inv s \<Longrightarrow> list_all (\<lambda>n. n \<le> ps_made s) ns \<Longrightarrow> progress_inv (s\<lparr>ps_flushing := ns\<rparr>)"
  by (simp add: progress_inv_def cong: option.case_cong)

lemma progress_inv_flushing: "progress_inv s \<Longrightarrow> list_all (\<lambda>n. n \<le> ps_made s) (ps_flushing s)"
  by (auto simp: progress_inv_def)

lemma progress_inv_closed:
  "progress_inv s \<Longrightarrow> ps_timer s = None \<Longrightarrow> progress_inv (s\<lparr>ps_closed := True\<rparr>)"
  "progress_inv s \<Longrightarrow> progress_inv (s\<lparr>ps_timer := None\<rparr>)"
  by (auto simp: progress_inv_def cong: option.case_cong)

lemma set_commits_inv:
  assumes "progress_inv s"
  shows "progress_inv (snd (set_commits now parsed s))"
proof -
  let ?s = "\<lambda>v. s\<lparr>ps_value := v, ps_dirty := True\<rparr>"
  have dirty: "progress_inv (?s v)" for v
    using assms by (auto simp: progress_inv_def cong: option.case_cong)
  have "progress_inv ((?s v)\<lparr>ps_timer := Some (l + progress_write_interval_ms)\<rparr>)"
    if "ps_timer s = None" "ps_last s = Some l" "\<not> ps_closed s" for v l
    using dirty [of v] that by (auto simp: progress_inv_def)
  then show ?thesis
    using dirty request_write_inv [OF dirty] assms
    by (auto simp: set_commits_def Let_def res_simps split: sum.split option.split)
qed

lemma rethrow_inv: "progress_inv s \<Longrightarrow> progress_inv (snd (rethrow s))"
  by (simp add: rethrow_def split: option.split)

lemma link_inv:
  "progress_inv s \<Longrightarrow> ps_queued s \<Longrightarrow> ps_running s = None \<Longrightarrow> progress_inv (link_starts s)"
  "progress_inv s \<Longrightarrow> ps_running s = Some v \<Longrightarrow> progress_inv (link_ends r applied v s)"
  by (auto simp: progress_inv_def link_starts_def link_ends_def Let_def list_all_iff
      split: sum.splits option.splits)

lemma close_begins_inv:
  assumes "progress_inv s"
  shows "progress_inv (close_begins now persist s)"
proof -
  have "close_begins now persist s =
      (if persist then request_write now s else s)\<lparr>ps_timer := None, ps_closed := True\<rparr>"
    by (simp add: close_begins_def request_write_def Let_def)
  with assms request_write_inv [OF assms, of now] show ?thesis
    by (simp add: progress_inv_closed)
qed

lemma flush_begins_inv:
  assumes "progress_inv s"
  shows "progress_inv (snd (flush_begins now s))"
  using request_write_inv [OF assms, of now] request_write_inv [OF assms, of now, THEN progress_inv_flushing] assms
  by (auto simp: flush_begins_def Let_def intro!: progress_inv_flush split: sum.split)

lemma progress_step_inv:
  assumes "progress_inv s" "progress_step ev s = Some (r, s')"
  shows "progress_inv s'"
proof (cases ev)
  case SetBegins
  with assms rethrow_inv [of s] show ?thesis by (auto simp: set_begins_def split: sum.splits)
next
  case (SetCommits now parsed)
  with assms set_commits_inv [of s now parsed] show ?thesis by simp
next
  case (TimerFires now)
  with assms request_write_inv [of s now] show ?thesis by (auto split: option.splits if_splits)
next
  case LinkStarts
  with assms link_inv(1) [of s] show ?thesis by (auto split: if_splits)
next
  case (LinkEnds q applied)
  with assms link_inv(2) [of s] show ?thesis by (auto split: option.splits)
next
  case (FlushBegins now)
  with assms flush_begins_inv [of s now] show ?thesis by simp
next
  case (FlushEnds n)
  have "progress_inv (s\<lparr>ps_flushing := remove1 n (ps_flushing s)\<rparr>)"
    using progress_inv_flushing [OF assms(1)] set_remove1_subset [of n "ps_flushing s"]
    by (intro progress_inv_flush [OF assms(1)]) (auto simp: list_all_iff)
  with FlushEnds assms(2) rethrow_inv [of "s\<lparr>ps_flushing := remove1 n (ps_flushing s)\<rparr>"] show ?thesis
    by (auto split: if_splits)
next
  case (CloseBegins now persist)
  with assms close_begins_inv [of s now persist] show ?thesis by simp
next
  case CloseEnds
  with assms rethrow_inv [of s] show ?thesis by (auto split: if_splits)
qed

lemma progress_reachable_inv: "progress_reachable s \<Longrightarrow> progress_inv s"
proof (induction rule: progress_reachable.induct)
  case (created initial)
  then show ?case by (simp add: progress_inv_def new_progress_def)
qed (rule progress_step_inv)

section \<open>No value is lost\<close>

lemma background_step_cases:
  assumes "is_background ev" "progress_step ev s = Some (r, s')"
  obtains (fires) now where "s' = request_write now s"
  | (starts) "ps_queued s" "ps_running s = None" "s' = link_starts s"
  | (ends) q applied v where "ps_running s = Some v" "s' = link_ends q applied v s"
  using assms by (cases ev) (auto split: option.splits if_splits)

lemma link_fields [simp]:
  "ps_value (link_starts s) = ps_value s" "ps_value (link_ends q applied v s) = ps_value s"
  "ps_made (link_starts s) = ps_made s" "ps_made (link_ends q applied v s) = ps_made s"
  "ps_timer (link_starts s) = ps_timer s" "ps_timer (link_ends q applied v s) = ps_timer s"
  "ps_flushing (link_starts s) = ps_flushing s" "ps_flushing (link_ends q applied v s) = ps_flushing s"
  "ps_closed (link_starts s) = ps_closed s" "ps_closed (link_ends q applied v s) = ps_closed s"
  "\<not> ps_dirty (link_starts s)" "ps_queued (link_ends q applied v s) = ps_queued s"
  "ps_dirty (link_ends q applied v s) \<longleftrightarrow> ps_dirty s \<or> q \<noteq> Inr ()"
  "ps_failure (link_ends q applied v s) = (case q of Inl e \<Rightarrow> Some e | Inr _ \<Rightarrow> ps_failure s)"
  by (cases q; cases applied; simp add: link_starts_def link_ends_def Let_def)+

text \<open>A dirty value is on its way, or a failure waits to be reported.\<close>

definition drained :: "progress_state \<Rightarrow> bool" where
  "drained s \<longleftrightarrow> ps_timer s = None \<and> (ps_dirty s \<longrightarrow> ps_queued s \<or> ps_failure s \<noteq> None)"

lemma background_keeps:
  assumes "background s s'" "drained s" "progress_inv s"
  shows "drained s' \<and> progress_inv s' \<and> ps_value s' = ps_value s \<and> ps_made s' = ps_made s"
  using assms
proof (induction rule: background.induct)
  case (step s s1 ev r s2)
  then have inv: "progress_inv s2" using progress_step_inv by blast
  from step have IH: "drained s1" "ps_value s1 = ps_value s" "ps_made s1 = ps_made s" by auto
  from step(3) have "ev \<noteq> TimerFires now" for now
    using IH(1) step(2) by (auto simp: drained_def split: option.splits)
  then have "s2 = link_starts s1 \<or> (\<exists>q applied v. s2 = link_ends q applied v s1)"
    using step(2,3) by (cases ev) (auto split: option.splits if_splits)
  then show ?case
    using IH inv by (auto simp: drained_def split: sum.splits)
qed simp

lemma idle_stored:
  assumes "progress_inv s" "drained s" "ps_made s \<le> ps_done s" "ps_failure s = None"
  shows "ps_stored s = ps_value s"
  using assms by (auto simp: progress_inv_def drained_def split: option.splits if_splits)

text \<open>The call and the end of a \<open>flush\<close>, and of a \<open>close\<close> that persists.\<close>

inductive persist_call :: "progress_state \<Rightarrow> progress_state \<Rightarrow> progress_event \<Rightarrow> bool" where
  flush: "progress_step (FlushBegins now) s = Some (Inr (), s1) \<Longrightarrow> persist_call s s1 (FlushEnds (ps_made s1))"
| close: "progress_step (CloseBegins now True) s = Some (Inr (), s1) \<Longrightarrow> persist_call s s1 CloseEnds"

inductive_cases persist_callE: "persist_call s s1 fin"

lemma persist_call_starts:
  "persist_call s s1 fin \<Longrightarrow> drained s1 \<and> ps_value s1 = ps_value s"
  by (auto elim!: persist_callE simp: flush_begins_def close_begins_def drained_def Let_def
      request_write_def split: sum.splits)

lemma persist_call_inv: "persist_call s s1 fin \<Longrightarrow> progress_inv s \<Longrightarrow> progress_inv s1"
  by (erule persist_call.cases) (simp_all only: progress_step_inv)

lemma persist_call_ends:
  assumes "persist_call s s1 fin" "ps_made s2 = ps_made s1" "progress_step fin s2 = Some (r, s3)"
  shows "ps_made s2 \<le> ps_done s2 \<and> r = fst (rethrow s2) \<and> ps_stored s3 = ps_stored s2 \<and> ps_value s3 = ps_value s2"
  using assms by (auto elim!: persist_callE simp: rethrow_def split: if_splits option.splits)


text \<open>A value set at once, and a second one within the interval that a \<open>flush\<close> writes.\<close>

definition sample_progress :: progress_state where
  "sample_progress =
     snd (set_commits 100 (Inr (value_of (Some (JNum 2))))
       (snd (set_commits 50 (Inr (value_of (Some (JNum 1)))) (new_progress None))))"

lemma set_commits_reachable:
  "progress_reachable s \<Longrightarrow> progress_reachable (snd (set_commits now parsed s))"
  by (rule progress_reachable.step [where ev = "SetCommits now parsed" and r = "fst (set_commits now parsed s)"])
    simp_all

lemma sample_progress_reachable: "progress_reachable sample_progress"
  unfolding sample_progress_def by (intro set_commits_reachable progress_reachable.created)


section \<open>Throttling and draining\<close>

text \<open>
  Automatic writes are throttled: whatever the interleaving, a \<open>set\<close> or a timer that requests a
  write does so at least one interval of 1000 ms after the last requested write, so a handler that
  sets its progress in a loop causes at most one write a second beside its own \<open>flush\<close>es.
\<close>

theorem automatic_writes_throttled:
  assumes "progress_reachable s" and "ev = SetCommits now parsed \<or> ev = TimerFires now"
    and "progress_step ev s = Some (r, s')" and "ps_made s' \<noteq> ps_made s"
  shows "ps_made s' = Suc (ps_made s) \<and> ps_last s' = Some now \<and>
    (case ps_last s of None \<Rightarrow> True | Some l \<Rightarrow> l + 1000 \<le> now)"
proof -
  have requested: "ps_made s' = Suc (ps_made s) \<and> ps_last s' = Some now"
    if "s' = request_write now s0" "ps_made s0 = ps_made s" for s0
    using that assms(4) by (auto simp: request_write_def Let_def split: if_splits)
  have timer: "ps_last s = Some (t - 1000)" if "ps_timer s = Some t" for t
    using progress_reachable_inv [OF assms(1)] that
    by (simp add: progress_inv_def progress_write_interval_ms_def)
  from assms(2) show ?thesis
  proof
    assume ev: "ev = TimerFires now"
    with assms(3) obtain t where "ps_timer s = Some t" "t \<le> now" "s' = request_write now s"
      by (auto split: option.splits if_splits)
    with requested [of s] timer show ?thesis by auto
  next
    assume ev: "ev = SetCommits now parsed"
    obtain v where v: "s' = request_write now (s\<lparr>ps_value := v, ps_dirty := True\<rparr>)"
      and "case ps_last s of None \<Rightarrow> True | Some l \<Rightarrow> l + 1000 - now \<le> 0"
      using assms(3,4) ev
      by (auto simp: set_commits_def Let_def progress_write_interval_ms_def
          split: sum.splits if_splits option.splits)
    with requested [OF v] show ?thesis by (auto split: option.splits)
  qed
qed

text \<open>A first value written at 50 ms, a second one that its timer writes.\<close>

definition sample_timer :: progress_state where
  "sample_timer = snd (set_commits 100 (Inr (value_of (Some (JNum 2))))
     (link_starts (snd (set_commits 50 (Inr (value_of (Some (JNum 1)))) (new_progress None)))))"

theorem automatic_writes_throttled_witness:
  "\<exists>s'. progress_step (TimerFires 1050) sample_timer = Some (Inr (), s') \<and>
    ps_last sample_timer = Some 50 \<and> ps_last s' = Some 1050 \<and> ps_made s' = 2"
proof -
  let ?s0 = "snd (set_commits 50 (Inr (value_of (Some (JNum 1)))) (new_progress None))"
  let ?s' = "request_write 1050 sample_timer"
  have facts: "progress_step LinkStarts ?s0 = Some (Inr (), link_starts ?s0)"
    "progress_step (TimerFires 1050) sample_timer = Some (Inr (), ?s')"
    "ps_made ?s' \<noteq> ps_made sample_timer" "ps_made sample_timer = 1" "ps_last sample_timer = Some 50"
    by (code_simp+)
  have "progress_reachable sample_timer"
    unfolding sample_timer_def
    by (intro set_commits_reachable progress_reachable.step [OF _ facts(1)] progress_reachable.created)
  from automatic_writes_throttled [OF this disjI2 [OF refl] facts(2,3)] facts show ?thesis by auto
qed

text \<open>Background work is bounded: one write in flight and one queued, whatever they give.\<close>

definition background_work :: "progress_state \<Rightarrow> nat" where
  "background_work s = 3 * of_bool (ps_timer s \<noteq> None) + 2 * of_bool (ps_queued s) +
     of_bool (ps_running s \<noteq> None)"

lemma background_work_decreases:
  assumes "is_background ev" "progress_step ev s = Some (r, s')" "progress_inv s"
  shows "background_work s' < background_work s"
proof (cases ev)
  case (TimerFires now)
  with assms(2) show ?thesis
    by (auto simp: background_work_def request_write_def Let_def split: option.splits if_splits)
next
  case LinkStarts
  with assms(2,3) show ?thesis
    by (auto simp: background_work_def link_starts_def Let_def progress_inv_def split: if_splits)
next
  case (LinkEnds q applied)
  have "ps_running (link_ends q applied v s) = None" for v
    by (cases q; cases applied) (simp_all add: link_ends_def Let_def)
  with LinkEnds assms(2) show ?thesis
    by (auto simp: background_work_def split: option.splits)
qed (use assms(1) in simp_all)

lemma settled_flushes_end:
  assumes "progress_inv s" "n \<in> set (ps_flushing s)"
    and idle: "\<not> ps_queued s" "ps_running s = None"
  shows "\<exists>r s'. progress_step (FlushEnds n) s = Some (r, s')"
proof -
  have "n \<le> ps_done s" using assms by (auto simp: progress_inv_def list_all_iff)
  with assms(2) show ?thesis
    by (cases "rethrow (s\<lparr>ps_flushing := remove1 n (ps_flushing s)\<rparr>)") auto
qed

lemma background_enabled:
  assumes "ps_queued s \<or> ps_running s \<noteq> None"
  shows "\<exists>ev r s'. is_background ev \<and> progress_step ev s = Some (r, s')"
proof (cases "ps_running s")
  case None
  with assms have "progress_step LinkStarts s = Some (Inr (), link_starts s)" by simp
  then show ?thesis by (intro exI [of _ LinkStarts]) auto
next
  case (Some v)
  then have "progress_step (LinkEnds (Inr ()) True) s = Some (Inr (), link_ends (Inr ()) True v s)" by simp
  then show ?thesis by (intro exI [of _ "LinkEnds (Inr ()) True"]) auto
qed

text \<open>
  C32 A waiting \<open>flush\<close> ends: every timer and every link of the chain, whatever its write gives,
  takes one of at most six units of background work away, and once none is left the wait of every
  \<open>flush\<close> can end. So no failing database keeps a \<open>flush\<close> or a \<open>close\<close> waiting for further retries.
\<close>

theorem flush_ends:
  assumes "progress_reachable s"
  shows "background_work s \<le> 6 \<and>
    (is_background ev \<and> progress_step ev s = Some (r, s') \<longrightarrow> background_work s' < background_work s) \<and>
    (n \<in> set (ps_flushing s) \<longrightarrow>
       (\<exists>r s'. progress_step (FlushEnds n) s = Some (r, s')) \<or>
       (\<exists>ev r s'. is_background ev \<and> progress_step ev s = Some (r, s')))"
proof -
  note inv = progress_reachable_inv [OF assms]
  have "background_work s \<le> 6" by (auto simp: background_work_def)
  moreover have "\<exists>r s'. progress_step (FlushEnds n) s = Some (r, s')"
    if "n \<in> set (ps_flushing s)" "\<not> (\<exists>ev r s'. is_background ev \<and> progress_step ev s = Some (r, s'))"
    using settled_flushes_end [OF inv that(1)] background_enabled [of s] that(2) by blast
  ultimately show ?thesis using background_work_decreases [of ev s r s'] inv by blast
qed

theorem flush_ends_witness:
  "\<exists>s. progress_reachable s \<and> ps_flushing s = [1] \<and>
    (\<exists>ev r s'. is_background ev \<and> progress_step ev s = Some (r, s') \<and> background_work s' < background_work s)"
proof -
  let ?s = "snd (flush_begins 200 sample_progress)"
  have facts: "progress_step (FlushBegins 200) sample_progress = Some (Inr (), ?s)"
    "progress_step LinkStarts ?s = Some (Inr (), link_starts ?s)" "ps_flushing ?s = [1]"
    by (code_simp+)
  have reach: "progress_reachable ?s"
    by (rule progress_reachable.step [OF sample_progress_reachable facts(1)])
  have "is_background LinkStarts \<and> progress_step LinkStarts ?s = Some (Inr (), link_starts ?s)"
    using facts(2) by simp
  with flush_ends [OF reach, of LinkStarts "Inr ()" "link_starts ?s" 1]
  have "is_background LinkStarts \<and> progress_step LinkStarts ?s = Some (Inr (), link_starts ?s) \<and>
      background_work (link_starts ?s) < background_work ?s"
    by blast
  with reach facts(3) show ?thesis by blast
qed

end
