(* ===== verification/Lifecycle.thy ===== *)
theory Lifecycle
  imports Progress
begin

text \<open>
  The life of a worker (\<^verbatim>\<open>src/src/lifecycle.ts\<close>): starting, stopping, single runs, and the
  supervisor that restarts a failed runner with growing delays. The state holds the closure's
  variables and where the pending promises stand; an event is a stretch of the code between two
  awaits, so that every interleaving of calls, timers and runners is a sequence of events.
\<close>

section \<open>Options\<close>

record restart_policy =
  rp_delay :: int
  rp_max_delay :: int

datatype restart_option = RestartDefault | RestartOff | RestartWith "jsnum option" "jsnum option"

definition max_timer :: int where
  "max_timer = 2147483647"

text \<open>
  \<open>resolveRestart\<close>. \<open>Math.max(delay, 30_000)\<close> is only the default of \<open>maxDelay\<close>, and a
  \<open>delay\<close> that is no number makes it NaN; the check of \<open>delay\<close> throws first then.
\<close>

definition resolve_restart :: "restart_option \<Rightarrow> restart_policy option res" where
  "resolve_restart opt =
     (case opt of
        RestartOff \<Rightarrow> Inr None
      | _ \<Rightarrow>
          (let (delay, max_delay) = (case opt of RestartWith d m \<Rightarrow> (d, m) | _ \<Rightarrow> (None, None)) in
           bind_res (assert_integer (nullish_else delay (Num 1000)) ''restart.delay'' 0 max_timer) (\<lambda>d.
           bind_res (assert_integer (nullish_else max_delay (Num (of_int (max d 30000))))
             ''restart.maxDelay'' d max_timer) (\<lambda>m.
           Inr (Some \<lparr>rp_delay = d, rp_max_delay = m\<rparr>)))))"

text \<open>The wait before restart \<open>attempt\<close>, counted from 1.\<close>

definition restart_delay :: "restart_policy \<Rightarrow> nat \<Rightarrow> int" where
  "restart_delay p attempt = min (rp_max_delay p) (rp_delay p * 2 ^ min (attempt - 1) 30)"

section \<open>State\<close>

text \<open>
  Where the supervisor of a run stands: watching a runner started at a time, waiting before a
  restart, awaiting \<open>options.start(true)\<close>, stopping a runner whose restart came too late, or done.
\<close>

datatype supervisor =
    Watching nat int nat
  | Waiting nat int
  | Relaunching nat
  | StoppingLate nat
  | Done

record supervised_run =
  rn_stopped :: bool
  rn_runner :: "nat option"
  rn_supervisor :: supervisor

text \<open>Where a pending \<open>starting\<close> and a pending \<open>stopping\<close> stand.\<close>

datatype start_phase = Launching | ReleasingAfterFailure

datatype stop_phase =
    AwaitStart
  | AwaitOnce
  | AwaitRunner "nat option"
  | AwaitCompletion
  | AwaitRelease

text \<open>
  Runners are numbered. \<open>lc_live\<close> and \<open>lc_ended\<close> are the outside: the runners that run, and those
  that ended, with whether their promise rejected.
\<close>

record lifecycle =
  lc_run :: "supervised_run option"
  lc_starting :: "start_phase option"
  lc_stopping :: "stop_phase option"
  lc_once :: bool
  lc_signals :: bool
  lc_live :: "nat list"
  lc_ended :: "(nat \<times> bool) list"

definition new_lifecycle :: lifecycle where
  "new_lifecycle = \<lparr>lc_run = None, lc_starting = None, lc_stopping = None, lc_once = False,
     lc_signals = False, lc_live = [], lc_ended = []\<rparr>"

section \<open>The pieces of the code\<close>

definition fresh_runner :: "lifecycle \<Rightarrow> nat" where
  "fresh_runner s = Suc (Max (set (0 # lc_live s @ map fst (lc_ended s))))"

definition set_supervisor :: "supervisor \<Rightarrow> supervised_run \<Rightarrow> lifecycle \<Rightarrow> lifecycle" where
  "set_supervisor v c s = s\<lparr>lc_run := Some (c\<lparr>rn_supervisor := v\<rparr>)\<rparr>"

text \<open>The head of the loop in \<open>relaunch\<close>: the next wait, reported and begun.\<close>

definition relaunch :: "restart_policy \<Rightarrow> int \<Rightarrow> nat \<Rightarrow> supervised_run \<Rightarrow> lifecycle \<Rightarrow> lifecycle" where
  "relaunch p now attempt c s =
     set_supervisor (Waiting (Suc attempt) (now + restart_delay p (Suc attempt))) (c\<lparr>rn_runner := None\<rparr>) s"

text \<open>
  \<open>supervise\<close> after its runner ended, \<open>failed\<close> or not: the run ends unless a failure is to be
  restarted; a runner that outlived the longest wait starts the backoff over.
\<close>

definition runner_ended ::
  "restart_policy option \<Rightarrow> int \<Rightarrow> bool \<Rightarrow> int \<Rightarrow> nat \<Rightarrow> supervised_run \<Rightarrow> lifecycle \<Rightarrow> lifecycle" where
  "runner_ended policy now failed started attempt c s =
     (case (if failed \<and> \<not> rn_stopped c then policy else None) of
        None \<Rightarrow> if rn_stopped c then set_supervisor Done c s else s\<lparr>lc_run := None, lc_signals := False\<rparr>
      | Some p \<Rightarrow> relaunch p now (if rp_max_delay p \<le> now - started then 0 else attempt) c s)"

text \<open>\<open>options.start\<close> gave a runner.\<close>

definition launch :: "lifecycle \<Rightarrow> nat \<times> lifecycle" where
  "launch s = (fresh_runner s, s\<lparr>lc_live := fresh_runner s # lc_live s\<rparr>)"

text \<open>\<open>stop\<close> once nothing is starting: it stops the run of that moment, if there is one.\<close>

definition stop_run :: "lifecycle \<Rightarrow> lifecycle" where
  "stop_run s =
     (case lc_run s of
        None \<Rightarrow> s\<lparr>lc_stopping := Some AwaitRelease, lc_signals := False\<rparr>
      | Some c \<Rightarrow> s\<lparr>lc_run := Some (c\<lparr>rn_stopped := True\<rparr>), lc_signals := False,
                    lc_stopping := Some (AwaitRunner (rn_runner c))\<rparr>)"

text \<open>The answers of the calls: joined with what is under way, begun, or refused.\<close>

datatype call_result = Begun | Joined | AlreadyRunning | AfterStop | Refused js_error

definition call_start :: "bool \<Rightarrow> lifecycle \<Rightarrow> call_result \<times> lifecycle" where
  "call_start handle_signals s =
     (if lc_stopping s \<noteq> None then (AfterStop, s)
      else if lc_once s then (Refused (plain_error ''Worker runOnce is in progress''), s)
      else if lc_starting s \<noteq> None then (Joined, s)
      else if lc_run s \<noteq> None then (AlreadyRunning, s)
      else (Begun, s\<lparr>lc_starting := Some Launching, lc_signals := handle_signals\<rparr>))"

definition call_stop :: "jsnum option \<Rightarrow> lifecycle \<Rightarrow> call_result \<times> lifecycle" where
  "call_stop timeout s =
     (case (case timeout of None \<Rightarrow> Inr 0 | Some t \<Rightarrow> assert_integer t ''shutdown timeout'' 0 max_timer) of
        Inl e \<Rightarrow> (Refused e, s)
      | Inr _ \<Rightarrow>
          if lc_stopping s \<noteq> None then (Joined, s)
          else (Begun,
            if lc_starting s \<noteq> None then s\<lparr>lc_stopping := Some AwaitStart\<rparr>
            else if lc_once s then s\<lparr>lc_stopping := Some AwaitOnce\<rparr>
            else stop_run s))"

definition call_run_once :: "lifecycle \<Rightarrow> call_result \<times> lifecycle" where
  "call_run_once s =
     (if lc_starting s \<noteq> None \<or> lc_stopping s \<noteq> None \<or> lc_run s \<noteq> None \<or> lc_once s
      then (Refused (plain_error ''Worker is busy''), s)
      else (Begun, s\<lparr>lc_once := True\<rparr>))"

section \<open>Events\<close>

datatype lifecycle_event =
    CallStart bool
  | CallStop "jsnum option"
  | CallRunOnce
  | LaunchOk int
  | LaunchFails
  | ReleasedAfterFailure
  | RunnerEnds nat bool
  | Supervised int
  | WaitEnds int
  | RelaunchOk int
  | RelaunchFails int
  | LateStopped
  | OnceEnds
  | StopAdvances

definition has_ended :: "nat \<Rightarrow> lifecycle \<Rightarrow> bool" where
  "has_ended r s \<longleftrightarrow> map_of (lc_ended s) r \<noteq> None"

definition supervisor_event :: "restart_policy option \<Rightarrow> lifecycle_event \<Rightarrow> supervised_run \<Rightarrow> lifecycle \<Rightarrow> lifecycle option" where
  "supervisor_event policy ev c s =
     (case (ev, rn_supervisor c) of
        (Supervised now, Watching r started attempt) \<Rightarrow>
          map_option (\<lambda>failed. runner_ended policy now failed started attempt c s) (map_of (lc_ended s) r)
      | (WaitEnds now, Waiting attempt until) \<Rightarrow>
          if rn_stopped c then Some (set_supervisor Done c s)
          else if until \<le> now then Some (set_supervisor (Relaunching attempt) c s) else None
      | (RelaunchOk now, Relaunching attempt) \<Rightarrow>
          (let (r, s') = launch s in
           if rn_stopped c then Some (set_supervisor (StoppingLate r) c s')
           else Some (set_supervisor (Watching r now attempt) (c\<lparr>rn_runner := Some r\<rparr>) s'))
      | (RelaunchFails now, Relaunching attempt) \<Rightarrow>
          if rn_stopped c then Some (set_supervisor Done c s)
          else map_option (\<lambda>p. relaunch p now attempt c s) policy
      | (LateStopped, StoppingLate r) \<Rightarrow> if has_ended r s then Some (set_supervisor Done c s) else None
      | _ \<Rightarrow> None)"

definition stop_advances :: "lifecycle \<Rightarrow> lifecycle option" where
  "stop_advances s =
     (case lc_stopping s of
        None \<Rightarrow> None
      | Some AwaitStart \<Rightarrow>
          if lc_starting s \<noteq> None then None
          else Some (if lc_once s then s\<lparr>lc_stopping := Some AwaitOnce\<rparr> else stop_run s)
      | Some AwaitOnce \<Rightarrow> if lc_once s then None else Some (stop_run s)
      | Some (AwaitRunner runner) \<Rightarrow>
          if (case runner of None \<Rightarrow> True | Some r \<Rightarrow> has_ended r s)
          then Some (s\<lparr>lc_stopping := Some AwaitCompletion\<rparr>) else None
      | Some AwaitCompletion \<Rightarrow>
          if (case lc_run s of None \<Rightarrow> True | Some c \<Rightarrow> rn_supervisor c = Done)
          then Some (s\<lparr>lc_run := None, lc_stopping := Some AwaitRelease\<rparr>) else None
      | Some AwaitRelease \<Rightarrow> Some (s\<lparr>lc_stopping := None, lc_signals := False\<rparr>))"

fun lifecycle_step :: "restart_policy option \<Rightarrow> lifecycle_event \<Rightarrow> lifecycle \<Rightarrow> lifecycle option" where
  "lifecycle_step policy (CallStart handle) s = Some (snd (call_start handle s))"
| "lifecycle_step policy (CallStop timeout) s = Some (snd (call_stop timeout s))"
| "lifecycle_step policy CallRunOnce s = Some (snd (call_run_once s))"
| "lifecycle_step policy (LaunchOk now) s =
     (if lc_starting s = Some Launching
      then let (r, s') = launch s in
           Some (s'\<lparr>lc_starting := None,
             lc_run := Some \<lparr>rn_stopped = False, rn_runner = Some r, rn_supervisor = Watching r now 0\<rparr>\<rparr>)
      else None)"
| "lifecycle_step policy LaunchFails s =
     (if lc_starting s = Some Launching
      then Some (s\<lparr>lc_starting := Some ReleasingAfterFailure, lc_signals := False\<rparr>) else None)"
| "lifecycle_step policy ReleasedAfterFailure s =
     (if lc_starting s = Some ReleasingAfterFailure then Some (s\<lparr>lc_starting := None\<rparr>) else None)"
| "lifecycle_step policy (RunnerEnds r failed) s =
     (if r \<in> set (lc_live s)
      then Some (s\<lparr>lc_live := removeAll r (lc_live s), lc_ended := (r, failed) # lc_ended s\<rparr>) else None)"
| "lifecycle_step policy OnceEnds s = (if lc_once s then Some (s\<lparr>lc_once := False\<rparr>) else None)"
| "lifecycle_step policy StopAdvances s = stop_advances s"
| "lifecycle_step policy ev s =
     (case lc_run s of None \<Rightarrow> None | Some c \<Rightarrow> supervisor_event policy ev c s)"

inductive lifecycle_reachable :: "restart_policy option \<Rightarrow> lifecycle \<Rightarrow> bool" for policy where
  created: "lifecycle_reachable policy new_lifecycle"
| step: "lifecycle_reachable policy s \<Longrightarrow> lifecycle_step policy ev s = Some s' \<Longrightarrow> lifecycle_reachable policy s'"

section \<open>What every interleaving keeps\<close>

text \<open>
  The only live runner is the one the supervisor watches or stops; while something starts or
  runs once, or the client is released, there is no run at all; a stopped run is exactly one that a
  pending stop waits for.
\<close>

definition live_of :: "supervised_run option \<Rightarrow> nat list" where
  "live_of run =
     (case run of
        None \<Rightarrow> []
      | Some c \<Rightarrow> (case rn_supervisor c of Watching r _ _ \<Rightarrow> [r] | StoppingLate r \<Rightarrow> [r] | _ \<Rightarrow> []))"

fun stop_phase_ok :: "stop_phase option \<Rightarrow> lifecycle \<Rightarrow> bool" where
  "stop_phase_ok (Some AwaitOnce) s \<longleftrightarrow> lc_starting s = None \<and> lc_run s = None"
| "stop_phase_ok (Some (AwaitRunner x)) s \<longleftrightarrow> lc_starting s = None \<and> \<not> lc_once s \<and> lc_run s \<noteq> None \<and>
     (case x of None \<Rightarrow> True | Some r \<Rightarrow> r \<in> set (lc_live s) \<or> has_ended r s)"
| "stop_phase_ok (Some AwaitCompletion) s \<longleftrightarrow> lc_starting s = None \<and> \<not> lc_once s \<and> lc_run s \<noteq> None"
| "stop_phase_ok (Some AwaitRelease) s \<longleftrightarrow> lc_starting s = None \<and> \<not> lc_once s \<and> lc_run s = None"
| "stop_phase_ok _ s \<longleftrightarrow> True"

fun stops_run :: "stop_phase option \<Rightarrow> bool" where
  "stops_run (Some (AwaitRunner x)) = True"
| "stops_run (Some AwaitCompletion) = True"
| "stops_run _ = False"

fun supervisor_ok :: "restart_policy option \<Rightarrow> supervised_run \<Rightarrow> supervisor \<Rightarrow> bool" where
  "supervisor_ok policy c (Watching r _ _) \<longleftrightarrow> rn_runner c = Some r"
| "supervisor_ok policy c (StoppingLate _) \<longleftrightarrow> rn_stopped c \<and> rn_runner c = None"
| "supervisor_ok policy c Done \<longleftrightarrow> rn_stopped c"
| "supervisor_ok policy c _ \<longleftrightarrow> policy \<noteq> None \<and> rn_runner c = None"

definition lifecycle_inv :: "restart_policy option \<Rightarrow> lifecycle \<Rightarrow> bool" where
  "lifecycle_inv policy s \<longleftrightarrow>
     (lc_live s = [] \<or> lc_live s = live_of (lc_run s)) \<and>
     list_all (\<lambda>r. \<not> has_ended r s) (lc_live s) \<and>
     list_all (\<lambda>r. r \<in> set (lc_live s) \<or> has_ended r s) (live_of (lc_run s)) \<and>
     (lc_starting s \<noteq> None \<longrightarrow> lc_run s = None \<and> \<not> lc_once s) \<and>
     (lc_once s \<longrightarrow> lc_run s = None) \<and>
     (lc_signals s \<longrightarrow> lc_starting s = Some Launching \<or> (\<exists>c. lc_run s = Some c \<and> \<not> rn_stopped c)) \<and>
     stop_phase_ok (lc_stopping s) s \<and>
     (case lc_run s of None \<Rightarrow> True
      | Some c \<Rightarrow> (rn_stopped c \<longleftrightarrow> stops_run (lc_stopping s)) \<and> supervisor_ok policy c (rn_supervisor c))"

lemma fresh_runner_not_ended [simp]: "\<not> has_ended (fresh_runner s) s" "fresh_runner s \<notin> set (lc_live s)"
proof -
  let ?X = "set (0 # lc_live s @ map fst (lc_ended s))"
  have "x < fresh_runner s" if "x \<in> ?X" for x
    unfolding fresh_runner_def less_Suc_eq_le by (rule Max_ge [OF finite_set that])
  then have "fresh_runner s \<notin> ?X" by blast
  then show "\<not> has_ended (fresh_runner s) s" "fresh_runner s \<notin> set (lc_live s)"
    by (force simp: has_ended_def dest: map_of_SomeD)+
qed

lemma has_ended_update [simp]:
  "has_ended r (s\<lparr>lc_run := a\<rparr>) = has_ended r s" "has_ended r (s\<lparr>lc_starting := b\<rparr>) = has_ended r s"
  "has_ended r (s\<lparr>lc_stopping := c\<rparr>) = has_ended r s" "has_ended r (s\<lparr>lc_once := o'\<rparr>) = has_ended r s"
  "has_ended r (s\<lparr>lc_signals := o'\<rparr>) = has_ended r s" "has_ended r (s\<lparr>lc_live := l\<rparr>) = has_ended r s"
  "has_ended r (s\<lparr>lc_ended := (q, f) # lc_ended s\<rparr>) \<longleftrightarrow> r = q \<or> has_ended r s"
  by (simp_all add: has_ended_def)

lemma live_of_simps [simp]:
  "live_of None = []"
  "live_of (Some c) = (case rn_supervisor c of Watching r _ _ \<Rightarrow> [r] | StoppingLate r \<Rightarrow> [r] | _ \<Rightarrow> [])"
  by (simp_all add: live_of_def)

lemma stop_run_inv:
  assumes "lifecycle_inv policy s" "lc_starting s = None" "\<not> lc_once s"
    "\<not> stops_run (lc_stopping s)"
  shows "lifecycle_inv policy (stop_run s)"
proof (cases "lc_run s")
  case None
  with assms show ?thesis by (simp add: lifecycle_inv_def stop_run_def)
next
  case (Some c)
  with assms show ?thesis
    by (cases "rn_supervisor c") (auto simp: lifecycle_inv_def stop_run_def)
qed

lemma call_start_inv: "lifecycle_inv policy s \<Longrightarrow> lifecycle_inv policy (snd (call_start handle s))"
  by (auto simp: call_start_def lifecycle_inv_def split: option.splits)

lemma call_run_once_inv: "lifecycle_inv policy s \<Longrightarrow> lifecycle_inv policy (snd (call_run_once s))"
  by (auto simp: call_run_once_def lifecycle_inv_def split: option.splits)

lemma call_stop_inv:
  assumes inv: "lifecycle_inv policy s"
  shows "lifecycle_inv policy (snd (call_stop timeout s))"
proof -
  have "lifecycle_inv policy (s\<lparr>lc_stopping := Some ph\<rparr>)"
    if "lc_stopping s = None" "ph = AwaitStart \<or> ph = AwaitOnce \<and> lc_once s" for ph
    using inv that by (auto simp: lifecycle_inv_def split: option.splits)
  with inv stop_run_inv [OF inv] show ?thesis
    by (auto simp: call_stop_def split: sum.split)
qed

lemma stop_advances_inv:
  assumes inv: "lifecycle_inv policy s" and "stop_advances s = Some s'"
  shows "lifecycle_inv policy s'"
proof (cases "\<exists>ph. lc_stopping s = Some ph \<and> (ph = AwaitStart \<or> ph = AwaitOnce) \<and> \<not> lc_once s")
  case True
  with assms have "s' = stop_run s" "lc_starting s = None" "\<not> stops_run (lc_stopping s)" "\<not> lc_once s"
    by (auto simp: stop_advances_def lifecycle_inv_def split: if_splits)
  with stop_run_inv [OF inv] show ?thesis by simp
next
  case False
  with assms(2) obtain ph where ph: "lc_stopping s = Some ph"
    by (auto simp: stop_advances_def split: option.splits)
  show ?thesis
  proof (cases "lc_run s")
    case None
    with assms False ph show ?thesis
      by (cases ph) (auto simp: stop_advances_def lifecycle_inv_def split: if_splits)
  next
    case (Some c)
    with assms False ph show ?thesis
      by (cases ph; cases "rn_supervisor c")
        (auto simp: stop_advances_def lifecycle_inv_def split: if_splits)
  qed
qed

text \<open>The supervisor moves to a state that has no runner, or to one with the runner it launched.\<close>

lemma idle_supervisor_inv:
  assumes "lifecycle_inv policy s" "lc_run s = Some c" "lc_live s = []"
    and "live_of (Some (c'\<lparr>rn_supervisor := v\<rparr>)) = []" "rn_stopped c' = rn_stopped c" "supervisor_ok policy c' v"
  shows "lifecycle_inv policy (set_supervisor v c' s)"
proof -
  have "stop_phase_ok (lc_stopping s) (set_supervisor v c' s)"
    using assms(1,2) by (cases "(lc_stopping s, s)" rule: stop_phase_ok.cases)
      (auto simp: lifecycle_inv_def set_supervisor_def split: option.splits)
  moreover have "supervisor_ok policy (c'\<lparr>rn_supervisor := v\<rparr>) v" using assms(6) by (cases v) auto
  ultimately show ?thesis
    using assms by (auto simp: lifecycle_inv_def set_supervisor_def)
qed

lemma launched_inv:
  assumes "lifecycle_inv policy s" "lc_run s = Some c" "lc_live s = []" "launch s = (r, s')"
    and "live_of (Some (c'\<lparr>rn_supervisor := v\<rparr>)) = [r]" "rn_stopped c' = rn_stopped c" "supervisor_ok policy c' v"
  shows "lifecycle_inv policy (set_supervisor v c' s')"
proof -
  have s': "s' = s\<lparr>lc_live := [r]\<rparr>" "\<not> has_ended r s" using assms(3,4) by (auto simp: launch_def)
  have "stop_phase_ok (lc_stopping s) (set_supervisor v c' s')"
    using assms(1-3) s' by (cases "(lc_stopping s, s)" rule: stop_phase_ok.cases)
      (auto simp: lifecycle_inv_def set_supervisor_def split: option.splits)
  moreover have "supervisor_ok policy (c'\<lparr>rn_supervisor := v\<rparr>) v" using assms(7) by (cases v) auto
  ultimately show ?thesis
    using assms(1-3,5,6) s' by (auto simp: lifecycle_inv_def set_supervisor_def)
qed

lemma not_live:
  assumes "lifecycle_inv policy s" "lc_run s = Some c"
    and "case rn_supervisor c of Watching r _ _ \<Rightarrow> has_ended r s | StoppingLate r \<Rightarrow> has_ended r s | _ \<Rightarrow> True"
  shows "lc_live s = []"
  using assms by (auto simp: lifecycle_inv_def split: supervisor.splits)

lemma runner_ended_inv:
  assumes inv: "lifecycle_inv policy s" "lc_run s = Some c" "lc_live s = []"
  shows "lifecycle_inv policy (runner_ended policy now failed started attempt c s)"
proof (cases "rn_stopped c")
  case True
  with idle_supervisor_inv [OF inv, where v = Done and c' = c] show ?thesis by (simp add: runner_ended_def)
next
  case False
  then have over: "lifecycle_inv policy (s\<lparr>lc_run := None, lc_signals := False\<rparr>)"
    using inv by (cases "(lc_stopping s, s)" rule: stop_phase_ok.cases) (auto simp: lifecycle_inv_def)
  have "lifecycle_inv policy (relaunch p now a c s)" if "policy = Some p" for p a
    unfolding relaunch_def using that by (intro idle_supervisor_inv [OF inv]) simp_all
  with over False show ?thesis by (auto simp: runner_ended_def split: option.split)
qed

lemma supervisor_event_inv:
  assumes inv: "lifecycle_inv policy s" "lc_run s = Some c" and ev: "supervisor_event policy ev c s = Some s'"
  shows "lifecycle_inv policy s'"
proof (cases "rn_supervisor c")
  case (Watching r started attempt)
  with ev have "has_ended r s" and "\<exists>now failed. s' = runner_ended policy now failed started attempt c s"
    by (auto simp: supervisor_event_def has_ended_def split: lifecycle_event.splits)
  with runner_ended_inv [OF inv] not_live [OF inv] Watching show ?thesis by auto
next
  case (Waiting attempt until)
  with inv have live: "lc_live s = []" and "policy \<noteq> None" "rn_runner c = None"
    by (auto simp: lifecycle_inv_def)
  then have "lifecycle_inv policy (set_supervisor Done c s)" if "rn_stopped c"
    using that by (intro idle_supervisor_inv [OF inv]) simp_all
  moreover have "lifecycle_inv policy (set_supervisor (Relaunching attempt) c s)"
    using live \<open>policy \<noteq> None\<close> \<open>rn_runner c = None\<close> by (intro idle_supervisor_inv [OF inv]) simp_all
  ultimately show ?thesis
    using ev Waiting by (auto simp: supervisor_event_def split: lifecycle_event.splits if_splits)
next
  case (Relaunching attempt)
  with inv have live: "lc_live s = []" and pol: "policy \<noteq> None" "rn_runner c = None"
    by (auto simp: lifecycle_inv_def)
  obtain r s1 where l: "launch s = (r, s1)" by (cases "launch s")
  have "lifecycle_inv policy (set_supervisor (StoppingLate r) c s1)" if "rn_stopped c"
    using that pol by (intro launched_inv [OF inv live l]) simp_all
  moreover have "lifecycle_inv policy (set_supervisor (Watching r now attempt) (c\<lparr>rn_runner := Some r\<rparr>) s1)" for now
    by (intro launched_inv [OF inv live l]) simp_all
  moreover have "lifecycle_inv policy (set_supervisor Done c s)" if "rn_stopped c"
    using that live by (intro idle_supervisor_inv [OF inv]) simp_all
  moreover have "lifecycle_inv policy (relaunch p now attempt c s)" for p now
    unfolding relaunch_def using live pol by (intro idle_supervisor_inv [OF inv]) simp_all
  ultimately show ?thesis
    using ev Relaunching l by (auto simp: supervisor_event_def split: lifecycle_event.splits if_splits)
next
  case (StoppingLate r)
  with ev have "has_ended r s" "s' = set_supervisor Done c s"
    by (auto simp: supervisor_event_def split: lifecycle_event.splits if_splits)
  moreover have "rn_stopped c" using inv StoppingLate by (auto simp: lifecycle_inv_def)
  ultimately show ?thesis
    using not_live [OF inv] StoppingLate by (auto intro!: idle_supervisor_inv [OF inv])
next
  case Done
  with ev show ?thesis by (auto simp: supervisor_event_def split: lifecycle_event.splits)
qed

lemma runner_ends_inv:
  assumes inv: "lifecycle_inv policy s" and r: "r \<in> set (lc_live s)"
  shows "lifecycle_inv policy (s\<lparr>lc_live := removeAll r (lc_live s), lc_ended := (r, failed) # lc_ended s\<rparr>)"
    (is "lifecycle_inv policy ?s")
proof -
  from r inv obtain c where c: "lc_run s = Some c" "lc_live s = live_of (lc_run s)"
    by (cases "lc_run s") (auto simp: lifecycle_inv_def)
  with r have live: "lc_live s = [r]" "live_of (lc_run s) = [r]" by (auto split: supervisor.splits)
  have ended: "has_ended q ?s \<longleftrightarrow> q = r \<or> has_ended q s" for q by (simp add: has_ended_def)
  have "stop_phase_ok (lc_stopping s) ?s"
    using inv live ended by (cases "(lc_stopping s, s)" rule: stop_phase_ok.cases)
      (auto simp: lifecycle_inv_def split: option.splits)
  then show ?thesis
    using inv live ended by (simp add: lifecycle_inv_def cong: option.case_cong)
qed

lemma launch_ok_inv:
  assumes inv: "lifecycle_inv policy s" and "lc_starting s = Some Launching" "launch s = (r, s')"
  shows "lifecycle_inv policy (s'\<lparr>lc_starting := None,
    lc_run := Some \<lparr>rn_stopped = False, rn_runner = Some r, rn_supervisor = Watching r now 0\<rparr>\<rparr>)"
proof -
  have s': "s' = s\<lparr>lc_live := r # lc_live s\<rparr>" "\<not> has_ended r s"
    using assms(3) by (auto simp: launch_def)
  moreover have "lc_run s = None" "lc_live s = []" "\<not> stops_run (lc_stopping s)"
    "\<not> lc_once s" "lc_stopping s = None \<or> lc_stopping s = Some AwaitStart"
    using inv assms(2) by (cases "(lc_stopping s, s)" rule: stop_phase_ok.cases; auto simp: lifecycle_inv_def)+
  ultimately show ?thesis
    using inv by (auto simp: lifecycle_inv_def)
qed

lemma lifecycle_step_inv:
  assumes inv: "lifecycle_inv policy s" and st: "lifecycle_step policy ev s = Some s'"
  shows "lifecycle_inv policy s'"
proof (cases "\<exists>c. lc_run s = Some c \<and> supervisor_event policy ev c s = Some s'")
  case True
  with supervisor_event_inv [OF inv] show ?thesis by blast
next
  case False
  have quiet: "lifecycle_inv policy (s\<lparr>lc_once := False\<rparr>)"
    "lc_starting s \<noteq> None \<Longrightarrow> lifecycle_inv policy (s\<lparr>lc_starting := None, lc_signals := False\<rparr>)"
    "lc_starting s \<noteq> None \<Longrightarrow>
      lifecycle_inv policy (s\<lparr>lc_starting := Some ReleasingAfterFailure, lc_signals := False\<rparr>)"
    using inv by (cases "(lc_stopping s, s)" rule: stop_phase_ok.cases;
        auto simp: lifecycle_inv_def split: option.splits)+
  show ?thesis
  proof (cases ev)
    case (LaunchOk now)
    obtain r s1 where "launch s = (r, s1)" by (cases "launch s")
    with launch_ok_inv [OF inv] LaunchOk st show ?thesis by (auto split: if_splits)
  next
    case ReleasedAfterFailure
    with inv st have "\<not> lc_signals s" by (auto simp: lifecycle_inv_def split: if_splits)
    then have "s\<lparr>lc_starting := None\<rparr> = s\<lparr>lc_starting := None, lc_signals := False\<rparr>" by simp
    with ReleasedAfterFailure quiet st show ?thesis by (auto split: if_splits)
  qed (use inv st False quiet call_start_inv call_stop_inv call_run_once_inv stop_advances_inv
      runner_ends_inv in \<open>auto split: if_splits option.splits\<close>)
qed

lemma lifecycle_reachable_inv: "lifecycle_reachable policy s \<Longrightarrow> lifecycle_inv policy s"
proof (induction rule: lifecycle_reachable.induct)
  case created
  then show ?case by (simp add: lifecycle_inv_def new_lifecycle_def)
qed (rule lifecycle_step_inv)

section \<open>One runner at a time\<close>

lemma one_live:
  assumes "lifecycle_inv policy s"
  shows "length (lc_live s) \<le> 1"
proof -
  have "length (live_of run) \<le> 1" for run by (cases run) (auto split: supervisor.split)
  moreover have "lc_live s = [] \<or> lc_live s = live_of (lc_run s)" using assms by (simp add: lifecycle_inv_def)
  ultimately show ?thesis by (elim disjE) simp_all
qed

text \<open>
  C33 At most one runner: whatever the interleaving of \<open>start\<close>, \<open>stop\<close>, \<open>runOnce\<close>, failing runners and
  restarts, no two runners of a worker are live together; nothing is live while a start or a single
  run is under way, nor while the client's utilities are released; and the signal handlers stand
  only while something starts or runs unstopped.
\<close>

theorem at_most_one_runner:
  assumes "lifecycle_reachable policy s"
  shows "length (lc_live s) \<le> 1 \<and>
    (lc_once s \<or> lc_starting s \<noteq> None \<or> lc_stopping s = Some AwaitRelease \<longrightarrow> lc_live s = [] \<and> lc_run s = None) \<and>
    (lc_signals s \<longrightarrow> lc_starting s = Some Launching \<or> (\<exists>c. lc_run s = Some c \<and> \<not> rn_stopped c))"
proof -
  note inv = lifecycle_reachable_inv [OF assms]
  have "length (lc_live s) \<le> 1" by (rule one_live [OF inv])
  moreover have "lc_run s = None" if "lc_once s \<or> lc_starting s \<noteq> None \<or> lc_stopping s = Some AwaitRelease"
    using inv that by (auto simp: lifecycle_inv_def)
  moreover have "lc_live s = []" if "lc_run s = None" using inv that by (simp add: lifecycle_inv_def)
  ultimately show ?thesis using inv by (auto simp: lifecycle_inv_def)
qed

text \<open>A run whose first runner failed and whose restart was stopped while it was starting.\<close>

fun run_events :: "restart_policy option \<Rightarrow> lifecycle_event list \<Rightarrow> lifecycle \<Rightarrow> lifecycle option" where
  "run_events policy [] s = Some s"
| "run_events policy (ev # evs) s = Option.bind (lifecycle_step policy ev s) (run_events policy evs)"

lemma run_events_reachable:
  "lifecycle_reachable policy s \<Longrightarrow> run_events policy evs s = Some s' \<Longrightarrow> lifecycle_reachable policy s'"
  by (induction evs arbitrary: s) (auto simp: bind_eq_Some_conv dest: lifecycle_reachable.step)

definition sample_policy :: restart_policy where
  "sample_policy = \<lparr>rp_delay = 1000, rp_max_delay = 30000\<rparr>"

definition sample_late_restart :: lifecycle where
  "sample_late_restart = the (run_events (Some sample_policy)
     [CallStart True, LaunchOk 0, RunnerEnds 1 True, Supervised 500, WaitEnds 1500, CallStop None, RelaunchOk 1600]
     new_lifecycle)"

lemma sample_late_restart_run:
  "run_events (Some sample_policy)
     [CallStart True, LaunchOk 0, RunnerEnds 1 True, Supervised 500, WaitEnds 1500, CallStop None, RelaunchOk 1600]
     new_lifecycle = Some sample_late_restart"
  "lc_live sample_late_restart = [2]" "lc_stopping sample_late_restart = Some (AwaitRunner None)"
  by (code_simp+)

lemmas sample_late_restart_reachable =
  run_events_reachable [OF lifecycle_reachable.created sample_late_restart_run(1)]

theorem at_most_one_runner_witness:
  "lifecycle_reachable (Some sample_policy) sample_late_restart \<and> lc_live sample_late_restart = [2] \<and>
   length (lc_live sample_late_restart) \<le> 1 \<and> \<not> lc_once sample_late_restart"
  using at_most_one_runner [OF sample_late_restart_reachable] sample_late_restart_reachable
    sample_late_restart_run(2) by auto

section \<open>Stopping ends and leaves nothing behind\<close>

fun is_call :: "lifecycle_event \<Rightarrow> bool" where
  "is_call (CallStart _) = True"
| "is_call (CallStop _) = True"
| "is_call CallRunOnce = True"
| "is_call _ = False"

fun phase_work :: "stop_phase option \<Rightarrow> nat" where
  "phase_work (Some (AwaitRunner _)) = 3"
| "phase_work (Some AwaitCompletion) = 2"
| "phase_work (Some AwaitRelease) = 1"
| "phase_work _ = 0"

fun supervisor_work :: "supervisor \<Rightarrow> nat" where
  "supervisor_work (Relaunching _) = 3"
| "supervisor_work Done = 0"
| "supervisor_work _ = 1"

definition stop_work :: "lifecycle \<Rightarrow> nat" where
  "stop_work s = phase_work (lc_stopping s) +
     (case lc_run s of None \<Rightarrow> 0 | Some c \<Rightarrow> supervisor_work (rn_supervisor c)) + length (lc_live s)"

lemma call_while_stopping:
  assumes "lc_stopping s \<noteq> None" "is_call ev"
  shows "lifecycle_step policy ev s = Some s"
  using assms by (cases ev) (auto simp: call_start_def call_stop_def call_run_once_def split: sum.split)

lemma supervisor_decreases:
  assumes inv: "lifecycle_inv policy s" "lc_run s = Some c" "rn_stopped c"
    and ev: "supervisor_event policy ev c s = Some s'"
  shows "stop_work s' < stop_work s"
proof (cases "rn_supervisor c")
  case (Watching r started attempt)
  with inv ev show ?thesis
    by (auto simp: supervisor_event_def runner_ended_def set_supervisor_def stop_work_def
        split: lifecycle_event.splits)
next
  case (Waiting attempt until)
  with inv ev show ?thesis
    by (auto simp: supervisor_event_def set_supervisor_def stop_work_def split: lifecycle_event.splits)
next
  case (Relaunching attempt)
  with inv ev show ?thesis
    by (auto simp: supervisor_event_def set_supervisor_def stop_work_def launch_def
        split: lifecycle_event.splits)
next
  case (StoppingLate r)
  with inv ev show ?thesis
    by (auto simp: supervisor_event_def set_supervisor_def stop_work_def
        split: lifecycle_event.splits if_splits)
next
  case Done
  with ev show ?thesis by (auto simp: supervisor_event_def split: lifecycle_event.splits)
qed

lemma stop_decreases:
  assumes inv: "lifecycle_inv policy s" and stopping: "stops_run (lc_stopping s) \<or> lc_stopping s = Some AwaitRelease"
    and st: "lifecycle_step policy ev s = Some s'" "\<not> is_call ev"
  shows "stop_work s' < stop_work s"
proof (cases "\<exists>c. lc_run s = Some c \<and> supervisor_event policy ev c s = Some s'")
  case True
  then obtain c where c: "lc_run s = Some c" "supervisor_event policy ev c s = Some s'" by blast
  with inv stopping have "rn_stopped c" by (auto simp: lifecycle_inv_def)
  with supervisor_decreases [OF inv c(1) _ c(2)] show ?thesis .
next
  case False
  have idle: "lc_starting s = None" "\<not> lc_once s"
    using inv stopping by (cases "(lc_stopping s, s)" rule: stop_phase_ok.cases; auto simp: lifecycle_inv_def)+
  show ?thesis
  proof (cases ev)
    case (RunnerEnds r failed)
    with st have "r \<in> set (lc_live s)" "lc_live s' = removeAll r (lc_live s)"
      "lc_run s' = lc_run s" "lc_stopping s' = lc_stopping s"
      by (auto split: if_splits)
    then show ?thesis
      by (auto simp: stop_work_def simp flip: remove1_split intro: length_removeAll_less)
  next
    case StopAdvances
    with st stopping show ?thesis
      by (cases "lc_stopping s" rule: phase_work.cases)
        (auto simp: stop_advances_def stop_work_def split: if_splits option.splits)
  qed (use st idle False in \<open>auto split: option.splits\<close>)
qed

lemma stop_progresses:
  assumes inv: "lifecycle_inv policy s" and stopping: "stops_run (lc_stopping s) \<or> lc_stopping s = Some AwaitRelease"
  shows "\<exists>ev s'. \<not> is_call ev \<and> lifecycle_step policy ev s = Some s'"
proof (cases "lc_live s")
  case (Cons r rs)
  then show ?thesis by (intro exI [of _ "RunnerEnds r False"]) simp
next
  case Nil
  show ?thesis
  proof (cases "lc_stopping s = Some AwaitCompletion")
    case True
    with inv obtain c where c: "lc_run s = Some c" "rn_stopped c" "supervisor_ok policy c (rn_supervisor c)"
      by (auto simp: lifecycle_inv_def)
    show ?thesis
    proof (cases "rn_supervisor c")
      case (Watching r started attempt)
      with inv Nil c(1) have "has_ended r s" by (simp add: lifecycle_inv_def)
      with c(1) Watching show ?thesis
        by (intro exI [of _ "Supervised 0"]) (auto simp: supervisor_event_def has_ended_def)
    next
      case Waiting
      with c show ?thesis by (intro exI [of _ "WaitEnds 0"]) (auto simp: supervisor_event_def)
    next
      case Relaunching
      with c show ?thesis by (intro exI [of _ "RelaunchFails 0"]) (auto simp: supervisor_event_def)
    next
      case (StoppingLate r)
      with inv Nil c(1) have "has_ended r s" by (simp add: lifecycle_inv_def)
      with c(1) StoppingLate show ?thesis
        by (intro exI [of _ LateStopped]) (auto simp: supervisor_event_def)
    next
      case Done
      with c(1) True show ?thesis by (intro exI [of _ StopAdvances]) (auto simp: stop_advances_def)
    qed
  next
    case False
    with stopping inv Nil show ?thesis
      by (intro exI [of _ StopAdvances])
        (cases "lc_stopping s" rule: phase_work.cases, auto simp: stop_advances_def lifecycle_inv_def
          split: option.splits)
  qed
qed

lemma supervisor_event_stopping:
  "supervisor_event policy ev c s = Some s' \<Longrightarrow> lc_stopping s' = lc_stopping s"
  by (cases "rn_supervisor c"; cases ev)
    (auto simp: supervisor_event_def set_supervisor_def runner_ended_def relaunch_def launch_def
      split: if_splits option.splits)

lemma stops_run_Some: "stops_run ph \<Longrightarrow> ph \<noteq> None"
  by (cases ph) auto

lemma stop_done:
  assumes "lifecycle_step policy ev s = Some s'" "stops_run (lc_stopping s) \<or> lc_stopping s = Some AwaitRelease"
  shows "lc_stopping s' \<noteq> None \<or> ev = StopAdvances \<and> lc_stopping s = Some AwaitRelease"
proof (cases ev)
  case StopAdvances
  with assms show ?thesis
    by (cases "lc_stopping s" rule: phase_work.cases) (auto simp: stop_advances_def split: if_splits)
qed (use assms call_while_stopping [of s ev policy] supervisor_event_stopping [of policy ev _ s s']
    stops_run_Some [of "lc_stopping s"] in \<open>auto simp: launch_def split: if_splits option.splits\<close>)

text \<open>
  C35 Stopping ends, and leaves nothing behind: once \<open>stop\<close> has told the run to stop, every event is
  either a call, which changes nothing, or brings the end nearer by one of at most seven units; until it
  is done some event other than a call can happen; and when it is done no runner is live, not even one whose
  restart was under way, nothing starts, and no signal handler is left.
\<close>

theorem stop_ends_clean:
  assumes "lifecycle_reachable policy s" and "stops_run (lc_stopping s) \<or> lc_stopping s = Some AwaitRelease"
  shows "stop_work s \<le> 7 \<and>
    (\<exists>ev s'. \<not> is_call ev \<and> lifecycle_step policy ev s = Some s') \<and>
    (case lifecycle_step policy ev s of
       None \<Rightarrow> True
     | Some s' \<Rightarrow> (is_call ev \<and> s' = s \<or> stop_work s' < stop_work s) \<and>
         (lc_stopping s' \<noteq> None \<or>
          lc_live s' = [] \<and> lc_run s' = None \<and> lc_starting s' = None \<and> \<not> lc_once s' \<and> \<not> lc_signals s'))"
proof -
  note inv = lifecycle_reachable_inv [OF assms(1)]
  have phase: "phase_work ph \<le> 3" for ph by (cases ph rule: phase_work.cases) simp_all
  have "supervisor_work v \<le> 3" for v by (cases v) simp_all
  then have "(case lc_run s of None \<Rightarrow> 0 | Some c \<Rightarrow> supervisor_work (rn_supervisor c)) \<le> 3"
    by (simp split: option.split)
  then have bound: "stop_work s \<le> 7"
    using one_live [OF inv] phase [of "lc_stopping s"] unfolding stop_work_def by linarith
  have "is_call ev \<and> s' = s \<or> stop_work s' < stop_work s" if "lifecycle_step policy ev s = Some s'" for s'
  proof (cases "is_call ev")
    case True
    moreover have "lc_stopping s \<noteq> None" using assms(2) stops_run_Some by auto
    ultimately show ?thesis using call_while_stopping [of s ev policy] that by simp
  next
    case False
    then show ?thesis using stop_decreases [OF inv assms(2) that] by simp
  qed
  moreover have "lc_stopping s' \<noteq> None \<or>
      lc_live s' = [] \<and> lc_run s' = None \<and> lc_starting s' = None \<and> \<not> lc_once s' \<and> \<not> lc_signals s'"
    if st: "lifecycle_step policy ev s = Some s'" for s'
  proof -
    have "lc_stopping s' \<noteq> None \<or> ev = StopAdvances \<and> lc_stopping s = Some AwaitRelease"
      using st assms(2) by (rule stop_done)
    moreover have "lc_live s' = [] \<and> lc_run s' = None \<and> lc_starting s' = None \<and> \<not> lc_once s' \<and> \<not> lc_signals s'"
      if "ev = StopAdvances" "lc_stopping s = Some AwaitRelease"
      using st inv that by (auto simp: stop_advances_def lifecycle_inv_def)
    ultimately show ?thesis by blast
  qed
  ultimately show ?thesis
    using bound stop_progresses [OF inv assms(2)] by (simp split: option.split)
qed

theorem stop_ends_clean_witness:
  "stop_work sample_late_restart = 5 \<and>
   (\<exists>ev s'. \<not> is_call ev \<and> lifecycle_step (Some sample_policy) ev sample_late_restart = Some s' \<and>
     stop_work s' < 5)"
proof -
  have work: "stop_work sample_late_restart = 5" by code_simp
  have stopping: "stops_run (lc_stopping sample_late_restart) \<or> lc_stopping sample_late_restart = Some AwaitRelease"
    by (simp add: sample_late_restart_run)
  note claim = stop_ends_clean [OF sample_late_restart_reachable stopping]
  from claim obtain ev s' where ev: "\<not> is_call ev" "lifecycle_step (Some sample_policy) ev sample_late_restart = Some s'"
    by blast
  with claim [of ev] work show ?thesis by auto
qed

section \<open>Restarts\<close>

lemma resolve_restart_bounds:
  "resolve_restart opt = Inr (Some p) \<Longrightarrow>
   0 \<le> rp_delay p \<and> rp_delay p \<le> rp_max_delay p \<and> rp_max_delay p \<le> max_timer"
  by (auto simp: resolve_restart_def res_simps assert_integer_Inr split: restart_option.splits)

text \<open>
  The waits before restarts are the doubled delay capped by its maximum: under accepted options they
  lie between the first delay and the largest one, never shrink and at most double; and for a
  first delay of at least 2 ms the cap of the exponent at 30 is never seen.
\<close>

theorem restart_delays:
  assumes "resolve_restart opt = Inr (Some p)"
  shows "restart_delay p 1 = rp_delay p \<and>
    rp_delay p \<le> restart_delay p n \<and> restart_delay p n \<le> rp_max_delay p \<and>
    restart_delay p n \<le> restart_delay p (Suc n) \<and> restart_delay p (Suc n) \<le> 2 * restart_delay p n \<and>
    (rp_delay p \<noteq> 1 \<longrightarrow> restart_delay p (Suc n) = min (rp_max_delay p) (rp_delay p * 2 ^ n))"
proof -
  from resolve_restart_bounds [OF assms]
  have p: "0 \<le> rp_delay p" "rp_delay p \<le> rp_max_delay p" "rp_max_delay p \<le> 2147483647"
    by (simp_all add: max_timer_def)
  have mono: "rp_delay p * 2 ^ a \<le> rp_delay p * 2 ^ b" if "a \<le> b" for a b :: nat
    using p(1) that by (intro mult_left_mono power_increasing) auto
  have step: "rp_delay p * 2 ^ min n 30 \<le> 2 * (rp_delay p * 2 ^ min (n - 1) 30)"
  proof -
    have "min n 30 \<le> Suc (min (n - 1) 30)" by simp
    from mono [OF this] show ?thesis by (simp add: mult.left_commute)
  qed
  have cap30: "rp_max_delay p \<le> rp_delay p * 2 ^ 30" if "2 \<le> rp_delay p"
  proof -
    have "(2 :: int) * 2 ^ 30 \<le> rp_delay p * 2 ^ 30" using that by (intro mult_right_mono) auto
    with p(3) show ?thesis by simp
  qed
  have cap: "restart_delay p (Suc n) = min (rp_max_delay p) (rp_delay p * 2 ^ n)" if ne: "rp_delay p \<noteq> 1"
  proof (cases "n \<le> 30 \<or> rp_delay p = 0")
    case True
    then show ?thesis by (auto simp: restart_delay_def min_def)
  next
    case False
    with ne p(1) have "2 \<le> rp_delay p" by simp
    from cap30 [OF this] mono [of 30 n] False have "rp_max_delay p \<le> rp_delay p * 2 ^ n" by linarith
    with cap30 [OF \<open>2 \<le> rp_delay p\<close>] False show ?thesis by (simp add: restart_delay_def min_absorb1)
  qed
  have "min m y \<le> 2 * min m x" if "y \<le> 2 * x" "0 \<le> m" for m x y :: int using that by (simp add: min_def)
  from this [OF step] have "restart_delay p (Suc n) \<le> 2 * restart_delay p n"
    using p by (simp add: restart_delay_def)
  moreover have less: "min (n - 1) 30 \<le> min n 30" by simp
  moreover have "rp_delay p \<le> restart_delay p n" "restart_delay p n \<le> restart_delay p (Suc n)"
    using p mono [of 0 "min (n - 1) 30"] mono [OF less] by (simp_all add: restart_delay_def min_le_iff_disj)
  ultimately show ?thesis using p cap by (auto simp: restart_delay_def)
qed

theorem restart_delays_witness:
  "resolve_restart RestartDefault = Inr (Some sample_policy) \<and>
   map (restart_delay sample_policy) [1, 2, 3, 4, 5, 6, 7] = [1000, 2000, 4000, 8000, 16000, 30000, 30000] \<and>
   restart_delay sample_policy 6 \<le> rp_max_delay sample_policy"
proof -
  have "resolve_restart RestartDefault = Inr (Some sample_policy)"
    "map (restart_delay sample_policy) [1, 2, 3, 4, 5, 6, 7] = [1000, 2000, 4000, 8000, 16000, 30000, 30000]"
    by (code_simp+)
  with restart_delays [of RestartDefault sample_policy 6] show ?thesis by blast
qed

text \<open>
  A failed runner is replaced: when the runner of a run that nobody stopped fails, the next one is
  started after exactly the wait of its backoff and not before, with one attempt more, or with the
  first one again if the failed runner had outlived the longest wait; a restart that fails is
  followed by the next wait.
\<close>

theorem failed_runner_restarts:
  fixes now later :: int
  assumes "lifecycle_reachable (Some p) s" and "lc_run s = Some c" and "\<not> rn_stopped c"
    and "rn_supervisor c = Watching r started attempt" and "r \<in> set (lc_live s)"
  defines "n \<equiv> Suc (if rp_max_delay p \<le> now - started then 0 else attempt)"
  shows "\<exists>s1 c1. run_events (Some p) [RunnerEnds r True, Supervised now] s = Some s1 \<and>
    lc_run s1 = Some c1 \<and> lc_live s1 = [] \<and>
    lifecycle_step (Some p) (WaitEnds later) s1 =
      (if now + restart_delay p n \<le> later then Some (set_supervisor (Relaunching n) c1 s1) else None) \<and>
    (\<exists>s2. run_events (Some p) [RelaunchOk later] (set_supervisor (Relaunching n) c1 s1) = Some s2 \<and>
       length (lc_live s2) = 1 \<and>
       (\<exists>c2. lc_run s2 = Some c2 \<and> rn_supervisor c2 = Watching (hd (lc_live s2)) later n)) \<and>
    run_events (Some p) [RelaunchFails later] (set_supervisor (Relaunching n) c1 s1) =
      Some (set_supervisor (Waiting (Suc n) (later + restart_delay p (Suc n))) c1 s1)"
proof -
  from assms lifecycle_reachable_inv [OF assms(1)] have live: "lc_live s = [r]"
    by (auto simp: lifecycle_inv_def)
  let ?s0 = "s\<lparr>lc_live := [], lc_ended := (r, True) # lc_ended s\<rparr>"
  let ?c1 = "c\<lparr>rn_runner := None, rn_supervisor := Waiting n (now + restart_delay p n)\<rparr>"
  let ?s1 = "?s0\<lparr>lc_run := Some ?c1\<rparr>"
  have run: "run_events (Some p) [RunnerEnds r True, Supervised now] s = Some ?s1"
    using assms(2-4) live
    by (simp add: supervisor_event_def runner_ended_def relaunch_def set_supervisor_def n_def)
  have "lifecycle_step (Some p) (WaitEnds later) ?s1 =
      (if now + restart_delay p n \<le> later then Some (set_supervisor (Relaunching n) ?c1 ?s1) else None)"
    using assms(3) by (simp add: supervisor_event_def)
  moreover have "\<exists>s2. run_events (Some p) [RelaunchOk later] (set_supervisor (Relaunching n) ?c1 ?s1) = Some s2 \<and>
       length (lc_live s2) = 1 \<and>
       (\<exists>c2. lc_run s2 = Some c2 \<and> rn_supervisor c2 = Watching (hd (lc_live s2)) later n)"
    using assms(3) by (simp add: supervisor_event_def set_supervisor_def launch_def)
  moreover have "run_events (Some p) [RelaunchFails later] (set_supervisor (Relaunching n) ?c1 ?s1) =
      Some (set_supervisor (Waiting (Suc n) (later + restart_delay p (Suc n))) ?c1 ?s1)"
    using assms(3) by (simp add: supervisor_event_def set_supervisor_def relaunch_def)
  ultimately show ?thesis using run by (intro exI [of _ ?s1] exI [of _ ?c1]) simp
qed

definition sample_running :: lifecycle where
  "sample_running = the (run_events (Some sample_policy) [CallStart True, LaunchOk 0] new_lifecycle)"

theorem failed_runner_restarts_witness:
  "\<exists>s1. run_events (Some sample_policy) [RunnerEnds 1 True, Supervised 500] sample_running = Some s1 \<and>
    lifecycle_step (Some sample_policy) (WaitEnds 1499) s1 = None"
proof -
  have facts: "run_events (Some sample_policy) [CallStart True, LaunchOk 0] new_lifecycle = Some sample_running"
    "lc_run sample_running =
       Some \<lparr>rn_stopped = False, rn_runner = Some 1, rn_supervisor = Watching 1 0 0\<rparr>"
    "1 \<in> set (lc_live sample_running)" "\<not> rp_max_delay sample_policy \<le> 500 - 0"
    "restart_delay sample_policy 1 = 1000"
    by (code_simp+)
  have "lifecycle_reachable (Some sample_policy) sample_running"
    by (rule run_events_reachable [OF lifecycle_reachable.created facts(1)])
  from failed_runner_restarts [OF this facts(2) _ _ facts(3), of 0 0 500 1499] facts(4,5) show ?thesis
    by fastforce
qed

end
