(* ===== verification/Shutdown.thy ===== *)
theory Shutdown
  imports Lifecycle
begin

text \<open>
  Shutting down while the database may be unreachable, \<^verbatim>\<open>src/src/shutdown.ts\<close>: the
  options of the probe, what counts as an answer, and the race of the shutdown with its probes
  as a state machine over its events. The connection a probe opens is a parameter: an event says
  how it ended.
\<close>

section \<open>Options and probes\<close>

record database_probe =
  dp_interval :: int
  dp_timeout :: int

datatype probe_option = ProbeOff | ProbeOn | ProbeWith "jsnum option" "jsnum option"

definition resolve_database_probe :: "probe_option \<Rightarrow> database_probe option res" where
  "resolve_database_probe opt =
     (case opt of
        ProbeOff \<Rightarrow> Inr None
      | _ \<Rightarrow>
          (let (interval, timeout) = (case opt of ProbeWith i t \<Rightarrow> (i, t) | _ \<Rightarrow> (None, None)) in
           bind_res (assert_integer (nullish_else interval (int_num 1000)) ''probeDatabase.interval'' 0 max_timer) (\<lambda>i.
           bind_res (assert_integer (nullish_else timeout (int_num 2000)) ''probeDatabase.timeout'' 1 max_timer) (\<lambda>t.
           Inr (Some \<lparr>dp_interval = i, dp_timeout = t\<rparr>)))))"

text \<open>
  How a probe ends: the query succeeded; the connection or query failed, with an error the
  server sent (it has a severity) or any other; the timeout passed; or the probe was aborted.
\<close>

datatype probe_end = ProbeSucceeded | ProbeFailed bool | ProbeTimedOut | ProbeAborted

fun database_answers :: "probe_end \<Rightarrow> bool" where
  "database_answers ProbeSucceeded = True"
| "database_answers (ProbeFailed has_severity) = has_severity"
| "database_answers ProbeTimedOut = False"
| "database_answers ProbeAborted = True"

section \<open>The race\<close>

datatype probe_phase = Pausing | Probing | ProbingOver

record race =
  rc_phase :: probe_phase
  rc_work :: "unit res option"
  rc_result :: "unit res option"

datatype race_event = WorkSettles "unit res" | PauseEnds | ProbeEnds probe_end

text \<open>A pool without connection options is never probed.\<close>

definition start_race :: "bool \<Rightarrow> race" where
  "start_race has_options =
     \<lparr>rc_phase = (if has_options then Pausing else ProbingOver), rc_work = None, rc_result = None\<rparr>"

text \<open>
  One event. When the work settles, the abort ends the pause or the probe under way, and the
  loop returns the settled work. A promise settles once: the first result stays.
\<close>

fun race_step :: "race_event \<Rightarrow> race \<Rightarrow> race option" where
  "race_step (WorkSettles r) s =
     (if rc_work s \<noteq> None then None
      else Some (s\<lparr>rc_phase := ProbingOver, rc_work := Some r, rc_result := nullish (rc_result s) (Some r)\<rparr>))"
| "race_step PauseEnds s =
     (if rc_phase s \<noteq> Pausing then None else Some (s\<lparr>rc_phase := Probing\<rparr>))"
| "race_step (ProbeEnds e) s =
     (if rc_phase s \<noteq> Probing then None
      else if database_answers e then Some (s\<lparr>rc_phase := Pausing\<rparr>)
      else Some (s\<lparr>rc_phase := ProbingOver,
             rc_result := nullish (rc_result s) (Some (Inl DatabaseUnreachableError))\<rparr>))"

fun while_reachable :: "race_event list \<Rightarrow> race \<Rightarrow> race option" where
  "while_reachable [] s = Some s"
| "while_reachable (e # es) s = (case race_step e s of None \<Rightarrow> None | Some s' \<Rightarrow> while_reachable es s')"

text \<open>The winner: the first event that settles the race.\<close>

fun race_winner :: "race_event list \<Rightarrow> unit res option" where
  "race_winner [] = None"
| "race_winner (WorkSettles r # es) = Some r"
| "race_winner (ProbeEnds e # es) =
     (if database_answers e then race_winner es else Some (Inl DatabaseUnreachableError))"
| "race_winner (PauseEnds # es) = race_winner es"

lemma race_over:
  "while_reachable es s = Some s' \<Longrightarrow> rc_result s = Some r \<Longrightarrow> rc_result s' = Some r"
  by (induction es s rule: while_reachable.induct)
     (auto split: option.splits if_splits elim!: race_step.elims)

lemma race_settles:
  "while_reachable es s = Some s' \<Longrightarrow> rc_result s = None \<Longrightarrow> rc_result s' = race_winner es"
proof (induction es s rule: while_reachable.induct)
  case (2 e es s)
  then obtain t where t: "race_step e s = Some t" "while_reachable es t = Some s'"
    by (auto split: option.splits)
  show ?case
  proof (cases e)
    case (WorkSettles r)
    then have "rc_result t = Some r" using t(1) 2(3) by (auto split: if_splits)
    with race_over [OF t(2)] WorkSettles show ?thesis by simp
  next
    case PauseEnds
    then have "rc_result t = None" using t(1) 2(3) by (auto split: if_splits)
    with 2(1) [OF t] PauseEnds show ?thesis by simp
  next
    case (ProbeEnds p)
    show ?thesis
    proof (cases "database_answers p")
      case True
      then have "rc_result t = None" using t(1) 2(3) ProbeEnds by (auto split: if_splits)
      with 2(1) [OF t] True ProbeEnds show ?thesis by simp
    next
      case False
      then have "rc_result t = Some (Inl DatabaseUnreachableError)"
        using t(1) 2(3) ProbeEnds by (auto split: if_splits)
      with race_over [OF t(2)] False ProbeEnds show ?thesis by simp
    qed
  qed
qed simp

lemma winner_unreachable:
  "race_winner es = Some (Inl DatabaseUnreachableError) \<Longrightarrow>
   WorkSettles (Inl DatabaseUnreachableError) \<in> set es \<or> (\<exists>e. ProbeEnds e \<in> set es \<and> \<not> database_answers e)"
  by (induction es rule: race_winner.induct) (auto split: if_splits)

text \<open>A silent database ends the wait after one pause and one probe.\<close>

lemma silent_database:
  "rc_phase s = Pausing \<Longrightarrow> rc_result s = None \<Longrightarrow> \<not> database_answers e \<Longrightarrow>
   \<exists>s'. while_reachable [PauseEnds, ProbeEnds e] s = Some s' \<and>
     rc_result s' = Some (Inl DatabaseUnreachableError)"
  by simp

text \<open>
  A stop with probes settles like the shutdown itself, unless a probe stayed unanswered before the
  shutdown settled: then, and only then, it rejects as unreachable. An answer with an error of
  the server is an answer, and without connection options the result is always the shutdown's.
\<close>

theorem stop_rejects_only_unreachable:
  assumes "while_reachable es (start_race has_options) = Some s"
  shows "rc_result s = race_winner es \<and>
    (rc_result s = Some (Inl DatabaseUnreachableError) \<longrightarrow>
       WorkSettles (Inl DatabaseUnreachableError) \<in> set es \<or>
       has_options \<and> (\<exists>e. ProbeEnds e \<in> set es \<and> \<not> database_answers e)) \<and>
    (\<not> has_options \<longrightarrow> rc_result s = rc_work s)"
proof -
  have res: "rc_result s = race_winner es"
    by (rule race_settles [OF assms]) (simp add: start_race_def)
  have plain: "list_all (\<lambda>e. \<exists>r. e = WorkSettles r) es \<and> rc_result s = rc_work s" if "\<not> has_options"
  proof -
    have "list_all (\<lambda>e. \<exists>r. e = WorkSettles r) es \<and> rc_result s' = rc_work s'"
      if "while_reachable es s0 = Some s'" "rc_phase s0 = ProbingOver" "rc_result s0 = rc_work s0" for s0 s'
      using that
      by (induction es s0 rule: while_reachable.induct)
         (auto split: option.splits if_splits elim!: race_step.elims)
    from this [OF assms] that show ?thesis by (simp add: start_race_def)
  qed
  show ?thesis
    using res plain winner_unreachable [of es] by (cases has_options) (auto simp: list_all_iff)
qed

theorem stop_rejects_only_unreachable_witness:
  "\<exists>s. while_reachable [PauseEnds, ProbeEnds (ProbeFailed True), PauseEnds, ProbeEnds ProbeTimedOut,
      WorkSettles (Inr ())] (start_race True) = Some s \<and> rc_result s = Some (Inl DatabaseUnreachableError)"
proof -
  let ?es = "[PauseEnds, ProbeEnds (ProbeFailed True), PauseEnds, ProbeEnds ProbeTimedOut, WorkSettles (Inr ())]"
  obtain s where s: "while_reachable ?es (start_race True) = Some s"
    by (simp add: start_race_def)
  have "race_winner ?es = Some (Inl DatabaseUnreachableError)" by simp
  with stop_rejects_only_unreachable [OF s] s show ?thesis by metis
qed

end
