(* ===== verification/PoolIdle.thy ===== *)
theory PoolIdle
  imports Pool Shutdown
begin

text \<open>
  A pool without runners, and the rest of a pool's operations, \<^verbatim>\<open>src/src/worker-pool.ts\<close>: it idles
  from its start until its stop or a signal, as a state machine; its promise, \<open>runOnce\<close> and \<open>stop\<close>
  with probes.
\<close>

section \<open>Idling\<close>

text \<open>
  Idle periods are numbered. \<open>id_listening\<close> are the periods whose signal handler is registered,
  \<open>id_stopping\<close> those whose promise waits for the unstarted worker's \<open>stop\<close>.
\<close>

record idle_state =
  id_idle :: "nat option"
  id_made :: nat
  id_listening :: "nat list"
  id_stopping :: "nat list"
  id_resolved :: "nat list"

definition never_idle :: idle_state where
  "never_idle = \<lparr>id_idle = None, id_made = 0, id_listening = [], id_stopping = [], id_resolved = []\<rparr>"

definition start_idle :: "bool \<Rightarrow> idle_state \<Rightarrow> idle_state" where
  "start_idle handle_signals s = s\<lparr>id_idle := Some (id_made s), id_made := Suc (id_made s),
     id_listening := (if handle_signals then id_made s # id_listening s else id_listening s)\<rparr>"

text \<open>The \<open>stop\<close> of an idle period.\<close>

definition end_idle :: "idle_state \<Rightarrow> idle_state" where
  "end_idle s =
     (case id_idle s of
        None \<Rightarrow> s
      | Some n \<Rightarrow> s\<lparr>id_idle := None, id_listening := removeAll n (id_listening s), id_stopping := n # id_stopping s\<rparr>)"

datatype idle_event = PoolStarts | PoolStops | SignalComes | PrimaryStopped nat

fun idle_step :: "bool \<Rightarrow> idle_event \<Rightarrow> idle_state \<Rightarrow> idle_state option" where
  "idle_step hs PoolStarts s = Some (if id_idle s = None then start_idle hs s else s)"
| "idle_step hs PoolStops s = Some (end_idle s)"
| "idle_step hs SignalComes s = (if id_listening s = [] then None else Some (end_idle s))"
| "idle_step hs (PrimaryStopped n) s =
     (if n \<notin> set (id_stopping s) then None
      else Some (s\<lparr>id_stopping := removeAll n (id_stopping s), id_resolved := n # id_resolved s\<rparr>))"

inductive idle_reachable :: "bool \<Rightarrow> idle_state \<Rightarrow> bool" for hs where
  created: "idle_reachable hs never_idle"
| step: "idle_reachable hs s \<Longrightarrow> idle_step hs ev s = Some s' \<Longrightarrow> idle_reachable hs s'"

definition idle_inv :: "bool \<Rightarrow> idle_state \<Rightarrow> bool" where
  "idle_inv hs s \<longleftrightarrow>
     {n. n < id_made s} = set_option (id_idle s) \<union> set (id_stopping s) \<union> set (id_resolved s) \<and>
     set (id_stopping s) \<inter> set (id_resolved s) = {} \<and>
     set_option (id_idle s) \<inter> (set (id_stopping s) \<union> set (id_resolved s)) = {} \<and>
     set (id_listening s) = (if hs then set_option (id_idle s) else {})"

lemma idle_step_inv:
  assumes "idle_inv hs s" "idle_step hs ev s = Some s'"
  shows "idle_inv hs s'"
proof -
  have stop: "idle_inv hs (end_idle s)"
    using assms(1) by (cases "id_idle s") (auto simp: idle_inv_def end_idle_def)
  have start: "idle_inv hs (start_idle hs s)" if "id_idle s = None"
  proof -
    have "{n. n < Suc (id_made s)} = insert (id_made s) {n. n < id_made s}" by auto
    moreover have "{n. n < id_made s} = set (id_stopping s) \<union> set (id_resolved s)"
      using assms(1) that by (simp add: idle_inv_def)
    moreover from this have "id_made s \<notin> set (id_stopping s) \<union> set (id_resolved s)" by (metis mem_Collect_eq less_irrefl)
    ultimately show ?thesis using assms(1) that by (simp add: idle_inv_def start_idle_def)
  qed
  show ?thesis
  proof (cases ev)
    case (PrimaryStopped n)
    with assms(2) have n: "n \<in> set (id_stopping s)"
      and s': "s' = s\<lparr>id_stopping := removeAll n (id_stopping s), id_resolved := n # id_resolved s\<rparr>"
      by (simp_all split: if_splits)
    have "set (id_stopping s') \<union> set (id_resolved s') = set (id_stopping s) \<union> set (id_resolved s)"
      using n by (auto simp: s')
    with assms(1) n show ?thesis unfolding idle_inv_def by (auto simp: s')
  next
    case PoolStarts
    with assms start show ?thesis by (simp split: if_splits)
  next
    case PoolStops
    with assms stop show ?thesis by simp
  next
    case SignalComes
    with assms stop show ?thesis by (simp split: if_splits)
  qed
qed

lemma reachable_idle_inv: "idle_reachable hs s \<Longrightarrow> idle_inv hs s"
proof (induction rule: idle_reachable.induct)
  case created
  then show ?case by (simp add: idle_inv_def never_idle_def)
qed (rule idle_step_inv)

text \<open>
  An idle pool stops like a running one: it listens for signals only while it idles, so a stopped one
  leaves no handler behind, and the promise of every idle period is resolved but for the current
  one and those that still wait for the unstarted worker's stop.
\<close>

theorem idle_pool_cleans_up:
  assumes "idle_reachable hs s"
  shows "(id_idle s = None \<longrightarrow> id_listening s = []) \<and>
    (\<forall>n < id_made s. id_idle s = Some n \<or> n \<in> set (id_stopping s) \<or> n \<in> set (id_resolved s))"
  using reachable_idle_inv [OF assms] by (auto simp: idle_inv_def split: if_splits)

section \<open>The other operations\<close>

text \<open>\<open>promise\<close> and \<open>waitUntilStopped\<close>: the idle period's while idle, else all runners' together.\<close>

definition idle_or :: "unit res option \<Rightarrow> ('w \<Rightarrow> unit res \<times> 'w) \<Rightarrow> 'w pool \<Rightarrow> unit res \<times> 'w pool" where
  "idle_or idle_promise run p =
     (case idle_promise of
        Some r \<Rightarrow> (r, p)
      | None \<Rightarrow> (case each run (pl_workers p) of (r, ws) \<Rightarrow> (r, p\<lparr>pl_workers := ws\<rparr>)))"

definition pool_run_once :: "('w \<Rightarrow> unit res \<times> 'w) \<Rightarrow> 'w pool \<Rightarrow> unit res \<times> 'w pool" where
  "pool_run_once run_once p = (case each run_once (pl_workers p) of (r, ws) \<Rightarrow> (r, p\<lparr>pl_workers := ws\<rparr>))"

text \<open>\<open>stop\<close> checks its probe option first; the runners' stops run without the probe.\<close>

definition pool_stop_with ::
  "probe_option \<Rightarrow> ('w \<Rightarrow> unit res \<times> 'w) \<Rightarrow> 'w pool \<Rightarrow> (race \<times> unit res \<times> 'w pool) res" where
  "pool_stop_with probe stop p =
     bind_res (resolve_database_probe probe) (\<lambda>r. Inr (start_race (r \<noteq> None), pool_stop stop p))"

end
