(* ===== verification/Outcomes.thy ===== *)
theory Outcomes
  imports WaitProtocol "HOL-Library.Multiset" "HOL-Library.Product_Lexorder"
begin

text \<open>
  The state of a job as the library reports it, \<^verbatim>\<open>src/src/job-outcomes.ts\<close>: live
  jobs from Graphile's table, finished ones from the outcome table while it retains them.
\<close>

section \<open>Retention\<close>

datatype outcomes_option = OutcomesOff | OutcomesOn "jsnum option"

definition default_retention :: int where
  "default_retention = 7 * 24 * 60 * 60 * 1000"

definition resolve_outcome_retention :: "outcomes_option \<Rightarrow> int option res" where
  "resolve_outcome_retention opt =
     (case opt of
        OutcomesOff \<Rightarrow> Inr None
      | OutcomesOn r \<Rightarrow>
          bind_res (assert_integer (nullish_else r (int_num default_retention))
            ''jobOutcomes.retention'' 1 max_safe_integer) (\<lambda>t. Inr (Some t)))"

text \<open>\<open>busy\<close> tells the rows another transaction holds: they are skipped.\<close>

definition prune_job_outcomes :: "(outcome_row \<Rightarrow> bool) \<Rightarrow> int \<Rightarrow> db \<Rightarrow> db" where
  "prune_job_outcomes busy retention d = d\<lparr>db_outcomes :=
     delete_where (\<lambda>o'. oc_finished_at o' < db_now d - retention * 1000 \<and> \<not> busy o') (db_outcomes d)\<rparr>"

section \<open>The state of a job\<close>

record job_fields =
  jf_id :: string
  jf_queue :: string
  jf_attempts :: int
  jf_max_attempts :: int
  jf_created_at :: string
  jf_last_error :: "string option"

datatype job_state =
    StateNotFound string
  | StatePending job_fields string
  | StateRunning job_fields string string
  | StateRetrying job_fields string
  | StateWaiting job_fields "string list"
  | StateFailed job_fields string
  | StateCompleted job_fields string
  | StateContinued job_fields string string

text \<open>A date of the driver keeps the milliseconds of a timestamp.\<close>

definition iso_time :: "int \<Rightarrow> string" where
  "iso_time t = iso_string (t div 1000)"

definition live_fields :: "job_row \<Rightarrow> job_fields" where
  "live_fields r = \<lparr>jf_id = show_nat (jr_id r), jf_queue = jr_task r, jf_attempts = jr_attempts r,
     jf_max_attempts = jr_max_attempts r, jf_created_at = iso_time (jr_created_at r),
     jf_last_error = jr_last_error r\<rparr>"

definition outcome_fields :: "outcome_row \<Rightarrow> job_fields" where
  "outcome_fields o' = \<lparr>jf_id = show_nat (oc_job_id o'), jf_queue = oc_task o', jf_attempts = oc_attempts o',
     jf_max_attempts = oc_max_attempts o', jf_created_at = iso_time (oc_created_at o'),
     jf_last_error = oc_last_error o'\<rparr>"

definition live_state :: "job_row \<Rightarrow> job_state" where
  "live_state r =
     (let base = live_fields r; run_at = iso_time (jr_run_at r) in
      case jr_locked_at r of
        Some t \<Rightarrow> StateRunning base run_at (iso_time t)
      | None \<Rightarrow>
          if jr_attempts r \<ge> jr_max_attempts r then StateFailed base (iso_time (jr_updated_at r))
          else if jr_attempts r > 0 then StateRetrying base run_at
          else StatePending base run_at)"

text \<open>The check of the table gives every continued outcome its continuation.\<close>

definition outcome_to_state :: "outcome_row \<Rightarrow> job_state" where
  "outcome_to_state o' =
     (let base = outcome_fields o'; finished = iso_time (oc_finished_at o') in
      case oc_state o' of
        ContinuedState \<Rightarrow> StateContinued base finished (show_nat (the (oc_continued_to o')))
      | CompletedState \<Rightarrow> StateCompleted base finished
      | FailedState \<Rightarrow> StateFailed base finished)"

text \<open>The join of the pending waits of a parent with their groups, in the order of the query.\<close>

definition waiting_rows :: "nat \<Rightarrow> db \<Rightarrow> (group_row \<times> wait_row) list" where
  "waiting_rows i d = concat (map
     (\<lambda>w. map (\<lambda>g. (g, w)) [g \<leftarrow> db_groups d. group_key g = wait_key w \<and> gr_remaining g > 0])
     [w \<leftarrow> db_waits d. wr_parent w = i \<and> wr_result w = None])"

definition waiting_on :: "nat \<Rightarrow> db \<Rightarrow> string list" where
  "waiting_on i d = map (show_nat \<circ> wr_child \<circ> snd)
     (sort_key (\<lambda>(g, w). (gr_created_at g, wr_idx w)) (waiting_rows i d))"

definition valid_job_id :: "string \<Rightarrow> bool" where
  "valid_job_id s \<longleftrightarrow> all_digits s \<and> hd s \<noteq> digit_char 0"

definition max_bigint :: nat where
  "max_bigint = 2 ^ 63 - 1"

text \<open>
  \<open>queryJob\<close> runs two statements outside a transaction: the first on the state \<open>d1\<close>,
  the second on the later state \<open>d2\<close>. A number beyond \<open>bigint\<close> fails in the database.
\<close>

definition query_job :: "string \<Rightarrow> db \<Rightarrow> db \<Rightarrow> job_state res" where
  "query_job s d1 d2 =
     (if \<not> valid_job_id s then Inl (PlainRangeError ''Invalid job id'')
      else if read_nat s > max_bigint
      then Inl (NamedError ''error'' (''value '' @ quoted s @ '' is out of range for type bigint''))
      else
        (case find_row (\<lambda>r. jr_id r = read_nat s) (db_jobs d1) of
           Some r \<Rightarrow>
             (let state = live_state r in
              case state of
                StatePending f _ \<Rightarrow>
                  if \<not> jr_run_at r > db_now d1 then Inr state
                  else if waiting_on (read_nat s) d2 = [] then Inr state
                  else Inr (StateWaiting f (waiting_on (read_nat s) d2))
              | StateRetrying f _ \<Rightarrow>
                  if \<not> jr_run_at r > db_now d1 then Inr state
                  else if waiting_on (read_nat s) d2 = [] then Inr state
                  else Inr (StateWaiting f (waiting_on (read_nat s) d2))
              | _ \<Rightarrow> Inr state)
         | None \<Rightarrow>
             (case find_row (\<lambda>o'. oc_job_id o' = read_nat s) (db_outcomes d2) of
                Some o' \<Rightarrow> Inr (outcome_to_state o')
              | None \<Rightarrow> Inr (StateNotFound s))))"

lemma hd_show_nat: "0 < n \<Longrightarrow> hd (show_nat n) \<noteq> digit_char 0"
proof (induction n rule: show_nat.induct)
  case (1 n)
  show ?case
  proof (cases "n < 10")
    case True
    have "digit_char n \<noteq> digit_char 0"
    proof
      assume "digit_char n = digit_char 0"
      then have "digit_val (digit_char n) = digit_val (digit_char 0)" by (rule arg_cong)
      with True 1 show False by simp
    qed
    with True show ?thesis by (subst show_nat.simps) simp
  next
    case False
    then have "hd (show_nat n) = hd (show_nat (n div 10))" by (subst show_nat.simps) (simp add: hd_append)
    with 1 False show ?thesis by simp
  qed
qed

lemma valid_show_nat [simp]: "0 < n \<Longrightarrow> valid_job_id (show_nat n)"
  by (simp add: valid_job_id_def hd_show_nat)

section \<open>Finished jobs\<close>

definition settled_state :: "settle_outcome \<Rightarrow> job_row \<Rightarrow> string \<Rightarrow> job_state" where
  "settled_state oc r t =
     (let f = (live_fields r)\<lparr>jf_last_error := outcome_error oc\<rparr> in
      case oc of
        OutcomeCompleted \<Rightarrow> StateCompleted f t
      | OutcomeFailed _ \<Rightarrow> StateFailed f t
      | OutcomeContinued i \<Rightarrow> StateContinued f t (show_nat i))"

lemma new_outcome_state:
  "outcome_to_state (new_outcome oc r now) = settled_state oc r (iso_time now)"
  by (cases oc) (simp_all add: outcome_to_state_def new_outcome_def settled_state_def
      outcome_fields_def live_fields_def)

lemma report_db_outcomes: "db_outcomes (report_db rep c d) = db_outcomes d"
  by (simp add: report_db_def split: option.split)


definition sample_settle :: settle where
  "sample_settle = \<lparr>st_outcome = Some OutcomeCompleted, st_report = None, st_row = RowDelete\<rparr>"


section \<open>Waiting jobs\<close>

lemma filter_distinct_key:
  "distinct (map f xs) \<Longrightarrow> x \<in> set xs \<Longrightarrow> filter (\<lambda>y. f y = f x) xs = [x]"
  by (induction xs) (auto simp: image_iff filter_empty_conv)

lemma waiting_group:
  assumes "wait_inv d" "w \<in> set (db_waits d)" "wr_result w = None"
  obtains g where "[g \<leftarrow> db_groups d. group_key g = wait_key w \<and> gr_remaining g > 0] = [g]"
    "g \<in> set (db_groups d)" "group_key g = wait_key w"
proof -
  have "wait_key w \<in> group_key ` set (db_groups d)"
    using assms(1,2) by (auto simp: wait_inv_def)
  then obtain g where g': "wait_key w = group_key g" "g \<in> set (db_groups d)" by (rule imageE)
  note g = g'(2) g'(1) [symmetric]
  have "w \<in> set (pending_waits d (group_key g))"
    using g(2) assms(2,3) by (simp add: pending_waits_def)
  then have "0 < length (pending_waits d (group_key g))" by (metis length_pos_if_in_set)
  with assms(1) g(1) have pos: "gr_remaining g > 0" by (simp add: wait_inv_def)
  have "distinct (map group_key (db_groups d))" using assms(1) by (simp add: wait_inv_def)
  from filter_distinct_key [OF this g(1)]
  have one: "[x \<leftarrow> db_groups d. group_key x = wait_key w] = [g]" using g(2) by simp
  have "[x \<leftarrow> db_groups d. group_key x = wait_key w \<and> gr_remaining x > 0] =
      [x \<leftarrow> [x \<leftarrow> db_groups d. group_key x = wait_key w]. gr_remaining x > 0]"
    by simp
  with pos have "[x \<leftarrow> db_groups d. group_key x = wait_key w \<and> gr_remaining x > 0] = [g]"
    by (simp only: one) simp
  with g that show ?thesis by blast
qed

lemma waiting_rows_pending:
  assumes "wait_inv d"
  shows "map snd (waiting_rows i d) = [w \<leftarrow> db_waits d. wr_parent w = i \<and> wr_result w = None]"
proof -
  have "map snd (concat (map (\<lambda>w. map (\<lambda>g. (g, w)) [g \<leftarrow> db_groups d. group_key g = wait_key w \<and> gr_remaining g > 0]) ws)) = ws"
    if "set ws \<subseteq> set (db_waits d)" "\<forall>w\<in>set ws. wr_result w = None" for ws
    using that
  proof (induction ws)
    case (Cons w ws)
    have w: "w \<in> set (db_waits d)" "wr_result w = None" using Cons.prems by simp_all
    obtain g where "[g \<leftarrow> db_groups d. group_key g = wait_key w \<and> gr_remaining g > 0] = [g]"
      using waiting_group [OF assms w] by blast
    with Cons show ?case by simp
  qed simp
  then show ?thesis unfolding waiting_rows_def by simp
qed

lemma waiting_rows_group:
  assumes "wait_inv d" "(g, w) \<in> set (waiting_rows i d)"
  shows "g \<in> set (db_groups d) \<and> group_key g = wait_key w"
  using assms(2) by (auto simp: waiting_rows_def)

text \<open>Children of one wait keep the order of their input.\<close>

lemma insort_one_group:
  "\<forall>p\<in>set ys. fst p = g \<Longrightarrow>
   map snd (insort_key (\<lambda>(g, w). (gr_created_at g, wr_idx w)) (g, w) ys) = insort_key wr_idx w (map snd ys)"
  by (induction ys) (auto simp: less_eq_prod_def)

lemma sort_one_group:
  "\<forall>p\<in>set xs. fst p = g \<Longrightarrow>
   map snd (sort_key (\<lambda>(g, w). (gr_created_at g, wr_idx w)) xs) = sort_key wr_idx (map snd xs)"
proof (induction xs)
  case (Cons p xs)
  then have "p = (g, snd p)" by (cases p) simp
  with Cons insort_one_group [of "sort_key (\<lambda>(g, w). (gr_created_at g, wr_idx w)) xs" g "snd p"]
  show ?case by (cases p) simp
qed simp

lemma waiting_on_set:
  assumes "wait_inv d"
  shows "mset (waiting_on i d) = mset (map (show_nat \<circ> wr_child) [w \<leftarrow> db_waits d. wr_parent w = i \<and> wr_result w = None])"
proof -
  have "mset (waiting_on i d) = mset (map (show_nat \<circ> wr_child) (map snd (waiting_rows i d)))"
    by (simp add: waiting_on_def multiset.map_comp comp_assoc)
  then show ?thesis by (simp only: waiting_rows_pending [OF assms])
qed

lemma waiting_on_one_group:
  assumes "wait_inv d" "\<forall>w\<in>set [w \<leftarrow> db_waits d. wr_parent w = i \<and> wr_result w = None]. wr_wait w = k"
  shows "waiting_on i d = map (show_nat \<circ> wr_child)
    (sort_key wr_idx [w \<leftarrow> db_waits d. wr_parent w = i \<and> wr_result w = None])"
proof -
  let ?xs = "waiting_rows i d"
  have key: "g \<in> set (db_groups d) \<and> group_key g = (i, k)" if "(g, w) \<in> set ?xs" for g w
  proof -
    have "w \<in> set (map snd ?xs)" using that by force
    then have "w \<in> set [w \<leftarrow> db_waits d. wr_parent w = i \<and> wr_result w = None]"
      by (simp only: waiting_rows_pending [OF assms(1)])
    with assms(2) waiting_rows_group [OF assms(1) that] show ?thesis by auto
  qed
  have "\<exists>g. \<forall>p\<in>set ?xs. fst p = g"
  proof (cases ?xs)
    case (Cons p0 ps)
    have inj: "inj_on group_key (set (db_groups d))"
      using assms(1) by (simp add: wait_inv_def distinct_map)
    have member: "fst p \<in> set (db_groups d) \<and> group_key (fst p) = (i, k)" if "p \<in> set ?xs" for p
      using key [of "fst p" "snd p"] that by simp
    have "p0 \<in> set ?xs" by (simp add: Cons)
    have "fst p = fst p0" if "p \<in> set ?xs" for p
    proof -
      note both = \<open>p \<in> set ?xs\<close> \<open>p0 \<in> set ?xs\<close>
      from both [THEN member] have "group_key (fst p) = group_key (fst p0)" by simp
      then show "fst p = fst p0"
        using inj both [THEN member] by (auto dest: inj_onD)
    qed
    then show ?thesis by blast
  qed simp
  then obtain g where "\<forall>p\<in>set ?xs. fst p = g" ..
  from sort_one_group [OF this] show ?thesis
    unfolding waiting_on_def waiting_rows_pending [OF assms(1)]
    by (metis map_map waiting_rows_pending [OF assms(1)])
qed

text \<open>
  The state of a live job: a job that is not running, has attempts left and is scheduled for later is
  waiting exactly when children of it have not reported, and then lists all of them once, those
  of a single wait in the order of its input; otherwise it is retrying after a first attempt and
  pending before it.
\<close>

theorem suspended_job_waits:
  assumes "wait_inv d" and "jobs_inv d" and "j \<in> set (db_jobs d)"
    and "0 < jr_id j" and "jr_id j \<le> max_bigint"
    and "jr_locked_at j = None" and "jr_attempts j < jr_max_attempts j" and "db_now d < jr_run_at j"
  defines "pending \<equiv> [w \<leftarrow> db_waits d. wr_parent w = jr_id j \<and> wr_result w = None]"
    and "run_at \<equiv> iso_time (jr_run_at j)"
  shows "\<exists>ids. mset ids = mset (map (show_nat \<circ> wr_child) pending) \<and>
    ((\<exists>k. list_all (\<lambda>w. wr_wait w = k) pending) \<longrightarrow>
       ids = map (show_nat \<circ> wr_child) (sort_key wr_idx pending)) \<and>
    query_job (show_nat (jr_id j)) d d = Inr
      (if pending \<noteq> [] then StateWaiting (live_fields j) ids
       else if jr_attempts j > 0 then StateRetrying (live_fields j) run_at
       else StatePending (live_fields j) run_at)"
proof -
  let ?ids = "waiting_on (jr_id j) d"
  have row: "find_row (\<lambda>r. jr_id r = jr_id j) (db_jobs d) = Some j"
    using assms(2,3) by (intro find_row_key [of jr_id]) (auto simp: jobs_inv_def)
  have all: "mset ?ids = mset (map (show_nat \<circ> wr_child) pending)"
    unfolding pending_def by (rule waiting_on_set [OF assms(1)])
  then have empty: "?ids = [] \<longleftrightarrow> pending = []"
    by (metis list.map_disc_iff mset_zero_iff)
  have order: "?ids = map (show_nat \<circ> wr_child) (sort_key wr_idx pending)"
    if "list_all (\<lambda>w. wr_wait w = k) pending" for k
    using that waiting_on_one_group [OF assms(1), of "jr_id j" k] by (simp add: pending_def list_all_iff)
  have "query_job (show_nat (jr_id j)) d d = Inr
      (if pending \<noteq> [] then StateWaiting (live_fields j) ?ids
       else if jr_attempts j > 0 then StateRetrying (live_fields j) run_at
       else StatePending (live_fields j) run_at)"
    using assms(4-8) by (simp add: query_job_def row live_state_def Let_def empty run_at_def)
  with all order show ?thesis by blast
qed

definition sample_suspended :: db where
  "sample_suspended = sample_waiting\<lparr>db_jobs :=
     map (\<lambda>j. j\<lparr>jr_locked_at := None, jr_locked_by := None, jr_run_at := 1009000\<rparr>) (db_jobs sample_waiting)\<rparr>"

theorem suspended_job_waits_witness:
  "query_job ''7'' sample_suspended sample_suspended = Inr (StateWaiting
     \<lparr>jf_id = ''7'', jf_queue = ''mail'', jf_attempts = 0, jf_max_attempts = 3, jf_created_at = ''1970-01-01T00:00:00.000Z'',
      jf_last_error = None\<rparr> [''21'', ''22''])"
proof -
  let ?d = sample_suspended let ?j = "hd (db_jobs ?d)"
  have waits: "map (\<lambda>w. (wr_parent w, wr_wait w, wr_idx w, wr_child w, wr_result w)) (db_waits ?d) =
      [(7, ''w'', 0, 21, None), (7, ''w'', 1, 22, None)]"
    by code_simp
  have facts: "wait_inv ?d" "jobs_inv ?d" "?j \<in> set (db_jobs ?d)" "0 < jr_id ?j"
    by (code_simp+)
  have rest: "jr_locked_at ?j = None" "jr_attempts ?j < jr_max_attempts ?j" "db_now ?d < jr_run_at ?j"
    by (code_simp+)
  have id: "jr_id ?j = 7" and res: "show_nat (jr_id ?j) = ''7''"
      "live_fields ?j = \<lparr>jf_id = ''7'', jf_queue = ''mail'', jf_attempts = 0, jf_max_attempts = 3,
         jf_created_at = ''1970-01-01T00:00:00.000Z'', jf_last_error = None\<rparr>"
      "map show_nat [21, 22] = [''21'', ''22'']"
    by (code_simp+)
  obtain w1 w2 where "db_waits ?d = [w1, w2]" "wr_parent w1 = 7" "wr_parent w2 = 7" "wr_wait w1 = ''w''"
      "wr_wait w2 = ''w''" "wr_idx w1 = 0" "wr_idx w2 = 1" "wr_child w1 = 21" "wr_child w2 = 22"
      "wr_result w1 = None" "wr_result w2 = None"
    using waits by (auto simp: map_eq_Cons_conv)
  then have p: "[w \<leftarrow> db_waits ?d. wr_parent w = jr_id ?j \<and> wr_result w = None] = [w1, w2]"
    and ww: "list_all (\<lambda>w. wr_wait w = ''w'') [w1, w2]"
      "map (show_nat \<circ> wr_child) (sort_key wr_idx [w1, w2]) = [''21'', ''22'']"
    using res(3) by (simp_all add: id)
  have "jr_id ?j \<le> max_bigint" by (simp add: id max_bigint_def)
  from suspended_job_waits [OF facts this rest, unfolded p] ww res(1,2) show ?thesis by fastforce
qed

end
