(* ===== verification/Continuation.thy ===== *)
theory Continuation
  imports WaitProtocol
begin

text \<open>
  What settling a job does to every table, and what a continuation of a job carries over:
  \<open>settleJob\<close> and \<open>continueJob\<close> of \<^verbatim>\<open>src/src/private-jobs.ts\<close>. Graphile's
  \<open>add_job\<close> is a parameter under the contract the code relies on.
\<close>

section \<open>The outcome table\<close>

lemma find_upsert_outcome:
  "\<exists>x. find_row (\<lambda>x. oc_job_id x = oc_job_id o') (upsert_outcome o' os) = Some x \<and>
     oc_job_id x = oc_job_id o' \<and> oc_state x = oc_state o' \<and> oc_continued_to x = oc_continued_to o' \<and>
     oc_attempts x = oc_attempts o' \<and> oc_max_attempts x = oc_max_attempts o' \<and>
     oc_last_error x = oc_last_error o' \<and> oc_finished_at x = oc_finished_at o'"
proof -
  let ?p = "\<lambda>x. oc_job_id x = oc_job_id o'"
  let ?f = "\<lambda>x. o'\<lparr>oc_task := oc_task x, oc_created_at := oc_created_at x\<rparr>"
  have "find_row ?p (update_where ?p ?f xs) = Some (?f x) \<and> oc_job_id (?f x) = oc_job_id o'"
    if "find_row ?p xs = Some x" for xs x
    using that by (induction xs) (auto simp: table_simps split: if_splits)
  moreover have "find_row ?p (xs @ [o']) = Some o'" if "\<not> list_ex ?p xs" for xs
    using that by (induction xs) (auto simp: table_simps)
  moreover have "\<exists>x. find_row ?p xs = Some x" if "list_ex ?p xs" for xs
    using that by (induction xs) (auto simp: table_simps)
  ultimately show ?thesis
    unfolding upsert_outcome_def by (cases "list_ex ?p os") fastforce+
qed

lemma update_where_ids:
  "(\<And>r. jr_id (f r) = jr_id r) \<Longrightarrow> map jr_id (update_where p f rows) = map jr_id rows"
  by (simp add: update_where_def)

lemma delete_where_ids: "map jr_id (delete_where (\<lambda>s. jr_id s = i) rows) = removeAll i (map jr_id rows)"
  by (induction rows) (auto simp: delete_where_def)

lemma report_db_rows:
  assumes "j \<in> set (db_jobs (report_db rep child d))"
  shows "\<exists>j0\<in>set (db_jobs d). \<exists>t. j = j0\<lparr>jr_run_at := t\<rparr>"
proof -
  have same: "\<exists>t. j = j\<lparr>jr_run_at := t\<rparr>"
    by (rule exI [of _ "jr_run_at j"]) simp
  show ?thesis
  proof (cases rep)
    case None
    with assms same show ?thesis by (auto simp: report_db_def)
  next
    case (Some x)
    with assms obtain p where "j \<in> (\<lambda>j. if p j then j\<lparr>jr_run_at := min (jr_run_at j) (db_now d)\<rparr> else j) ` set (db_jobs d)"
      by (auto simp: report_db_def after_reports_def set_update_where)
    then obtain j0 where j0: "j0 \<in> set (db_jobs d)"
        "j = (if p j0 then j0\<lparr>jr_run_at := min (jr_run_at j0) (db_now d)\<rparr> else j0)" by blast
    then have "\<exists>t. j = j0\<lparr>jr_run_at := t\<rparr>"
      using same by (cases "p j0") auto
    with j0(1) show ?thesis by blast
  qed
qed

lemma report_db_reported:
  "w \<in> set (db_waits (report_db (Some rep) child d)) \<Longrightarrow> wr_child w = child \<Longrightarrow> wr_result w \<noteq> None"
  by (auto simp: report_db_def after_reports_def set_update_where reports_row_def)

section \<open>Settling\<close>

text \<open>
  Settling by the attempt that holds the job does exactly what its parts say, together: it
  succeeds; \<open>delete\<close> removes the row and frees the lane, \<open>exhaust\<close> spends the attempts,
  \<open>keep\<close> leaves them; a recorded outcome is the job's outcome with its state, error,
  continuation and time; and after a report no wait for this child is left without a result.
\<close>

lemma settle_job_effects:
  assumes "wait_inv d" and "jobs_inv d" and "owned_row h d = Some r"
  shows "\<exists>d'. settle_job h s d = (Inr True, d') \<and>
    map jr_id (db_jobs d') =
      (if st_row s = RowDelete then removeAll (jr_id r) (map jr_id (db_jobs d)) else map jr_id (db_jobs d)) \<and>
    list_all (\<lambda>j. jr_id j = jr_id r \<longrightarrow> jr_attempts j = jr_attempts r \<and>
      jr_max_attempts j = (if st_row s = RowExhaust then jr_attempts r else jr_max_attempts r)) (db_jobs d') \<and>
    list_all (\<lambda>l. st_row s = RowDelete \<and> jr_lane r = Some (ln_name l) \<longrightarrow>
      ln_locked_by l = None \<or> ln_locked_by l \<noteq> h_locked_by h) (db_lanes d') \<and>
    (case st_outcome s of
       None \<Rightarrow> db_outcomes d' = db_outcomes d
     | Some x \<Rightarrow> \<exists>row. find_row (\<lambda>row. oc_job_id row = jr_id r) (db_outcomes d') = Some row \<and>
         oc_state row = outcome_state_of x \<and> oc_continued_to row = outcome_continued_to x \<and>
         oc_last_error row = outcome_error x \<and> oc_attempts row = jr_attempts r \<and>
         oc_max_attempts row = jr_max_attempts r \<and> oc_finished_at row = db_now d) \<and>
    list_all (\<lambda>w. st_report s \<noteq> None \<and> wr_child w = jr_id r \<longrightarrow> wr_result w \<noteq> None) (db_waits d')"
proof -
  let ?d1 = "report_db (st_report s) (jr_id r) (record_outcome (st_outcome s) r d)"
  have own: "jr_id r = h_id h" using owned_row_Some [OF assms(3)] by simp
  have settle: "settle_job h s d = (Inr True, settle_own_row (st_row s) h r ?d1)"
    using settle_job_owned [OF assms(1,3)] by (simp add: settled_db_def)
  have rows: "jr_attempts j = jr_attempts r \<and> jr_max_attempts j = jr_max_attempts r"
    if j: "j \<in> set (db_jobs ?d1)" "jr_id j = jr_id r" for j
  proof -
    from report_db_rows [OF j(1)] obtain j0 t where j0: "j0 \<in> set (db_jobs d)" "j = j0\<lparr>jr_run_at := t\<rparr>"
      by auto
    then show ?thesis using owned_row_unique [OF assms(2,3) j0(1)] j(2) own by auto
  qed
  have "map jr_id (db_jobs (settle_own_row (st_row s) h r ?d1)) =
      (if st_row s = RowDelete then removeAll (jr_id r) (map jr_id (db_jobs d)) else map jr_id (db_jobs d))"
    by (cases "st_row s") (simp_all add: settle_own_row_def update_where_ids delete_where_ids)
  moreover have "list_all (\<lambda>j. jr_id j = jr_id r \<longrightarrow> jr_attempts j = jr_attempts r \<and>
      jr_max_attempts j = (if st_row s = RowExhaust then jr_attempts r else jr_max_attempts r))
      (db_jobs (settle_own_row (st_row s) h r ?d1))"
    using rows by (cases "st_row s")
      (auto simp: settle_own_row_def list_all_iff set_update_where set_delete_where)
  moreover have "list_all (\<lambda>l. st_row s = RowDelete \<and> jr_lane r = Some (ln_name l) \<longrightarrow>
      ln_locked_by l = None \<or> ln_locked_by l \<noteq> h_locked_by h) (db_lanes (settle_own_row (st_row s) h r ?d1))"
    by (auto simp: settle_own_row_def list_all_iff set_update_where)
  moreover have "case st_outcome s of
       None \<Rightarrow> db_outcomes (settle_own_row (st_row s) h r ?d1) = db_outcomes d
     | Some x \<Rightarrow> \<exists>row. find_row (\<lambda>row. oc_job_id row = jr_id r) (db_outcomes (settle_own_row (st_row s) h r ?d1)) = Some row \<and>
         oc_state row = outcome_state_of x \<and> oc_continued_to row = outcome_continued_to x \<and>
         oc_last_error row = outcome_error x \<and> oc_attempts row = jr_attempts r \<and>
         oc_max_attempts row = jr_max_attempts r \<and> oc_finished_at row = db_now d"
  proof (cases "st_outcome s")
    case (Some x)
    with find_upsert_outcome [of "new_outcome x r (db_now d)" "db_outcomes d"] show ?thesis
      by (auto simp: record_outcome_def new_outcome_def)
  qed (simp add: record_outcome_def)
  moreover have "list_all (\<lambda>w. st_report s \<noteq> None \<and> wr_child w = jr_id r \<longrightarrow> wr_result w \<noteq> None)
      (db_waits (settle_own_row (st_row s) h r ?d1))"
    by (auto simp: list_all_iff dest: report_db_reported)
  ultimately show ?thesis using settle by blast
qed

section \<open>Continuations\<close>

text \<open>
  What the code relies on of Graphile's \<open>add_job\<close>: it leaves the library's tables alone,
  keeps ids unique, leaves a locked row its id, lock, task and payload and whether its attempts are
  spent only for the worse, and returns the id of an unlocked row with the task and payload it was given.
\<close>

definition same_locked :: "job_row \<Rightarrow> job_row \<Rightarrow> bool" where
  "same_locked s s' \<longleftrightarrow> jr_id s' = jr_id s \<and> jr_locked_by s' = jr_locked_by s \<and>
     jr_locked_at s' = jr_locked_at s \<and> jr_task s' = jr_task s \<and> jr_payload s' = jr_payload s \<and>
     jr_attempts s \<le> jr_attempts s'"

definition add_job_contract :: "add_job_fn \<Rightarrow> bool" where
  "add_job_contract aj \<longleftrightarrow> (\<forall>a d.
     keeps_wait_tables (aj a) \<and>
     db_outcomes (snd (aj a d)) = db_outcomes d \<and>
     (jobs_inv d \<longrightarrow> jobs_inv (snd (aj a d))) \<and>
     (\<forall>s\<in>set (db_jobs d). jr_locked_at s \<noteq> None \<longrightarrow> (\<exists>s'\<in>set (db_jobs (snd (aj a d))). same_locked s s')) \<and>
     (\<forall>i. fst (aj a d) = Inr (Some i) \<longrightarrow>
        (\<forall>s\<in>set (db_jobs d). jr_locked_at s \<noteq> None \<longrightarrow> jr_id s \<noteq> i) \<and>
        (\<exists>c\<in>set (db_jobs (snd (aj a d))). jr_id c = i \<and> jr_locked_at c = None \<and>
           jr_task c = aa_task a \<and> jr_payload c = aa_payload a)))"

lemma continuation_payload_get [simp]:
  "is_json_object p \<Longrightarrow> json_get k (continuation_payload p tp pr) =
     (if k = ''traceparent'' then (case tp of Some t \<Rightarrow> if t \<noteq> [] then Some (JStr t) else None | None \<Rightarrow> None)
      else if k = ''progress'' then nullish pr (json_get k p)
      else if k = ''_cron'' then None else json_get k p)"
  by (auto simp: continuation_payload_def Let_def split: option.split)

lemma continuation_payload_object [simp]:
  "is_json_object (continuation_payload p tp pr) = is_json_object p"
  by (auto simp: continuation_payload_def Let_def split: option.split)

lemma continuation_keeps_envelope:
  assumes "is_payload_envelope p"
  shows "extract_step_cache (continuation_payload p tp pr) = extract_step_cache p"
    "clean_payload (continuation_payload p tp pr) = clean_payload p"
    "is_payload_envelope (continuation_payload p tp pr)"
proof -
  have obj: "is_json_object p" using assms by (simp add: is_payload_envelope_def)
  then show env: "is_payload_envelope (continuation_payload p tp pr)"
    using assms by (simp add: is_payload_envelope_def)
  then show "extract_step_cache (continuation_payload p tp pr) = extract_step_cache p"
    using assms obj by (simp add: extract_step_cache_def assert_payload_envelope_def)
  show "clean_payload (continuation_payload p tp pr) = clean_payload p"
    using obj by (simp add: clean_payload_def)
qed

lemma owned_row_same_locked:
  assumes "jobs_inv d1" "owns h r" "s \<in> set (db_jobs d1)" "same_locked r s"
  shows "owned_row h d1 = Some s"
  unfolding owned_row_def
proof (rule find_row_key [where key = jr_id])
  show "distinct (map jr_id (db_jobs d1))" using assms(1) by (simp add: jobs_inv_def)
  show "owns h s" using assms(2,4) by (auto simp: owns_def same_locked_def split: option.splits)
  then show "jr_id t = jr_id s" if "owns h t" for t using that by (simp add: owns_def)
qed (rule assms(3))

lemma exhaust_owned_facts:
  assumes "jobs_inv d" "owned_row h d = Some r"
  shows "owned_row h (exhaust_owned h d) = Some (r\<lparr>jr_max_attempts := jr_attempts r\<rparr>)"
    "map jr_id (db_jobs (exhaust_owned h d)) = map jr_id (db_jobs d)"
    "c \<in> set (db_jobs d) \<Longrightarrow> jr_id c \<noteq> h_id h \<Longrightarrow> c \<in> set (db_jobs (exhaust_owned h d))"
proof -
  let ?f = "\<lambda>s. s\<lparr>jr_max_attempts := jr_attempts s\<rparr>"
  have "update_where (owns h) ?f (db_jobs d) = update_where (\<lambda>s. jr_id s = jr_id r) ?f (db_jobs d)"
    using owned_row_Some [OF assms(2)] owned_row_unique [OF assms]
    by (intro update_where_cong) (auto simp: owns_def)
  then show "owned_row h (exhaust_owned h d) = Some (?f r)"
    using owned_row_Some [OF assms(2)]
    by (intro owned_row_update [OF assms]) (auto simp: exhaust_owned_def owns_def)
  show "map jr_id (db_jobs (exhaust_owned h d)) = map jr_id (db_jobs d)"
    by (simp add: exhaust_owned_def update_where_ids)
  show "c \<in> set (db_jobs (exhaust_owned h d))" if "c \<in> set (db_jobs d)" "jr_id c \<noteq> h_id h"
    using that by (force simp: exhaust_owned_def set_update_where owns_def)
qed

lemma continued_db_jobs [simp]:
  "db_jobs (continued_db h r i d) = db_jobs (exhaust_owned h d)"
  "owned_row h' (continued_db h r i d) = owned_row h' (exhaust_owned h d)"
  by (simp_all add: continued_db_def move_waits_def owned_row_def)

text \<open>The job \<open>c\<close> continues \<open>r\<close> under the id \<open>i\<close>, with the progress \<open>pr\<close> or its own.\<close>

definition carries_job :: "job_row \<Rightarrow> json option \<Rightarrow> nat \<Rightarrow> job_row \<Rightarrow> bool" where
  "carries_job r pr i c \<longleftrightarrow> jr_id c = i \<and> jr_task c = jr_task r \<and> jr_locked_at c = None \<and>
     clean_payload (jr_payload c) = clean_payload (jr_payload r) \<and>
     extract_step_cache (jr_payload c) = extract_step_cache (jr_payload r) \<and>
     json_get ''_cron'' (jr_payload c) = None \<and>
     json_get ''progress'' (jr_payload c) = nullish pr (json_get ''progress'' (jr_payload r))"

text \<open>What the enqueue of the continuation leaves: the new job, and the old one still owned.\<close>

lemma continuation_enqueued:
  assumes "add_job_contract aj" "jobs_inv d" "owned_row h d = Some r" "is_payload_envelope (jr_payload r)"
    and add: "aj (continuation_args r t tp pr) d = (Inr (Some i), d1)"
  obtains s c where "i \<noteq> jr_id r" "owned_row h (continued_db h r i d1) = Some (s\<lparr>jr_max_attempts := jr_attempts s\<rparr>)"
    "jr_id s = jr_id r" "c \<in> set (db_jobs (continued_db h r i d1))" "carries_job r pr i c"
proof -
  have r: "r \<in> set (db_jobs d)" "owns h r" "jr_id r = h_id h" "jr_locked_at r \<noteq> None"
    using owned_row_Some [OF assms(3)] by (auto simp: owns_def split: option.splits)
  note contract = assms(1)[unfolded add_job_contract_def, rule_format, of "continuation_args r t tp pr" d]
  have add': "snd (aj (continuation_args r t tp pr) d) = d1" "fst (aj (continuation_args r t tp pr) d) = Inr (Some i)"
    using add by simp_all
  have jobs1: "jobs_inv d1" using contract assms(2) add' by auto
  have new: "i \<noteq> jr_id r" using contract add' r by auto
  obtain c where c: "c \<in> set (db_jobs d1)" "jr_id c = i" "jr_locked_at c = None" "jr_task c = jr_task r"
      "jr_payload c = continuation_payload (jr_payload r) tp pr"
    using contract add' by (auto simp: continuation_args_def)
  obtain s where s: "s \<in> set (db_jobs d1)" "same_locked r s" using contract add' r by auto
  note own1 = owned_row_same_locked [OF jobs1 r(2) s]
  show ?thesis
  proof (rule that)
    show "i \<noteq> jr_id r" by (rule new)
    show "owned_row h (continued_db h r i d1) = Some (s\<lparr>jr_max_attempts := jr_attempts s\<rparr>)"
      using exhaust_owned_facts(1) [OF jobs1 own1] by simp
    show "jr_id s = jr_id r" using s(2) by (simp add: same_locked_def)
    show "c \<in> set (db_jobs (continued_db h r i d1))"
      using exhaust_owned_facts(3) [OF jobs1 own1 c(1)] c(2) new r(3) by simp
    show "carries_job r pr i c"
      using c assms(4) continuation_keeps_envelope [OF assms(4)]
      by (simp add: carries_job_def is_payload_envelope_def)
  qed
qed

text \<open>Recording the continuation deletes the old job and keeps every other one.\<close>

lemma continuation_recorded:
  assumes "d' = settled_db h (continued_settle i) r d"
  shows "db_jobs d' = delete_where (\<lambda>x. jr_id x = jr_id r) (db_jobs d)"
    and "\<exists>row. find_row (\<lambda>row. oc_job_id row = jr_id r) (db_outcomes d') = Some row \<and>
      oc_state row = ContinuedState \<and> oc_continued_to row = Some i"
  using find_upsert_outcome [of "new_outcome (OutcomeContinued i) r (db_now d)" "db_outcomes d"]
  by (auto simp: assms settled_db_def continued_settle_def settle_own_row_def report_db_def
      record_outcome_def new_outcome_def)


text \<open>An \<open>add_job\<close> that always adds a row with a fresh id keeps the contract.\<close>

definition fresh_id :: "db \<Rightarrow> nat" where
  "fresh_id d = Suc (foldr max (map jr_id (db_jobs d)) 0)"

definition added_row :: "add_args \<Rightarrow> db \<Rightarrow> job_row" where
  "added_row a d = \<lparr>jr_id = fresh_id d, jr_task = aa_task a, jr_lane = aa_queue_name a,
     jr_payload = aa_payload a, jr_priority = nullish_else (aa_priority a) 0, jr_run_at = db_now d,
     jr_attempts = 0, jr_max_attempts = nullish_else (aa_max_attempts a) 25, jr_last_error = None,
     jr_created_at = db_now d, jr_updated_at = db_now d, jr_key = aa_job_key a, jr_flags = aa_flags a,
     jr_locked_at = None, jr_locked_by = None\<rparr>"

definition sample_add_job :: add_job_fn where
  "sample_add_job a = (\<lambda>d. (Inr (Some (fresh_id d)), d\<lparr>db_jobs := db_jobs d @ [added_row a d]\<rparr>))"

lemma fresh_id: "s \<in> set (db_jobs d) \<Longrightarrow> jr_id s \<noteq> fresh_id d"
proof -
  have "x \<le> foldr max xs (0 :: nat)" if "x \<in> set xs" for x xs
    using that by (induction xs) auto
  from this [of "jr_id s" "map jr_id (db_jobs d)"] show "s \<in> set (db_jobs d) \<Longrightarrow> jr_id s \<noteq> fresh_id d"
    by (auto simp: fresh_id_def)
qed

lemma sample_add_job_contract: "add_job_contract sample_add_job"
proof -
  have "jobs_inv (snd (sample_add_job a d))" if "jobs_inv d" for a d
    using that fresh_id [of _ d] by (fastforce simp: jobs_inv_def sample_add_job_def added_row_def)
  moreover have "\<exists>s'\<in>set (db_jobs (snd (sample_add_job a d))). same_locked s s'"
    if "s \<in> set (db_jobs d)" for s a d
    using that by (auto simp: sample_add_job_def same_locked_def)
  ultimately show ?thesis
    unfolding add_job_contract_def using fresh_id
    by (auto simp: keeps_wait_tables_def sample_add_job_def added_row_def)
qed


end
