(* ===== verification/EnqueueSql.thy ===== *)
theory EnqueueSql
  imports Continuation
begin

text \<open>
  \<^verbatim>\<open>src/src/enqueue-sql.ts\<close>: the statements that enqueue jobs, the matching of a
  batch's rows to its specs, and the idempotent enqueue function that \<^verbatim>\<open>migrate()\<close>
  creates. Graphile's \<open>add_job\<close> and \<open>add_jobs\<close>, PostgreSQL's reading of timestamps and its
  text form of a JSON array are parameters.
\<close>

section \<open>Specs and statements\<close>

record job_spec =
  js_task :: string
  js_payload :: json
  js_queue_name :: "string option"
  js_run_at :: "date_arg option"
  js_max_attempts :: "int option"
  js_job_key :: "string option"
  js_priority :: "int option"
  js_flags :: "string list option"
  js_mode :: "job_key_mode option"
  js_idem_key :: "string option"
  js_idem_ttl :: "int option"

text \<open>A date object is written in ISO form, and an invalid one throws.\<close>

fun timestamp :: "date_arg option \<Rightarrow> string option res" where
  "timestamp None = Inr None"
| "timestamp (Some (DateText s)) = Inr (Some s)"
| "timestamp (Some (DateValue (Some t))) = Inr (Some (iso_string t))"
| "timestamp (Some (DateValue None)) = Inl (PlainRangeError ''Invalid time value'')"

datatype statement =
    SelectNothing
  | AddJob string add_args
  | AddJobs string "job_spec list" bool
  | AddIdempotentJobs string "job_spec list"

definition args_of :: "job_spec \<Rightarrow> add_args" where
  "args_of s = \<lparr>aa_task = js_task s, aa_payload = js_payload s, aa_queue_name = js_queue_name s,
     aa_run_at = js_run_at s, aa_max_attempts = js_max_attempts s, aa_job_key = js_job_key s,
     aa_priority = js_priority s, aa_flags = js_flags s, aa_mode = nullish_else (js_mode s) Replace\<rparr>"

definition add_job_sql :: "string \<Rightarrow> job_spec \<Rightarrow> statement res" where
  "add_job_sql schema s =
     bind_res (quote_schema_name schema) (\<lambda>q.
     bind_res (timestamp (js_run_at s)) (\<lambda>_. Inr (AddJob q (args_of s))))"

text \<open>
  \<open>assertDistinguishable\<close> with its map from contents to targets: the contents are compared as
  the options were given.
\<close>

type_synonym raw_content = "json \<times> string option \<times> int option \<times> int option \<times> string list option"

definition has_key :: "job_spec \<Rightarrow> bool" where
  "has_key s \<longleftrightarrow> js_job_key s \<noteq> None \<and> js_job_key s \<noteq> Some []"

fun assert_distinguishable_from ::
  "(raw_content \<times> string \<times> string option) list \<Rightarrow> job_spec list \<Rightarrow> unit res" where
  "assert_distinguishable_from seen [] = Inr ()"
| "assert_distinguishable_from seen (s # ss) =
     (if has_key s then assert_distinguishable_from seen ss
      else bind_res (timestamp (js_run_at s)) (\<lambda>t.
        let content = (js_payload s, t, js_max_attempts s, js_priority s, js_flags s);
            target = (js_task s, js_queue_name s)
        in if nullish_else (map_of seen content) target \<noteq> target
           then Inl (plain_error (''addJobs cannot match identical unkeyed specs that differ only by '' @
                  ''identifier or queueName; enqueue them separately''))
           else assert_distinguishable_from (AList.update content target seen) ss))"

definition assert_distinguishable :: "job_spec list \<Rightarrow> unit res" where
  "assert_distinguishable specs = assert_distinguishable_from [] specs"

definition add_jobs_sql :: "string \<Rightarrow> job_spec list \<Rightarrow> bool \<Rightarrow> statement res" where
  "add_jobs_sql schema specs preserve =
     bind_res (assert_distinguishable specs) (\<lambda>_.
     bind_res (quote_schema_name schema) (\<lambda>q.
     bind_res (map_res (\<lambda>s. timestamp (js_run_at s)) specs) (\<lambda>_.
     Inr (AddJobs q specs preserve))))"

definition add_idempotent_jobs_sql :: "string \<Rightarrow> job_spec list \<Rightarrow> statement res" where
  "add_idempotent_jobs_sql schema specs =
     bind_res (quote_schema_name schema) (\<lambda>q.
     bind_res (map_res (\<lambda>s. timestamp (js_run_at s)) specs) (\<lambda>_.
     Inr (AddIdempotentJobs q specs)))"

section \<open>Matching the rows of a batch\<close>

text \<open>
  The content a row or a spec is matched by, with the defaults of the spec applied; flags are
  an object in SQL, so their order and repetitions are lost, and no flags are null.
\<close>

record content =
  ct_run_at :: int
  ct_max_attempts :: int
  ct_priority :: int
  ct_flags :: "string set option"
  ct_payload :: json

definition flag_object :: "string list option \<Rightarrow> string set option" where
  "flag_object fs = (case fs of None \<Rightarrow> None | Some [] \<Rightarrow> None | Some xs \<Rightarrow> Some (set xs))"

definition row_content :: "job_row \<Rightarrow> content" where
  "row_content r = \<lparr>ct_run_at = jr_run_at r, ct_max_attempts = jr_max_attempts r,
     ct_priority = jr_priority r, ct_flags = flag_object (jr_flags r), ct_payload = jr_payload r\<rparr>"

definition spec_content :: "(date_arg \<Rightarrow> int) \<Rightarrow> int \<Rightarrow> job_spec \<Rightarrow> content" where
  "spec_content pg_time now s = \<lparr>ct_run_at = (case js_run_at s of None \<Rightarrow> now | Some t \<Rightarrow> pg_time t),
     ct_max_attempts = nullish_else (js_max_attempts s) 25,
     ct_priority = nullish_else (js_priority s) 0,
     ct_flags = flag_object (js_flags s), ct_payload = js_payload s\<rparr>"

text \<open>
  The text matched: a JSON array (so it starts with a bracket), then the payload's text.
  \<open>labels\<close> is the \<open>match\<close> column over rows in their order: a keyed row by its key, an unkeyed
  one by its number among the unkeyed rows of equal content, with the content.
\<close>

type_synonym key_fp = "string option \<times> string"

definition fingerprint :: "(content \<Rightarrow> string) \<Rightarrow> content \<Rightarrow> string" where
  "fingerprint content_text c = CHR ''['' # content_text c"

definition match_label :: "key_fp list \<Rightarrow> key_fp \<Rightarrow> string" where
  "match_label earlier x =
     (case fst x of
        Some k \<Rightarrow> CHR ''k'' # k
      | None \<Rightarrow> CHR ''c'' # show_nat (Suc (count_list earlier (None, snd x))) @ snd x)"

fun labels_from :: "key_fp list \<Rightarrow> key_fp list \<Rightarrow> string list" where
  "labels_from earlier [] = []"
| "labels_from earlier (x # xs) = match_label earlier x # labels_from (earlier @ [x]) xs"

definition row_key_fp :: "(content \<Rightarrow> string) \<Rightarrow> job_row \<Rightarrow> key_fp" where
  "row_key_fp ctext r = (jr_key r, fingerprint ctext (row_content r))"

definition spec_key_fp :: "(content \<Rightarrow> string) \<Rightarrow> (date_arg \<Rightarrow> int) \<Rightarrow> int \<Rightarrow> job_spec \<Rightarrow> key_fp" where
  "spec_key_fp ctext pg_time now s = (js_job_key s, fingerprint ctext (spec_content pg_time now s))"

text \<open>The join of the wanted labels, in order, with the added rows, numbered by id.\<close>

definition join_labels :: "string list \<Rightarrow> (string \<times> 'r) list \<Rightarrow> 'r list" where
  "join_labels wanted added = concat (map (\<lambda>l. map snd (filter (\<lambda>a. fst a = l) added)) wanted)"

definition match_rows ::
  "(content \<Rightarrow> string) \<Rightarrow> (date_arg \<Rightarrow> int) \<Rightarrow> int \<Rightarrow> job_spec list \<Rightarrow> job_row list \<Rightarrow> job_row list" where
  "match_rows ctext pg_time now specs rows =
     (let by_id = sort_key jr_id rows in
      join_labels (labels_from [] (map (spec_key_fp ctext pg_time now) specs))
        (zip (labels_from [] (map (row_key_fp ctext) by_id)) by_id))"

section \<open>The idempotent enqueue function\<close>

definition idem_match :: "string \<Rightarrow> string \<Rightarrow> idem_row \<Rightarrow> bool" where
  "idem_match queue key k \<longleftrightarrow> ik_queue k = queue \<and> ik_key k = key"

text \<open>\<open>INSERT \<dots> ON CONFLICT DO UPDATE \<dots> RETURNING job_id\<close>; a null expiry is refused.\<close>

definition claim_key :: "string \<Rightarrow> string \<Rightarrow> int option \<Rightarrow> nat option tx" where
  "claim_key queue key ttl = (\<lambda>d.
     case ttl of
       None \<Rightarrow> (Inl (NamedError ''error'' ''null value in column'' ), d)
     | Some t \<Rightarrow>
         (case find_row (idem_match queue key) (db_idem d) of
            None \<Rightarrow> (Inr None, d\<lparr>db_idem := db_idem d @
                [\<lparr>ik_queue = queue, ik_key = key, ik_job = None, ik_expires_at = db_now d + t * 1000\<rparr>]\<rparr>)
          | Some k \<Rightarrow>
              if ik_expires_at k > db_now d then (Inr (ik_job k), d)
              else (Inr None, d\<lparr>db_idem := update_where (idem_match queue key)
                     (\<lambda>k. k\<lparr>ik_job := None, ik_expires_at := db_now d + t * 1000\<rparr>) (db_idem d)\<rparr>)))"

definition record_key :: "string \<Rightarrow> string \<Rightarrow> nat option \<Rightarrow> db \<Rightarrow> db" where
  "record_key queue key i d = d\<lparr>db_idem := update_where (idem_match queue key)
     (\<lambda>k. k\<lparr>ik_job := i\<rparr>) (db_idem d)\<rparr>"

definition add_idempotent_item :: "add_job_fn \<Rightarrow> job_spec \<Rightarrow> (nat option \<times> bool) tx" where
  "add_idempotent_item add_job s =
     tx_bind (case js_idem_key s of
         None \<Rightarrow> tx_return None
       | Some key \<Rightarrow> claim_key (js_task s) key (js_idem_ttl s)) (\<lambda>claimed.
     case claimed of
       Some i \<Rightarrow> tx_return (Some i, True)
     | None \<Rightarrow>
         tx_bind (add_job (args_of s)) (\<lambda>added.
         tx_bind (case js_idem_key s of
             None \<Rightarrow> tx_return ()
           | Some key \<Rightarrow> tx_modify (record_key (js_task s) key added)) (\<lambda>_.
         tx_return (added, False))))"

fun add_idempotent_items :: "add_job_fn \<Rightarrow> job_spec list \<Rightarrow> (nat option \<times> bool) list tx" where
  "add_idempotent_items add_job [] = tx_return []"
| "add_idempotent_items add_job (s # ss) =
     tx_bind (add_idempotent_item add_job s) (\<lambda>x.
     tx_bind (add_idempotent_items add_job ss) (\<lambda>xs. tx_return (x # xs)))"

section \<open>Running a statement\<close>

text \<open>
  A statement is one transaction and gives its \<open>id\<close> rows. \<open>add_jobs\<close> gives the rows in any
  order; the statement matches them to its specs.
\<close>

record backend =
  be_add_job :: add_job_fn
  be_add_jobs :: "job_spec list \<Rightarrow> bool \<Rightarrow> job_row list tx"
  be_content_text :: "content \<Rightarrow> string"
  be_time :: "date_arg \<Rightarrow> int"

fun run_statement :: "backend \<Rightarrow> statement \<Rightarrow> nat option list tx" where
  "run_statement b SelectNothing = tx_return []"
| "run_statement b (AddJob _ a) = transaction (tx_bind (be_add_job b a) (\<lambda>i. tx_return [i]))"
| "run_statement b (AddJobs _ specs preserve) = transaction (\<lambda>d.
     tx_bind (be_add_jobs b specs preserve) (\<lambda>rows.
       tx_return (map (Some \<circ> jr_id) (match_rows (be_content_text b) (be_time b) (db_now d) specs rows))) d)"
| "run_statement b (AddIdempotentJobs _ specs) =
     transaction (tx_bind (add_idempotent_items (be_add_job b) specs) (\<lambda>xs. tx_return (map fst xs)))"

section \<open>Pruning\<close>

definition prune_idempotency_keys :: "(idem_row \<Rightarrow> bool) \<Rightarrow> db \<Rightarrow> db" where
  "prune_idempotency_keys busy d = d\<lparr>db_idem :=
     delete_where (\<lambda>k. ik_expires_at k \<le> db_now d \<and> \<not> busy k) (db_idem d)\<rparr>"

end
