(* ===== verification/EnqueueMatch.thy ===== *)
theory EnqueueMatch
  imports EnqueueSql "HOL-Library.Multiset"
begin

text \<open>
  The match of a batch's rows with its specs (\<open>addJobsSql\<close> of
  \<^verbatim>\<open>src/src/enqueue-sql.ts\<close>): labels are unique, depend only on the multiset of keys
  and contents, and determine both; so the join gives each spec one row, in spec order.
\<close>

section \<open>Labels\<close>

lemma length_labels_from [simp]: "length (labels_from e xs) = length xs"
  by (induction xs arbitrary: e) simp_all

lemma labels_from_snoc: "labels_from e (xs @ [x]) = labels_from e xs @ [match_label (e @ xs) x]"
  by (induction xs arbitrary: e) simp_all

lemma labels_from_nth: "i < length xs \<Longrightarrow> labels_from e xs ! i = match_label (e @ take i xs) (xs ! i)"
  by (induction xs arbitrary: e i) (auto simp: nth_Cons split: nat.split)

definition bracketed :: "key_fp \<Rightarrow> bool" where
  "bracketed x \<longleftrightarrow> (\<exists>rest. snd x = CHR ''['' # rest)"

lemma number_bracket_inject:
  assumes "show_nat n @ CHR ''['' # a = show_nat m @ CHR ''['' # b"
  shows "n = m \<and> a = b"
proof -
  have digits: "takeWhile is_digit (show_nat k @ CHR ''['' # c) = show_nat k" for k c
    using all_digits_show_nat [of k]
    by (subst takeWhile_append2) (auto simp: all_digits_def list_all_iff is_digit_def)
  from arg_cong [OF assms, of "takeWhile is_digit"] have "show_nat n = show_nat m"
    by (simp only: digits)
  with assms show ?thesis by simp
qed

lemma match_label_eq:
  assumes "match_label e x = match_label e' y" "bracketed x" "bracketed y"
  shows "(\<exists>k. fst x = Some k \<and> fst y = Some k) \<or>
    (x = y \<and> fst x = None \<and> count_list e x = count_list e' x)"
proof -
  obtain k fp where x: "x = (k, CHR ''['' # fp)" using assms(2) by (cases x) (auto simp: bracketed_def)
  obtain k' fp' where y: "y = (k', CHR ''['' # fp')" using assms(3) by (cases y) (auto simp: bracketed_def)
  from assms(1) show ?thesis
    by (cases k; cases k') (auto simp: x y match_label_def dest: number_bracket_inject)
qed

definition unique_keys :: "key_fp list \<Rightarrow> bool" where
  "unique_keys xs \<longleftrightarrow> distinct (filter (\<lambda>k. k \<noteq> None) (map fst xs))"

lemma unique_keysD:
  "unique_keys xs \<Longrightarrow> i < length xs \<Longrightarrow> j < length xs \<Longrightarrow> fst (xs ! i) = Some k \<Longrightarrow>
   fst (xs ! j) = Some k \<Longrightarrow> i = j"
proof (induction xs arbitrary: i j)
  case (Cons x xs)
  have fresh: "fst x \<noteq> Some k" if "n < length xs" "fst (xs ! n) = Some k" for n
    using Cons.prems(1) that by (force simp: unique_keys_def in_set_conv_nth split: if_splits)
  from Cons show ?case
    using fresh by (cases i; cases j) (auto simp: unique_keys_def split: if_splits)
qed simp

lemma count_list_take_less:
  assumes "i < j" "j \<le> length xs"
  shows "count_list (take i xs) (xs ! i) < count_list (take j xs) (xs ! i)"
proof -
  from assms(1) obtain m where m: "j = i + Suc m" using less_imp_Suc_add by fastforce
  have "drop i xs = xs ! i # drop (Suc i) xs"
    using assms by (simp add: Cons_nth_drop_Suc)
  then have "take j xs = take i xs @ xs ! i # take m (drop (Suc i) xs)"
    unfolding m take_add by simp
  then show ?thesis by simp
qed

lemma labels_from_distinct:
  assumes "unique_keys xs" "\<And>x. x \<in> set xs \<Longrightarrow> bracketed x"
  shows "distinct (labels_from [] xs)"
proof -
  have "labels_from [] xs ! i \<noteq> labels_from [] xs ! j" if "i < j" "j < length xs" for i j
  proof
    assume "labels_from [] xs ! i = labels_from [] xs ! j"
    then have "match_label (take i xs) (xs ! i) = match_label (take j xs) (xs ! j)"
      using that by (simp add: labels_from_nth)
    from match_label_eq [OF this] assms(2) that
    have "(\<exists>k. fst (xs ! i) = Some k \<and> fst (xs ! j) = Some k) \<or>
        (xs ! i = xs ! j \<and> count_list (take i xs) (xs ! i) = count_list (take j xs) (xs ! i))"
      by auto
    with unique_keysD [OF assms(1), of i j] count_list_take_less [of i j xs] that
    show False by auto
  qed
  then show ?thesis
    unfolding distinct_conv_nth length_labels_from by (metis linorder_neqE_nat)
qed

lemma labels_from_set:
  "l \<in> set (labels_from [] xs) \<longleftrightarrow>
     (\<exists>k fp. (Some k, fp) \<in> set xs \<and> l = CHR ''k'' # k) \<or>
     (\<exists>fp n. n < count_list xs (None, fp) \<and> l = CHR ''c'' # show_nat (Suc n) @ fp)"
proof (induction xs rule: rev_induct)
  case (snoc x xs)
  obtain k fp where x: "x = (k, fp)" by (cases x)
  show ?case
  proof (cases k)
    case (Some key)
    with snoc show ?thesis by (auto simp: labels_from_snoc match_label_def x)
  next
    case None
    have "(\<exists>fp' n. n < count_list (xs @ [x]) (None, fp') \<and> l = CHR ''c'' # show_nat (Suc n) @ fp') \<longleftrightarrow>
        (\<exists>fp' n. n < count_list xs (None, fp') \<and> l = CHR ''c'' # show_nat (Suc n) @ fp') \<or>
        l = CHR ''c'' # show_nat (Suc (count_list xs (None, fp))) @ fp"
      by (auto simp: x None less_Suc_eq split: if_splits)
    with snoc None show ?thesis by (auto simp: labels_from_snoc match_label_def x)
  qed
qed simp

lemma labels_from_mset:
  assumes "mset xs = mset ys"
  shows "set (labels_from [] xs) = set (labels_from [] ys)"
proof -
  have "count_list xs a = count_list ys a" for a
    using assms by (metis count_mset)
  moreover have "set xs = set ys" using assms by (rule mset_eq_setD)
  ultimately show ?thesis by (auto simp: labels_from_set)
qed

section \<open>The join\<close>

lemma filter_distinct_keys:
  "distinct (map fst ps) \<Longrightarrow>
   map snd (filter (\<lambda>a. fst a = l) ps) = (case map_of ps l of None \<Rightarrow> [] | Some r \<Rightarrow> [r])"
proof (induction ps)
  case (Cons p ps)
  have "filter (\<lambda>a. fst a = fst p) ps = []"
    using Cons.prems by (auto simp: filter_empty_conv) (metis fst_conv image_eqI)
  with Cons show ?case by (cases p) auto
qed simp

lemma join_labels_map:
  assumes "distinct ls" "length ls = length rs" "set ws \<subseteq> set ls"
  shows "join_labels ws (zip ls rs) = map (\<lambda>l. the (map_of (zip ls rs) l)) ws"
proof -
  have "distinct (map fst (zip ls rs))" using assms by simp
  moreover have "\<exists>r. map_of (zip ls rs) l = Some r" if "l \<in> set ws" for l
    using assms that by (metis (no_types) map_of_zip_is_None not_Some_eq subsetD)
  ultimately show ?thesis
    using assms(3) unfolding join_labels_def
    by (induction ws) (fastforce simp: filter_distinct_keys)+
qed

lemma map_of_zip_all:
  "distinct ls \<Longrightarrow> length ls = length rs \<Longrightarrow> map (\<lambda>l. the (map_of (zip ls rs) l)) ls = rs"
  by (rule nth_equalityI) (simp_all add: map_of_zip_nth)

lemma same_label_same_row:
  assumes "mset xs = mset ws" "unique_keys ws" "\<And>x. x \<in> set ws \<Longrightarrow> bracketed x"
    and "i < length ws" "j < length xs" "labels_from [] xs ! j = labels_from [] ws ! i"
  shows "xs ! j = ws ! i"
proof -
  have sets: "set xs = set ws" using assms(1) by (rule mset_eq_setD)
  have mem: "ws ! i \<in> set ws" "xs ! j \<in> set ws"
    using nth_mem [OF assms(4)] nth_mem [OF assms(5)] unfolding sets by blast+
  have "match_label (take j xs) (xs ! j) = match_label (take i ws) (ws ! i)"
    using assms(4-6) by (simp add: labels_from_nth)
  from match_label_eq [OF this] mem assms(3)
  consider k where "fst (xs ! j) = Some k" "fst (ws ! i) = Some k" | "xs ! j = ws ! i"
    by blast
  then show ?thesis
  proof cases
    case 1
    from mem(2) obtain i' where i': "i' < length ws" "ws ! i' = xs ! j"
      by (auto simp: in_set_conv_nth)
    with 1 have "i' = i" using unique_keysD [OF assms(2) i'(1) assms(4)] by simp
    with i' show ?thesis by simp
  qed
qed

lemma spec_bracketed: "x \<in> set (map (spec_key_fp ctext tm now) specs) \<Longrightarrow> bracketed x"
  by (auto simp: spec_key_fp_def fingerprint_def bracketed_def)

text \<open>
  C25 A batch's ids come back in the order of its specs: when the rows that \<open>add_jobs\<close> gives are,
  in whatever order and with whatever ids, rows for the specs (each key and content as often), and
  the keys of the batch are unique, the statement returns every row once, the row at each position
  having the key and content of the spec at that position.
\<close>

theorem batch_rows_in_spec_order:
  assumes "mset (map (row_key_fp ctext) rows) = mset (map (spec_key_fp ctext tm now) specs)"
    and "distinct (filter (\<lambda>k. k \<noteq> None) (map js_job_key specs))"
  shows "map (row_key_fp ctext) (match_rows ctext tm now specs rows) = map (spec_key_fp ctext tm now) specs \<and>
    mset (match_rows ctext tm now specs rows) = mset rows"
proof -
  let ?rs = "sort_key jr_id rows"
  let ?xs = "map (row_key_fp ctext) ?rs" let ?ws = "map (spec_key_fp ctext tm now) specs"
  let ?L = "labels_from [] ?xs" let ?W = "labels_from [] ?ws"
  let ?g = "\<lambda>l. the (map_of (zip ?L ?rs) l)"
  have ms: "mset ?xs = mset ?ws" using assms(1) by simp
  have uw: "unique_keys ?ws"
    using assms(2) by (simp add: unique_keys_def comp_def spec_key_fp_def)
  have "mset (filter (\<lambda>k. k \<noteq> None) (map fst ?xs)) = mset (filter (\<lambda>k. k \<noteq> None) (map fst ?ws))"
    using arg_cong [OF ms, of "\<lambda>m. filter_mset (\<lambda>k. k \<noteq> None) (image_mset fst m)"]
    by (simp only: mset_filter mset_map)
  from mset_eq_imp_distinct_iff [OF this] uw have ux: "unique_keys ?xs"
    unfolding unique_keys_def by blast
  have bw: "bracketed x" if "x \<in> set ?ws" for x using that by (rule spec_bracketed)
  then have bx: "bracketed x" if "x \<in> set ?xs" for x using that mset_eq_setD [OF ms] by blast
  have dL: "distinct ?L" by (rule labels_from_distinct [OF ux bx])
  have dW: "distinct ?W" by (rule labels_from_distinct [OF uw bw])
  have sets: "set ?W = set ?L" using labels_from_mset [OF ms] by simp
  have match: "match_rows ctext tm now specs rows = map ?g ?W"
    unfolding match_rows_def Let_def using dL sets by (intro join_labels_map) simp_all
  have "mset ?W = mset ?L" using dL dW sets by (simp add: set_eq_iff_mset_eq_distinct)
  then have "mset (map ?g ?W) = mset (map ?g ?L)" by (simp only: mset_map)
  also have "map ?g ?L = ?rs" using dL by (intro map_of_zip_all) simp_all
  finally have rows: "mset (map ?g ?W) = mset rows" by simp
  have "map (row_key_fp ctext) (map ?g ?W) = ?ws"
  proof (rule nth_equalityI)
    fix i assume "i < length (map (row_key_fp ctext) (map ?g ?W))"
    then have i: "i < length ?ws" by simp
    then have "?W ! i \<in> set ?L" using sets by (metis length_labels_from nth_mem)
    then obtain j where j: "j < length ?xs" "?L ! j = ?W ! i"
      by (metis in_set_conv_nth length_labels_from)
    have "?g (?W ! i) = ?rs ! j"
      using dL j by (simp flip: j(2) add: map_of_zip_nth)
    moreover have "?xs ! j = ?ws ! i" by (rule same_label_same_row [OF ms uw bw i j])
    ultimately show "map (row_key_fp ctext) (map ?g ?W) ! i = ?ws ! i"
      using i j by simp
  qed simp
  with rows match show ?thesis by simp
qed

definition sample_spec :: "string \<Rightarrow> json \<Rightarrow> job_spec" where
  "sample_spec task p = \<lparr>js_task = task, js_payload = p, js_queue_name = None, js_run_at = None,
     js_max_attempts = Some 4, js_job_key = None, js_priority = None, js_flags = None, js_mode = None,
     js_idem_key = None, js_idem_ttl = None\<rparr>"

theorem batch_rows_in_spec_order_witness:
  "let ctext = (\<lambda>c. if ct_payload c = JNull then ''n'' else ''t'');
       tm = (\<lambda>_. 0);
       specs = [sample_spec ''mail'' JNull, sample_spec ''mail'' (JBool True)];
       row = (\<lambda>i p. sample_job\<lparr>jr_id := i, jr_payload := p, jr_max_attempts := 4, jr_run_at := 9000\<rparr>);
       rows = [row 3 (JBool True), row 9 JNull] in
   map (row_key_fp ctext) (match_rows ctext tm 9000 specs rows) = map (spec_key_fp ctext tm 9000) specs \<and>
   map jr_id (match_rows ctext tm 9000 specs rows) = [9, 3]"
proof -
  let ?ctext = "\<lambda>c. if ct_payload c = JNull then ''n'' else ''t''" let ?tm = "\<lambda>_ :: date_arg. 0 :: int"
  let ?specs = "[sample_spec ''mail'' JNull, sample_spec ''mail'' (JBool True)]"
  let ?row = "\<lambda>i p. sample_job\<lparr>jr_id := i, jr_payload := p, jr_max_attempts := 4, jr_run_at := 9000\<rparr>"
  let ?rows = "[?row 3 (JBool True), ?row 9 JNull]"
  have "rev (map (row_key_fp ?ctext) ?rows) = map (spec_key_fp ?ctext ?tm 9000) ?specs"
    by code_simp
  from arg_cong [OF this, of mset]
  have "mset (map (row_key_fp ?ctext) ?rows) = mset (map (spec_key_fp ?ctext ?tm 9000) ?specs)"
    unfolding mset_rev .
  moreover have "distinct (filter (\<lambda>k. k \<noteq> None) (map js_job_key ?specs))" by code_simp
  ultimately have "map (row_key_fp ?ctext) (match_rows ?ctext ?tm 9000 ?specs ?rows) =
      map (spec_key_fp ?ctext ?tm 9000) ?specs"
    by (rule conjunct1 [OF batch_rows_in_spec_order])
  moreover have "map jr_id (match_rows ?ctext ?tm 9000 ?specs ?rows) = [9, 3]" by code_simp
  ultimately show ?thesis by (simp only: Let_def)
qed

end
