(* ===== verification/Idempotency.thy ===== *)
theory Idempotency
  imports EnqueueMatch
begin

text \<open>
  Idempotency keys (\<open>bgw_add_jobs\<close> and its table, \<^verbatim>\<open>src/src/enqueue-sql.ts\<close>): a key
  enqueues at most one job within its time to live, and pruning expired keys cannot be
  observed.
\<close>

section \<open>The key table as a function of time\<close>

text \<open>The abstract table: the unexpired job of a queue and key.\<close>

definition live_key :: "db \<Rightarrow> string \<Rightarrow> string \<Rightarrow> nat option option" where
  "live_key d queue key =
     (case find_row (idem_match queue key) (db_idem d) of
        None \<Rightarrow> None
      | Some k \<Rightarrow> if ik_expires_at k > db_now d then Some (ik_job k) else None)"

definition idem_inv :: "db \<Rightarrow> bool" where
  "idem_inv d \<longleftrightarrow> distinct (map (\<lambda>k. (ik_queue k, ik_key k)) (db_idem d))"

lemma find_idem_update [simp]:
  "(\<And>k. idem_match q x k \<Longrightarrow> idem_match q x (f k)) \<Longrightarrow>
   find_row (idem_match q x) (update_where (idem_match q x) f ks) =
     map_option f (find_row (idem_match q x) ks)"
  by (induction ks) (simp_all add: table_simps)

lemma idem_match_update [simp]:
  "idem_match q x (k\<lparr>ik_job := j\<rparr>) = idem_match q x k"
  "idem_match q x (k\<lparr>ik_job := j, ik_expires_at := t\<rparr>) = idem_match q x k"
  "idem_match q x \<lparr>ik_queue = q, ik_key = x, ik_job = j, ik_expires_at = t\<rparr>"
  by (simp_all add: idem_match_def)

text \<open>The abstract effect of a claim, in terms of the live key alone.\<close>

lemma claim_key_live:
  "live_key d q x = Some j \<Longrightarrow> claim_key q x (Some t) d = (Inr j, d)"
  by (auto simp: live_key_def claim_key_def split: option.splits if_splits)

lemma claim_key_dead:
  assumes "live_key d q x = None"
  shows "\<exists>ks k. claim_key q x (Some t) d = (Inr None, d\<lparr>db_idem := ks\<rparr>) \<and>
    find_row (idem_match q x) ks = Some k \<and> ik_job k = None \<and> ik_expires_at k = db_now d + t * 1000 \<and>
    idem_match q x k"
proof (cases "find_row (idem_match q x) (db_idem d)")
  case None
  let ?k = "\<lparr>ik_queue = q, ik_key = x, ik_job = None, ik_expires_at = db_now d + t * 1000\<rparr>"
  show ?thesis
    by (rule exI [of _ "db_idem d @ [?k]"], rule exI [of _ ?k])
       (simp add: claim_key_def None table_simps)
next
  case (Some k)
  let ?f = "\<lambda>k. k\<lparr>ik_job := None, ik_expires_at := db_now d + t * 1000\<rparr>"
  from Some find_row_Some have "idem_match q x k" by metis
  moreover from Some assms have "\<not> ik_expires_at k > db_now d" by (auto simp: live_key_def)
  ultimately show ?thesis
    by (intro exI [of _ "update_where (idem_match q x) ?f (db_idem d)"] exI [of _ "?f k"])
       (simp add: claim_key_def Some)
qed

section \<open>One job per key\<close>

definition keeps_idem :: "'a tx \<Rightarrow> bool" where
  "keeps_idem m \<longleftrightarrow> (\<forall>d. db_idem (snd (m d)) = db_idem d \<and> db_now (snd (m d)) = db_now d)"

text \<open>
  A held key enqueues nothing: while the key of a spec has an unexpired recorded job, enqueueing
  returns that job's id, says it was deduplicated, and leaves the whole database as it was,
  whatever \<open>add_job\<close> would do.
\<close>

theorem idempotent_key_held:
  assumes "js_idem_key s = Some key" and "js_idem_ttl s = Some ttl"
    and "live_key d (js_task s) key = Some (Some i)"
  shows "add_idempotent_item aj s d = (Inr (Some i, True), d)"
  using claim_key_live [OF assms(3), of ttl] assms(1,2)
  by (simp add: add_idempotent_item_def tx_simps)

definition sample_idem_spec :: job_spec where
  "sample_idem_spec = (sample_spec ''mail'' JNull)\<lparr>js_idem_key := Some ''order-1'', js_idem_ttl := Some 60000\<rparr>"

definition sample_idem_db :: db where
  "sample_idem_db = sample_db\<lparr>db_idem :=
     [\<lparr>ik_queue = ''mail'', ik_key = ''order-1'', ik_job = Some 3, ik_expires_at = 9001\<rparr>]\<rparr>"

theorem idempotent_key_held_witness:
  "add_idempotent_item sample_add_job sample_idem_spec sample_idem_db = (Inr (Some 3, True), sample_idem_db)"
proof -
  have "js_idem_key sample_idem_spec = Some ''order-1''" "js_idem_ttl sample_idem_spec = Some 60000"
    "live_key sample_idem_db (js_task sample_idem_spec) ''order-1'' = Some (Some 3)"
    by (code_simp+)
  then show ?thesis by (rule idempotent_key_held)
qed

lemma add_idempotent_item_first:
  assumes "js_idem_key s = Some key" "js_idem_ttl s = Some ttl"
    and "live_key d (js_task s) key = None" and "keeps_idem (aj (args_of s))"
    and "add_idempotent_item aj s d = (Inr (i, dup), d')"
  shows "\<not> dup \<and> (\<exists>k. find_row (idem_match (js_task s) key) (db_idem d') = Some k \<and>
    ik_job k = i \<and> ik_expires_at k = db_now d + ttl * 1000)"
proof -
  obtain ks k where claim: "claim_key (js_task s) key (Some ttl) d = (Inr None, d\<lparr>db_idem := ks\<rparr>)"
    and k: "find_row (idem_match (js_task s) key) ks = Some k" "ik_expires_at k = db_now d + ttl * 1000"
    using claim_key_dead [OF assms(3)] by blast
  obtain d1 where add: "aj (args_of s) (d\<lparr>db_idem := ks\<rparr>) = (Inr i, d1)"
    and d': "d' = record_key (js_task s) key i d1" and "\<not> dup"
    using assms(5) unfolding add_idempotent_item_def
    by (auto simp: tx_simps assms(1,2) claim split: prod.splits sum.splits)
  have "db_idem (snd (aj (args_of s) (d\<lparr>db_idem := ks\<rparr>))) = db_idem (d\<lparr>db_idem := ks\<rparr>)"
    using assms(4) unfolding keeps_idem_def by blast
  then have "db_idem d1 = ks" by (simp add: add)
  with k \<open>\<not> dup\<close> show ?thesis by (simp add: d' record_key_def)
qed



section \<open>Pruning\<close>

lemma find_row_delete:
  assumes "idem_inv d"
  shows "find_row (idem_match q x) (delete_where p (db_idem d)) =
    (case find_row (idem_match q x) (db_idem d) of None \<Rightarrow> None | Some k \<Rightarrow> if p k then None else Some k)"
proof -
  have "distinct (map (\<lambda>k. (ik_queue k, ik_key k)) ks) \<Longrightarrow>
    find_row (idem_match q x) (delete_where p ks) =
    (case find_row (idem_match q x) ks of None \<Rightarrow> None | Some k \<Rightarrow> if p k then None else Some k)" for ks
  proof (induction ks)
    case (Cons k ks)
    have "find_row (idem_match q x) (delete_where p ks) = None" if "idem_match q x k"
    proof -
      have "\<not> idem_match q x k'" if "k' \<in> set ks" for k'
      proof
        assume "idem_match q x k'"
        with \<open>idem_match q x k\<close> have "(ik_queue k, ik_key k) = (ik_queue k', ik_key k')"
          by (simp add: idem_match_def)
        with Cons.prems that show False by (simp add: rev_image_eqI)
      qed
      then show ?thesis by (auto simp: find_row_None set_delete_where)
    qed
    with Cons show ?case by (auto simp: table_simps)
  qed (simp add: table_simps)
  with assms show ?thesis by (simp add: idem_inv_def)
qed

text \<open>
  Pruning expired keys cannot be observed: for every task and key, and whichever rows other
  transactions hold, the pruned table holds exactly the same unexpired jobs.
\<close>

theorem prune_unobservable:
  assumes "idem_inv d"
  shows "live_key (prune_idempotency_keys busy d) queue key = live_key d queue key"
  using find_row_delete [OF assms, of queue key]
  by (auto simp: live_key_def prune_idempotency_keys_def split: option.splits)

theorem prune_unobservable_witness:
  "length (db_idem (prune_idempotency_keys (\<lambda>_. False) (sample_idem_db\<lparr>db_now := 9001\<rparr>))) = 0 \<and>
   live_key (prune_idempotency_keys (\<lambda>_. False) (sample_idem_db\<lparr>db_now := 9001\<rparr>)) ''mail'' ''order-1'' =
   live_key (sample_idem_db\<lparr>db_now := 9001\<rparr>) ''mail'' ''order-1''"
proof -
  have "idem_inv (sample_idem_db\<lparr>db_now := 9001\<rparr>)"
    and len: "length (db_idem (prune_idempotency_keys (\<lambda>_. False) (sample_idem_db\<lparr>db_now := 9001\<rparr>))) = 0"
    by (code_simp+)
  from prune_unobservable [OF this(1)] len show ?thesis by blast
qed

section \<open>What the batch check misses\<close>


end
