(* ===== verification/Maintenance.thy ===== *)
theory Maintenance
  imports Outcomes Idempotency Lifecycle
begin

text \<open>
  Crash recovery and the maintenance pass, \<^verbatim>\<open>src/src/maintenance.ts\<close>: heartbeats,
  the sweep that releases the jobs of dead workers, and the pass that also sweeps waits and
  prunes outcomes and idempotency keys. Every step runs on its own and may fail before or after
  its statement took effect; the step that failed is reported and the others still run.
\<close>

section \<open>Options\<close>

datatype recovery_option = RecoveryDefault | RecoveryOff | RecoveryWith "jsnum option" "jsnum option"

record recovery =
  rc_interval :: int
  rc_stale_after :: int

definition resolve_crash_recovery :: "recovery_option \<Rightarrow> recovery option res" where
  "resolve_crash_recovery opt =
     (case opt of
        RecoveryOff \<Rightarrow> Inr None
      | _ \<Rightarrow>
          (let (interval, stale) = (case opt of RecoveryWith i s \<Rightarrow> (i, s) | _ \<Rightarrow> (None, None)) in
           bind_res (assert_integer (nullish_else interval (int_num 30000))
             ''crashRecovery.heartbeatInterval'' 1 max_timer) (\<lambda>i.
           bind_res (assert_integer (nullish_else stale (int_num 300000))
             ''crashRecovery.staleAfter'' (3 * i) max_safe_integer) (\<lambda>s.
           Inr (Some \<lparr>rc_interval = i, rc_stale_after = s\<rparr>)))))"

section \<open>Heartbeats and dead workers\<close>

text \<open>The result tells whether the row was inserted rather than updated.\<close>

definition beat_row :: "string \<Rightarrow> db \<Rightarrow> bool \<times> db" where
  "beat_row worker d =
     (if list_ex (\<lambda>hb. hb_worker hb = worker) (db_heartbeats d)
      then (False, d\<lparr>db_heartbeats := update_where (\<lambda>hb. hb_worker hb = worker)
              (\<lambda>hb. hb\<lparr>hb_last_seen := db_now d\<rparr>) (db_heartbeats d)\<rparr>)
      else (True, d\<lparr>db_heartbeats := db_heartbeats d @ [\<lparr>hb_worker = worker, hb_last_seen = db_now d\<rparr>]\<rparr>))"

text \<open>
  The rows a sweep takes: stale, not the sweeper's own, and not held by another sweep, which
  \<open>busy\<close> tells. Without a sweeper every worker differs from it.
\<close>

definition dead_row :: "(heartbeat_row \<Rightarrow> bool) \<Rightarrow> int \<Rightarrow> string option \<Rightarrow> db \<Rightarrow> heartbeat_row \<Rightarrow> bool" where
  "dead_row busy stale sweeper d hb \<longleftrightarrow>
     hb_last_seen hb < db_now d - stale * 1000 \<and> Some (hb_worker hb) \<noteq> sweeper \<and> \<not> busy hb"

record swept =
  sw_workers :: "string list"
  sw_jobs :: "nat list"

definition sweep_dead_workers ::
  "(heartbeat_row \<Rightarrow> bool) \<Rightarrow> int \<Rightarrow> string option \<Rightarrow> swept tx" where
  "sweep_dead_workers busy stale sweeper = transaction (\<lambda>d.
     let dead = filter (dead_row busy stale sweeper d) (db_heartbeats d);
         d1 = d\<lparr>db_heartbeats := delete_where (dead_row busy stale sweeper d) (db_heartbeats d)\<rparr>;
         workers = map hb_worker dead;
         (jobs, d2) = (if workers \<noteq> [] then release_jobs_locked_by workers d1 else ([], d1))
     in (Inr \<lparr>sw_workers = workers, sw_jobs = jobs\<rparr>, d2))"

section \<open>The maintenance pass\<close>

text \<open>
  How a step fared: it ran; or its connection or statement failed before it had any effect; or
  the answer was lost after the statement committed.
\<close>

datatype fate = Runs | FailsBefore js_error | FailsAfter js_error

datatype maintenance_event =
    StepFailed string js_error
  | ReleasedJobs "string list" "nat list"
  | LostChildren "nat list"

definition attempt_step :: "string \<Rightarrow> fate \<Rightarrow> 'a tx \<Rightarrow> ('a \<Rightarrow> maintenance_event list) \<Rightarrow> db
    \<Rightarrow> maintenance_event list \<times> db" where
  "attempt_step event how work news d =
     (case how of
        FailsBefore e \<Rightarrow> ([StepFailed event e], d)
      | FailsAfter e \<Rightarrow> ([StepFailed event e], snd (work d))
      | Runs \<Rightarrow>
          (case work d of
             (Inl e, d') \<Rightarrow> ([StepFailed event e], d')
           | (Inr x, d') \<Rightarrow> (news x, d')))"

text \<open>The locks other workers' sweeps hold while each step runs.\<close>

record locks =
  lk_heartbeat :: "heartbeat_row \<Rightarrow> bool"
  lk_wait :: "wait_row \<Rightarrow> bool"
  lk_outcome :: "outcome_row \<Rightarrow> bool"
  lk_idem :: "idem_row \<Rightarrow> bool"

record fates =
  ft_dead :: fate
  ft_waits :: fate
  ft_outcomes :: fate
  ft_idem :: fate

record maintenance_options =
  mo_recovery :: "recovery option"
  mo_retention :: "int option"
  mo_worker :: "string option"

definition maintenance_pass ::
  "maintenance_options \<Rightarrow> locks \<Rightarrow> fates \<Rightarrow> db \<Rightarrow> maintenance_event list \<times> db" where
  "maintenance_pass opts lk ft d =
     (let (e1, d1) = (case mo_recovery opts of
            None \<Rightarrow> ([], d)
          | Some rc \<Rightarrow>
              attempt_step ''worker.crash_recovery.sweep_failed'' (ft_dead ft)
                (sweep_dead_workers (lk_heartbeat lk) (rc_stale_after rc) (mo_worker opts))
                (\<lambda>sw. if sw_jobs sw = [] then [] else [ReleasedJobs (sw_workers sw) (sw_jobs sw)]) d);
          (e2, d2) = attempt_step ''worker.waits.sweep_failed'' (ft_waits ft)
            (sweep_waits (lk_wait lk)) (\<lambda>lost. if lost = [] then [] else [LostChildren lost]) d1;
          (e3, d3) = (case mo_retention opts of
            None \<Rightarrow> ([], d2)
          | Some t \<Rightarrow>
              attempt_step ''job.outcome.prune_failed'' (ft_outcomes ft)
                (tx_modify (prune_job_outcomes (lk_outcome lk) t)) (\<lambda>_. []) d2);
          (e4, d4) = attempt_step ''worker.idempotency.prune_failed'' (ft_idem ft)
            (tx_modify (prune_idempotency_keys (lk_idem lk))) (\<lambda>_. []) d3
      in (e1 @ e2 @ e3 @ e4, d4))"

section \<open>The maintenance of a started pool\<close>

text \<open>
  What the timer loop keeps: whether the pool registered, whether it was stopped, whether a
  beat and pass are under way, and whether the next ones are scheduled. The held connection
  only matters through the fate of each step.
\<close>

record maintenance_state =
  ms_registered :: bool
  ms_stopped :: bool
  ms_beating :: bool
  ms_passing :: bool
  ms_timer :: bool

text \<open>\<open>startMaintenance\<close> begins the first beat at once.\<close>

definition start_maintenance :: maintenance_state where
  "start_maintenance = \<lparr>ms_registered = False, ms_stopped = False, ms_beating = True,
     ms_passing = False, ms_timer = False\<rparr>"

text \<open>
  \<open>beat\<close>: the flag of the result says that other workers had treated this one as dead. A failed
  beat is logged, and a pass follows in any case.
\<close>

definition beat :: "maintenance_options \<Rightarrow> string \<Rightarrow> fate \<Rightarrow> maintenance_state \<Rightarrow> db
    \<Rightarrow> bool \<times> maintenance_state \<times> db" where
  "beat opts worker how ms d =
     (let ms' = ms\<lparr>ms_beating := False, ms_passing := True\<rparr> in
      if mo_recovery opts = None then (False, ms', d)
      else case how of
        FailsBefore _ \<Rightarrow> (False, ms', d)
      | FailsAfter _ \<Rightarrow> (False, ms', snd (beat_row worker d))
      | Runs \<Rightarrow>
          (let (inserted, d') = beat_row worker d in
           (ms_registered ms \<and> inserted, ms'\<lparr>ms_registered := True\<rparr>, d')))"

text \<open>The pass ends and \<open>schedule\<close> sets the timer unless the maintenance was stopped.\<close>

definition pass_ends :: "maintenance_state \<Rightarrow> maintenance_state" where
  "pass_ends ms = ms\<lparr>ms_passing := False, ms_timer := \<not> ms_stopped ms\<rparr>"

definition timer_fires :: "maintenance_state \<Rightarrow> maintenance_state" where
  "timer_fires ms = ms\<lparr>ms_timer := False, ms_beating := True\<rparr>"

definition stop_maintenance :: "maintenance_state \<Rightarrow> maintenance_state" where
  "stop_maintenance ms = ms\<lparr>ms_stopped := True, ms_timer := False\<rparr>"

text \<open>\<open>runOnce\<close>: a single pass, by no registered worker.\<close>

definition maintain_once ::
  "maintenance_options \<Rightarrow> locks \<Rightarrow> fates \<Rightarrow> db \<Rightarrow> maintenance_event list \<times> db" where
  "maintain_once opts = maintenance_pass (opts\<lparr>mo_worker := None\<rparr>)"

section \<open>Live workers\<close>

lemma sweep_dead_result:
  "sweep_dead_workers busy stale sweeper d =
     (let workers = map hb_worker (filter (dead_row busy stale sweeper d) (db_heartbeats d));
          d1 = d\<lparr>db_heartbeats := delete_where (dead_row busy stale sweeper d) (db_heartbeats d)\<rparr>
      in (Inr \<lparr>sw_workers = workers, sw_jobs = fst (release_jobs_locked_by workers d1)\<rparr>,
          snd (release_jobs_locked_by workers d1)))"
proof -
  have [simp]: "release_jobs_locked_by [] d = ([], d)" for d :: db
  proof -
    have "locked_by_any [] who = False" for who by (cases who) (simp_all add: locked_by_any_def)
    then show ?thesis by (simp add: release_jobs_locked_by_def update_where_def)
  qed
  show ?thesis
    by (simp add: sweep_dead_workers_def transaction_def Let_def case_prod_beta)
qed

lemma release_frame [simp]:
  "db_now (snd (release_jobs_locked_by ws d)) = db_now d"
  "db_heartbeats (snd (release_jobs_locked_by ws d)) = db_heartbeats d"
  "db_groups (snd (release_jobs_locked_by ws d)) = db_groups d"
  "db_waits (snd (release_jobs_locked_by ws d)) = db_waits d"
  "map jr_id (db_jobs (snd (release_jobs_locked_by ws d))) = map jr_id (db_jobs d)"
  by (simp_all add: release_jobs_locked_by_def map_update_where)

lemma release_jobs_set:
  "set (db_jobs (snd (release_jobs_locked_by ws d))) =
     (\<lambda>r. if locked_by_any ws (jr_locked_by r)
          then r\<lparr>jr_last_error := map_option release_error (jr_locked_by r),
                 jr_run_at := max (db_now d) (jr_run_at r) + graphile_backoff (jr_attempts r),
                 jr_locked_by := None, jr_locked_at := None\<rparr> else r) ` set (db_jobs d)"
  by (simp add: release_jobs_locked_by_def set_update_where)

text \<open>
  What may happen between two heartbeats of the worker \<open>w\<close>: sweeps by anyone, heartbeats of
  anyone, and everything that leaves the heartbeats alone, in time.
\<close>

inductive since_beat :: "string \<Rightarrow> int \<Rightarrow> db \<Rightarrow> db \<Rightarrow> bool" for w stale d0 where
  start: "since_beat w stale d0 d0"
| sweep: "since_beat w stale d0 d \<Longrightarrow> sweep_dead_workers busy stale sweeper d = (res, d') \<Longrightarrow>
    since_beat w stale d0 d'"
| beats: "since_beat w stale d0 d \<Longrightarrow> since_beat w stale d0 (snd (beat_row v d))"
| elsewhere: "since_beat w stale d0 d \<Longrightarrow> db_heartbeats d' = db_heartbeats d \<Longrightarrow>
    db_now d \<le> db_now d' \<Longrightarrow> since_beat w stale d0 d'"

lemma beat_row_now [simp]: "db_now (snd (beat_row v d)) = db_now d"
  by (simp add: beat_row_def)

lemma since_beat_time: "since_beat w stale d0 d \<Longrightarrow> db_now d0 \<le> db_now d"
  by (induction rule: since_beat.induct) (auto simp: sweep_dead_result Let_def)

lemma since_beat_seen:
  assumes "since_beat w stale d0 d" "list_all (\<lambda>hb. hb_worker hb = w \<longrightarrow> db_now d0 \<le> hb_last_seen hb) (db_heartbeats d0)"
  shows "list_all (\<lambda>hb. hb_worker hb = w \<longrightarrow> db_now d0 \<le> hb_last_seen hb) (db_heartbeats d)"
  using assms
proof (induction rule: since_beat.induct)
  case (sweep d busy sweeper res d')
  then show ?case
    by (auto simp: sweep_dead_result Let_def list_all_iff set_delete_where)
next
  case (beats d v)
  with since_beat_time [OF beats(1)] show ?case
    by (auto simp: beat_row_def list_all_iff set_update_where)
qed simp_all

lemma beat_row_seen:
  "list_all (\<lambda>hb. hb_worker hb = w \<longrightarrow> db_now d \<le> hb_last_seen hb) (db_heartbeats (snd (beat_row w d)))"
  by (auto simp: beat_row_def list_all_iff list_ex_iff set_update_where)

lemma swept_locks:
  assumes "sweep_dead_workers busy stale sweeper d = (Inr sw, d')"
  shows "sw_workers sw = map hb_worker (filter (dead_row busy stale sweeper d) (db_heartbeats d))"
    and "j \<in> set (db_jobs d) \<Longrightarrow> \<not> locked_by_any (sw_workers sw) (jr_locked_by j) \<Longrightarrow> j \<in> set (db_jobs d')"
    and "j \<in> set (db_jobs d') \<Longrightarrow> \<not> locked_by_any (sw_workers sw) (jr_locked_by j)"
    and "db_heartbeats d' = delete_where (dead_row busy stale sweeper d) (db_heartbeats d)"
  using assms
  by (auto simp: sweep_dead_result Let_def release_jobs_set image_iff locked_by_any_def
      split: option.splits if_splits)


text \<open>Two workers: \<open>w1\<close>, which holds a job, has just beaten; \<open>w2\<close> is stale.\<close>

definition sample_beats :: db where
  "sample_beats = sample_db\<lparr>db_now := 400000000,
     db_heartbeats := [\<lparr>hb_worker = ''w1'', hb_last_seen = 0\<rparr>, \<lparr>hb_worker = ''w2'', hb_last_seen = 0\<rparr>]\<rparr>"


section \<open>Children of dead workers\<close>

lemma maintenance_pass_jobs:
  assumes "mo_recovery opts = Some rc" "ft_dead ft = Runs" "ft_waits ft = Runs" "wait_inv d"
  shows "\<exists>sw d1. sweep_dead_workers (lk_heartbeat lk) (rc_stale_after rc) (mo_worker opts) d = (Inr sw, d1) \<and>
    wait_inv d1 \<and>
    db_jobs (snd (maintenance_pass opts lk ft d)) = db_jobs (swept_db (lk_wait lk) d1) \<and>
    db_waits (snd (maintenance_pass opts lk ft d)) = db_waits (swept_db (lk_wait lk) d1)"
proof -
  obtain sw d1 where sw: "sweep_dead_workers (lk_heartbeat lk) (rc_stale_after rc) (mo_worker opts) d = (Inr sw, d1)"
    by (metis sweep_dead_result)
  have "db_groups d1 = db_groups d" "db_waits d1 = db_waits d"
    using sw by (auto simp: sweep_dead_result Let_def)
  with assms(4) have inv: "wait_inv d1" using wait_inv_cong by blast
  have keep: "db_jobs (snd (attempt_step ev how (tx_modify (prune_job_outcomes b t)) n x)) = db_jobs x"
    "db_waits (snd (attempt_step ev how (tx_modify (prune_job_outcomes b t)) n x)) = db_waits x"
    "db_jobs (snd (attempt_step ev how (tx_modify (prune_idempotency_keys b')) n x)) = db_jobs x"
    "db_waits (snd (attempt_step ev how (tx_modify (prune_idempotency_keys b')) n x)) = db_waits x"
    for ev how b t n x b'
    by (auto simp: attempt_step_def tx_simps prune_job_outcomes_def prune_idempotency_keys_def split: fate.split)
  have waits: "snd (attempt_step ev Runs (sweep_waits (lk_wait lk)) n d1) = swept_db (lk_wait lk) d1" for ev n
    by (simp add: attempt_step_def sweep_waits_result [OF inv])
  have dead: "snd (attempt_step ev Runs (sweep_dead_workers (lk_heartbeat lk) (rc_stale_after rc) (mo_worker opts)) n d) = d1" for ev n
    by (simp add: attempt_step_def sw)
  show ?thesis
    using sw inv
    by (simp add: maintenance_pass_def assms(1-3) Let_def case_prod_beta keep waits dead split: option.split)
qed

lemma update_where_key:
  assumes "x \<in> set xs" "\<And>r. g (f r) = g r"
  shows "\<exists>y\<in>set (update_where p f xs). g y = g x"
  using assms by (auto simp: set_update_where)

lemma after_reports_keeps:
  assumes "j \<in> set (db_jobs d)" "\<And>r t. g (r\<lparr>jr_run_at := t\<rparr>) = g r"
  shows "\<exists>k\<in>set (db_jobs (after_reports f d)). g k = g j"
proof -
  let ?jobs = "db_jobs (after_reports f d)" and ?f = "\<lambda>j. j\<lparr>jr_run_at := min (jr_run_at j) (db_now d)\<rparr>"
  have "\<exists>p. ?jobs = update_where p ?f (db_jobs d)"
    by (simp add: after_reports_def, rule exI, rule HOL.refl)
  then obtain p where jobs: "?jobs = update_where p ?f (db_jobs d)" ..
  show ?thesis unfolding jobs by (rule update_where_key [OF assms(1)]) (rule assms(2))
qed

lemma wake_swallowed_keeps:
  assumes "j \<in> set (db_jobs d)" "\<And>r t. g (r\<lparr>jr_run_at := t\<rparr>) = g r"
  shows "\<exists>k\<in>set (db_jobs (wake_swallowed d)). g k = g j"
proof -
  let ?jobs = "db_jobs (wake_swallowed d)" and ?f = "\<lambda>r. r\<lparr>jr_run_at := db_now d\<rparr>"
  have "\<exists>p. ?jobs = update_where p ?f (db_jobs d)"
    by (simp add: wake_swallowed_def, rule exI, rule HOL.refl)
  then obtain p where jobs: "?jobs = update_where p ?f (db_jobs d)" ..
  show ?thesis unfolding jobs by (rule update_where_key [OF assms(1)]) (rule assms(2))
qed

lemma swept_parent_due:
  assumes "wait_inv d" "g \<in> set (db_groups (swept_db busy d))" "gr_remaining g = 0"
    and "j \<in> set (db_jobs (swept_db busy d))" "jr_id j = gr_parent g" "jr_locked_at j = None"
    and "jr_attempts j < jr_max_attempts j"
  shows "jr_run_at j \<le> db_now d"
proof -
  let ?d1 = "wake_swallowed (after_reports (\<lambda>w. if busy w then None else lost_report d (wr_child w)) d)"
  have "j \<in> set (db_jobs ?d1)" "g \<in> set (db_groups ?d1)"
    using assms(2,4) by (simp_all add: swept_db_def lost_db_def drop_orphan_groups_def delete_groups_def set_delete_where)
  with assms(3,5-7) show ?thesis
    by (auto simp: wake_swallowed_def set_update_where list_ex_iff split: if_splits)
qed

lemma swept_pending_gone:
  assumes "wr_result w = None" "\<not> busy w" "lost_report d (wr_child w) = Some rep" "pending_waits d (wait_key w) = [w]"
  shows "pending_waits (swept_db busy d) (wait_key w) = []"
proof -
  let ?f = "\<lambda>w. if busy w then None else lost_report d (wr_child w)"
  have False if x: "x \<in> set (db_waits (swept_db busy d))" "wait_key x = wait_key w" "wr_result x = None" for x
  proof -
    have "x \<in> set (db_waits (wake_swallowed (after_reports ?f d)))"
      using x(1) by (simp add: swept_db_def lost_db_def drop_orphan_groups_def delete_groups_def set_delete_where)
    then have x1: "x \<in> set (db_waits d)" "\<not> reports_row ?f x"
      using x(3) by (auto simp: wake_swallowed_def after_reports_def set_update_where reports_row_def split: if_splits)
    then have "x \<in> set (pending_waits d (wait_key w))" using x(2,3) by (simp add: pending_waits_def)
    then have "x = w" using assms(4) by simp
    with x1(2) assms(1-3) show False by (simp add: reports_row_def)
  qed
  then show ?thesis unfolding pending_waits_def filter_empty_conv by blast
qed

lemma swept_db_facts:
  assumes "wait_inv d" "w \<in> set (db_waits d)" "wr_result w = None" "\<not> busy w"
    and "lost_report d (wr_child w) = Some rep" "pending_waits d (wait_key w) = [w]"
    and "j \<in> set (db_jobs d)" "jr_id j = wr_parent w" "jr_locked_at j = None" "jr_attempts j < jr_max_attempts j"
  shows "\<exists>j'\<in>set (db_jobs (swept_db busy d)). jr_id j' = jr_id j \<and> jr_locked_at j' = None \<and> jr_run_at j' \<le> db_now d"
    and "w\<lparr>wr_result := Some rep, wr_finished_at := Some (db_now d)\<rparr> \<in> set (db_waits (swept_db busy d))"
proof -
  let ?f = "\<lambda>w. if busy w then None else lost_report d (wr_child w)"
  let ?d1 = "wake_swallowed (after_reports ?f d)"
  let ?d2 = "swept_db busy d"
  let ?w = "w\<lparr>wr_result := Some rep, wr_finished_at := Some (db_now d)\<rparr>"
  have d2: "?d2 = delete_groups (\<lambda>g. \<not> list_ex (\<lambda>r. jr_id r = gr_parent g) (db_jobs ?d1)) ?d1"
    by (simp add: swept_db_def lost_db_def drop_orphan_groups_def)
  have jobs: "db_jobs ?d2 = db_jobs ?d1" by (simp add: d2 delete_groups_def)
  let ?g = "\<lambda>r. (jr_id r, jr_locked_at r, jr_attempts r, jr_max_attempts r)"
  have "\<exists>k\<in>set (db_jobs (after_reports ?f d)). ?g k = ?g j"
    by (rule after_reports_keeps [OF assms(7)]) simp
  then obtain k where k: "k \<in> set (db_jobs (after_reports ?f d))" "?g k = ?g j" ..
  have "\<exists>j'\<in>set (db_jobs ?d1). ?g j' = ?g k"
    by (rule wake_swallowed_keeps [OF k(1)]) simp
  with k(2) assms(9,10) obtain j' where j': "j' \<in> set (db_jobs ?d1)" "jr_id j' = jr_id j" "jr_locked_at j' = None"
      "jr_attempts j' < jr_max_attempts j'"
    by auto
  have row: "?w \<in> set (db_waits ?d1)"
    using assms(2-5) by (force simp: wake_swallowed_def after_reports_def set_update_where reports_row_def)
  show w2: "?w \<in> set (db_waits ?d2)"
    using row j' assms(8) by (auto simp: d2 delete_groups_def set_delete_where list_ex_iff)
  have inv: "wait_inv ?d2" by (rule swept_db_inv [OF assms(1)])
  have "wait_key ?w \<in> group_key ` set (db_groups ?d2)"
    using inv w2 unfolding wait_inv_def by blast
  then obtain g where g: "wait_key ?w = group_key g" "g \<in> set (db_groups ?d2)" by (rule imageE)
  have "pending_waits ?d2 (group_key g) = []"
    using swept_pending_gone [of w busy d, OF assms(3-6)] g(1) by simp
  then have "gr_remaining g = 0" using inv g(2) by (simp add: wait_inv_def)
  moreover have "jr_id j' = gr_parent g" using g(1) j'(2) assms(8) by simp
  ultimately have "jr_run_at j' \<le> db_now d"
    using swept_parent_due [OF assms(1) g(2)] j'(1,3,4) by (auto simp: jobs)
  with j' jobs show "\<exists>j'\<in>set (db_jobs ?d2). jr_id j' = jr_id j \<and> jr_locked_at j' = None \<and> jr_run_at j' \<le> db_now d"
    by auto
qed

text \<open>
  C5 A crashed child does not strand its parent: when a worker died with a child on its last
  attempt, a single maintenance pass of any other worker releases the job, reports the child as
  lost with the crash as its error, and makes the parent due, if that was its last child.
\<close>

theorem crashed_child_wakes_parent:
  assumes "wait_inv d" and "jobs_inv d"
    and "mo_recovery opts = Some rc" and "ft_dead ft = Runs" and "ft_waits ft = Runs"
    and "hb \<in> set (db_heartbeats d)"
    and "dead_row (lk_heartbeat lk) (rc_stale_after rc) (mo_worker opts) d hb"
    and "r \<in> set (db_jobs d)" and "jr_locked_by r = Some (hb_worker hb)" and "jr_max_attempts r \<le> jr_attempts r"
    and "pending_waits d (wait_key w) = [w]" and "wr_child w = jr_id r" and "\<not> lk_wait lk w"
    and "j \<in> set (db_jobs d)" and "jr_id j = wr_parent w" and "jr_locked_by j = None"
    and "jr_locked_at j = None" and "jr_attempts j < jr_max_attempts j"
  defines "d' \<equiv> snd (maintenance_pass opts lk ft d)"
  shows "(\<exists>j'\<in>set (db_jobs d'). jr_id j' = jr_id j \<and> jr_locked_at j' = None \<and> jr_run_at j' \<le> db_now d) \<and>
    w\<lparr>wr_result := Some (ReportFailed ''ChildJobLostError'' (release_error (hb_worker hb))),
      wr_finished_at := Some (db_now d)\<rparr> \<in> set (db_waits d')"
proof -
  obtain sw d1 where sw: "sweep_dead_workers (lk_heartbeat lk) (rc_stale_after rc) (mo_worker opts) d = (Inr sw, d1)"
    and inv: "wait_inv d1" and d': "db_jobs d' = db_jobs (swept_db (lk_wait lk) d1)"
      "db_waits d' = db_waits (swept_db (lk_wait lk) d1)"
    using maintenance_pass_jobs [OF assms(3-5,1), of lk] unfolding d'_def by blast
  let ?ws = "sw_workers sw"
  have d1: "db_waits d1 = db_waits d" "db_now d1 = db_now d" "map jr_id (db_jobs d1) = map jr_id (db_jobs d)"
    using sw by (auto simp: sweep_dead_result Let_def)
  have jobs: "set (db_jobs d1) = set (db_jobs (snd (release_jobs_locked_by ?ws d)))"
    using sw by (auto simp: sweep_dead_result Let_def release_jobs_set)
  have dead: "hb_worker hb \<in> set ?ws" using swept_locks(1) [OF sw] assms(6,7) by simp
  let ?r = "r\<lparr>jr_last_error := Some (release_error (hb_worker hb)),
    jr_run_at := max (db_now d) (jr_run_at r) + graphile_backoff (jr_attempts r),
    jr_locked_by := None, jr_locked_at := None\<rparr>"
  have "?r \<in> set (db_jobs d1)"
    unfolding jobs release_jobs_set using assms(8,9) dead by (force simp: locked_by_any_def)
  moreover have "distinct (map jr_id (db_jobs d1))" using assms(2) d1(3) by (simp add: jobs_inv_def)
  ultimately have "find_row (\<lambda>x. jr_id x = jr_id r) (db_jobs d1) = Some ?r"
    by (intro find_row_key [of jr_id]) auto
  then have lost: "lost_report d1 (wr_child w) =
      Some (ReportFailed ''ChildJobLostError'' (release_error (hb_worker hb)))"
    using assms(10,12) by (simp add: lost_report_def)
  have j: "j \<in> set (db_jobs d1)"
    using swept_locks(2) [OF sw assms(14)] assms(16) by (simp add: locked_by_any_def)
  have "w \<in> set (pending_waits d (wait_key w))" using assms(11) by simp
  then have w: "w \<in> set (db_waits d1)" "wr_result w = None" by (auto simp: pending_waits_def d1)
  have "pending_waits d1 (wait_key w) = [w]" using assms(11) by (simp add: pending_waits_def d1)
  note facts = swept_db_facts [where busy = "lk_wait lk", OF inv w assms(13) lost this j assms(15,17,18)]
  show ?thesis using facts unfolding d' d1(2) by blast
qed

text \<open>Job 7 waits for job 21, which the dead worker \<open>w1\<close> held on its last attempt.\<close>

definition sample_crash :: db where
  "sample_crash = sample_last_child\<lparr>db_now := 400000000,
     db_jobs := map (\<lambda>j. if jr_id j = 21 then j\<lparr>jr_attempts := 3\<rparr> else j\<lparr>jr_run_at := 900000000\<rparr>)
       (db_jobs sample_last_child),
     db_heartbeats := [\<lparr>hb_worker = ''w1'', hb_last_seen = 0\<rparr>]\<rparr>"

definition sample_maintenance :: maintenance_options where
  "sample_maintenance = \<lparr>mo_recovery = Some \<lparr>rc_interval = 30000, rc_stale_after = 300000\<rparr>,
     mo_retention = None, mo_worker = Some ''w2''\<rparr>"

definition no_locks :: locks where
  "no_locks = \<lparr>lk_heartbeat = \<lambda>_. False, lk_wait = \<lambda>_. False, lk_outcome = \<lambda>_. False, lk_idem = \<lambda>_. False\<rparr>"

definition all_run :: fates where
  "all_run = \<lparr>ft_dead = Runs, ft_waits = Runs, ft_outcomes = Runs, ft_idem = Runs\<rparr>"

theorem crashed_child_wakes_parent_witness:
  "\<exists>j'\<in>set (db_jobs (snd (maintenance_pass sample_maintenance no_locks all_run sample_crash))).
     jr_id j' = 7 \<and> jr_locked_at j' = None \<and> jr_run_at j' \<le> 400000000"
proof -
  let ?d = sample_crash let ?w = "hd (db_waits ?d)" let ?r = "db_jobs ?d ! 1" let ?j = "hd (db_jobs ?d)"
  have inv: "wait_inv ?d" "jobs_inv ?d" by (code_simp+)
  have opts: "mo_recovery sample_maintenance = Some \<lparr>rc_interval = 30000, rc_stale_after = 300000\<rparr>"
    "ft_dead all_run = Runs" "ft_waits all_run = Runs"
    by (simp_all add: sample_maintenance_def all_run_def)
  have hb: "hd (db_heartbeats ?d) \<in> set (db_heartbeats ?d)"
    "dead_row (lk_heartbeat no_locks) (rc_stale_after \<lparr>rc_interval = 30000, rc_stale_after = 300000\<rparr>)
       (mo_worker sample_maintenance) ?d (hd (db_heartbeats ?d))"
    by (code_simp+)
  have child: "?r \<in> set (db_jobs ?d)" "jr_locked_by ?r = Some (hb_worker (hd (db_heartbeats ?d)))"
    "jr_max_attempts ?r \<le> jr_attempts ?r"
    by (code_simp+)
  have wait: "pending_waits ?d (wait_key ?w) = [?w]" "wr_child ?w = jr_id ?r" "\<not> lk_wait no_locks ?w"
    by (code_simp+)
  have parent: "?j \<in> set (db_jobs ?d)" "jr_id ?j = wr_parent ?w" "jr_locked_by ?j = None"
    "jr_locked_at ?j = None" "jr_attempts ?j < jr_max_attempts ?j"
    by (code_simp+)
  have "jr_id ?j = 7" "db_now ?d = 400000000" by (code_simp+)
  then show ?thesis
    using crashed_child_wakes_parent [OF inv opts hb child wait parent] by simp
qed

end
