(* ===== verification/History.thy ===== *)
theory History
  imports Validation "HOL-Library.Multiset" "HOL-Library.AList"
begin

text \<open>
  The bounded history of finished attempts, \<^verbatim>\<open>src/src/completed-jobs-store.ts\<close>:
  a map from queue names to lists of jobs, newest first. It refines the log of all jobs added.
  The map keeps insertion order, as an association list. The completion time of an entry is
  its instant, which the code reads back from the ISO text.
\<close>

section \<open>The store\<close>

datatype completed_status = JobCompleted | JobFailed

record 'p completed_job =
  cj_id :: string
  cj_queue :: string
  cj_payload :: 'p
  cj_status :: completed_status
  cj_attempts :: int
  cj_max_attempts :: int
  cj_created_at :: int
  cj_completed_at :: int
  cj_duration :: int
  cj_error :: "string option"

type_synonym 'p history = "(string \<times> 'p completed_job list) list"

definition default_max_jobs_per_queue :: int where
  "default_max_jobs_per_queue = 50"

text \<open>The store that keeps nothing, or one with its bound.\<close>

datatype 'p completed_store = NoopStore | Store nat "'p history"

definition create_store :: "jsnum option \<Rightarrow> 'p completed_store res" where
  "create_store max_jobs =
     bind_res (assert_integer (nullish_else max_jobs (int_num default_max_jobs_per_queue))
       ''maxPerQueue'' 1 max_safe_integer) (\<lambda>m. Inr (Store (nat m) []))"

datatype completed_jobs_option = HistoryOff | HistoryOn "jsnum option"

definition resolve_completed_jobs_store :: "completed_jobs_option \<Rightarrow> 'p completed_store res" where
  "resolve_completed_jobs_store opt =
     (case opt of HistoryOff \<Rightarrow> Inr NoopStore | HistoryOn m \<Rightarrow> create_store m)"

fun store_add :: "'p completed_job \<Rightarrow> 'p completed_store \<Rightarrow> 'p completed_store" where
  "store_add job NoopStore = NoopStore"
| "store_add job (Store m h) =
     (let jobs = job # nullish_else (map_of h (cj_queue job)) [] in
      Store m (AList.update (cj_queue job) (if length jobs > m then butlast jobs else jobs) h))"

fun store_get_all :: "'p completed_store \<Rightarrow> 'p completed_job list" where
  "store_get_all NoopStore = []"
| "store_get_all (Store m h) = sort_key (\<lambda>j. - cj_completed_at j) (concat (map snd h))"

fun store_get_stats :: "'p completed_store \<Rightarrow> (string \<times> nat \<times> nat) list" where
  "store_get_stats NoopStore = []"
| "store_get_stats (Store m h) =
     map (\<lambda>(q, jobs). (q, length (filter (\<lambda>j. cj_status j = JobCompleted) jobs),
        length (filter (\<lambda>j. cj_status j = JobFailed) jobs))) h"

section \<open>The abstract history\<close>

text \<open>
  What a bounded history promises of its operations; \<open>entries\<close> are the jobs of a queue,
  newest first.
\<close>

locale bounded_history =
  fixes bound :: nat
    and empty :: 's
    and add :: "'p completed_job \<Rightarrow> 's \<Rightarrow> 's"
    and entries :: "'s \<Rightarrow> string \<Rightarrow> 'p completed_job list"
    and invar :: "'s \<Rightarrow> bool"
  assumes invar_empty: "invar empty"
    and invar_add: "invar s \<Longrightarrow> invar (add j s)"
    and entries_empty: "entries empty q = []"
    and entries_add: "invar s \<Longrightarrow> entries (add j s) q =
      (if q = cj_queue j then take bound (j # entries s q) else entries s q)"
begin

text \<open>The store after a log of jobs, the oldest first.\<close>

definition after :: "'p completed_job list \<Rightarrow> 's" where
  "after jobs = fold add jobs empty"

lemma invar_fold: "invar s \<Longrightarrow> invar (fold add jobs s)"
  by (induction jobs arbitrary: s) (simp_all add: invar_add)

lemma invar_after: "invar (after jobs)"
  by (simp add: after_def invar_fold invar_empty)

lemma entries_after:
  "entries (after jobs) q = take bound (rev (filter (\<lambda>j. cj_queue j = q) jobs))"
proof (induction jobs rule: rev_induct)
  case Nil
  then show ?case by (simp add: after_def entries_empty)
next
  case (snoc j jobs)
  have "after (jobs @ [j]) = add j (after jobs)" by (simp add: after_def)
  with snoc show ?case
    by (cases bound) (auto simp: entries_add invar_after min_def)
qed

end

fun entries :: "'p completed_store \<Rightarrow> string \<Rightarrow> 'p completed_job list" where
  "entries NoopStore q = []"
| "entries (Store m h) q = nullish_else (map_of h q) []"

text \<open>Every list belongs to one queue, is not empty and keeps the bound.\<close>

fun store_inv :: "nat \<Rightarrow> 'p completed_store \<Rightarrow> bool" where
  "store_inv m NoopStore \<longleftrightarrow> False"
| "store_inv m (Store m' h) \<longleftrightarrow> m' = m \<and> 0 < m \<and> distinct (map fst h) \<and>
     list_all (\<lambda>(q, jobs). jobs \<noteq> [] \<and> length jobs \<le> m \<and> list_all (\<lambda>j. cj_queue j = q) jobs) h"

lemma map_of_bounded:
  "store_inv m (Store m h) \<Longrightarrow> length (nullish_else (map_of h q) []) \<le> m"
  by (auto simp: nullish_else_def list_all_iff split: option.split dest!: map_of_SomeD)

lemma trimmed_take:
  "length js \<le> m \<Longrightarrow> (if length (j # js) > m then butlast (j # js) else j # js) = take m (j # js)"
  by (cases "length js = m") (simp_all add: butlast_conv_take)

abbreviation entry_ok :: "nat \<Rightarrow> string \<times> 'p completed_job list \<Rightarrow> bool" where
  "entry_ok m e \<equiv> snd e \<noteq> [] \<and> length (snd e) \<le> m \<and> list_all (\<lambda>j. cj_queue j = fst e) (snd e)"

lemma store_inv_alt:
  "store_inv m (Store m' h) \<longleftrightarrow> m' = m \<and> 0 < m \<and> distinct (map fst h) \<and> (\<forall>e\<in>set h. entry_ok m e)"
  by (simp add: list_all_iff case_prod_beta)

lemma set_update_subset: "set (AList.update q v h) \<subseteq> insert (q, v) (set h)"
  by (induction h) auto

lemma store_inv_add:
  assumes "store_inv m s"
  shows "store_inv m (store_add j s)"
proof (cases s)
  case (Store m' h)
  let ?js = "nullish_else (map_of h (cj_queue j)) []"
  note inv = assms [unfolded Store store_inv_alt]
  have "m' = m" using inv by blast
  then have len: "length ?js \<le> m" using map_of_bounded [of m h] assms Store by simp
  have same: "list_all (\<lambda>x. cj_queue x = cj_queue j) ?js"
  proof (cases "map_of h (cj_queue j)")
    case (Some js)
    then have "(cj_queue j, js) \<in> set h" by (rule map_of_SomeD)
    with inv Some show ?thesis by fastforce
  qed simp
  have pos: "0 < m" using inv by blast
  have "list_all (\<lambda>x. cj_queue x = cj_queue j) (take m (j # ?js))"
    unfolding list_all_iff
  proof
    fix x assume "x \<in> set (take m (j # ?js))"
    then have "x = j \<or> x \<in> set ?js" by (metis in_set_takeD set_ConsD)
    with same show "cj_queue x = cj_queue j" unfolding list_all_iff by blast
  qed
  then have new: "entry_ok m (cj_queue j, take m (j # ?js))"
    using pos by simp
  have "\<forall>e\<in>set (AList.update (cj_queue j) (take m (j # ?js)) h). entry_ok m e"
  proof
    fix e assume "e \<in> set (AList.update (cj_queue j) (take m (j # ?js)) h)"
    from subsetD [OF set_update_subset this]
    show "entry_ok m e" by (rule insertE) (use new inv in \<open>simp only:\<close>)+
  qed
  moreover have "distinct (map fst (AList.update (cj_queue j) (take m (j # ?js)) h))"
    by (rule distinct_update) (use inv in blast)
  moreover have "store_add j s = Store m (AList.update (cj_queue j) (take m (j # ?js)) h)"
    by (simp only: Store store_add.simps Let_def trimmed_take [OF len] \<open>m' = m\<close>)
  ultimately show ?thesis
    by (simp only: store_inv_alt pos simp_thms)
qed (use assms in simp)

text \<open>A bound is at least one.\<close>

interpretation history: bounded_history "Suc m" "Store (Suc m) []" store_add entries "store_inv (Suc m)" for m
proof
  show "store_inv (Suc m) (Store (Suc m) [])" by simp
  show "store_inv (Suc m) (store_add j s)" if "store_inv (Suc m) s" for j :: "'a completed_job" and s
    using that by (rule store_inv_add)
  show "entries (Store (Suc m) []) q = []" for q by simp
  show "entries (store_add j s) q = (if q = cj_queue j then take (Suc m) (j # entries s q) else entries s q)"
    if inv: "store_inv (Suc m) s" for j :: "'a completed_job" and s q
  proof (cases s)
    case (Store m' h)
    with inv have "length (nullish_else (map_of h (cj_queue j)) []) \<le> Suc m" using map_of_bounded by auto
    from trimmed_take [OF this, of j] Store inv show ?thesis
      by (simp add: update_conv' Let_def)
  qed (use inv in simp)
qed

text \<open>\<open>maxPerQueue\<close> is at least one.\<close>

lemma create_store_bound:
  "create_store o' = Inr s \<Longrightarrow> \<exists>m. s = Store (Suc m) []"
proof -
  assume "create_store o' = Inr s"
  then obtain i where "1 \<le> i" "s = Store (nat i) []"
    by (auto simp: create_store_def res_simps assert_integer_Inr)
  then have "s = Store (Suc (nat (i - 1))) []" by (simp add: Suc_nat_eq_nat_zadd1)
  then show ?thesis ..
qed

lemma entries_of_concat:
  assumes "distinct (map fst h)" "\<forall>e\<in>set h. entry_ok m e"
  shows "filter (\<lambda>j. cj_queue j = q) (concat (map snd h)) = nullish_else (map_of h q) []"
  using assms
proof (induction h)
  case (Cons e h)
  have all: "\<forall>j\<in>set (snd e). cj_queue j = fst e" using Cons.prems(2) by (simp add: list_all_iff)
  show ?case
  proof (cases "fst e = q")
    case True
    then have "map_of h q = None" using Cons.prems(1) by (auto simp: map_of_eq_None_iff)
    then have "filter (\<lambda>j. cj_queue j = q) (concat (map snd h)) = []" using Cons by simp
    moreover have "filter (\<lambda>j. cj_queue j = q) (snd e) = snd e" using all True by simp
    ultimately show ?thesis using True by (cases e) simp
  next
    case False
    then have "filter (\<lambda>j. cj_queue j = q) (snd e) = []" using all by (simp add: filter_empty_conv)
    with False Cons show ?thesis by (cases e) simp
  qed
qed simp

text \<open>
  C39 The history shows the newest jobs: after any log of additions, each queue holds exactly its newest
  jobs up to the bound, newest first; the list of all jobs holds those of every queue, in order
  of completion, newest first; and the statistics count them by status, for the queues that had
  a job.
\<close>

theorem history_keeps_newest:
  fixes jobs :: "'p completed_job list" and m :: nat
  defines "s \<equiv> fold store_add jobs (Store (Suc m) [])"
    and "newest \<equiv> \<lambda>q. take (Suc m) (rev (filter (\<lambda>j. cj_queue j = q) jobs))"
  shows "entries s q = newest q \<and>
    mset (filter (\<lambda>j. cj_queue j = q) (store_get_all s)) = mset (newest q) \<and>
    sorted_wrt (\<lambda>a b. cj_completed_at b \<le> cj_completed_at a) (store_get_all s) \<and>
    map_of (store_get_stats s) q =
      (if newest q = [] then None
       else Some (length (filter (\<lambda>j. cj_status j = JobCompleted) (newest q)),
                  length (filter (\<lambda>j. cj_status j = JobFailed) (newest q))))"
proof -
  have e: "entries s q = newest q"
    using history.entries_after [of m jobs q] by (simp add: s_def newest_def history.after_def)
  have inv: "store_inv (Suc m) s"
    using history.invar_after [of m jobs] by (simp add: s_def history.after_def)
  then obtain h where s: "s = Store (Suc m) h" by (cases s) auto
  note ok = inv [unfolded s store_inv_alt]
  have map: "nullish_else (map_of h q) [] = newest q" using e s by simp
  have "mset (filter (\<lambda>j. cj_queue j = q) (store_get_all s)) = mset (newest q)"
    using entries_of_concat [of h "Suc m" q] ok by (simp add: s map mset_filter [symmetric])
  moreover have "sorted_wrt (\<lambda>a b. cj_completed_at b \<le> cj_completed_at a) (store_get_all s)"
  proof -
    have "sorted (map (\<lambda>j. - cj_completed_at j) (store_get_all s))" by (simp add: s)
    then show ?thesis by (simp add: sorted_map)
  qed
  moreover have "map_of (store_get_stats s) q = (if newest q = [] then None
       else Some (length (filter (\<lambda>j. cj_status j = JobCompleted) (newest q)),
                  length (filter (\<lambda>j. cj_status j = JobFailed) (newest q))))"
  proof (cases "map_of h q")
    case None
    with map show ?thesis by (simp add: s map_of_map)
  next
    case (Some js)
    then have "entry_ok (Suc m) (q, js)" using ok map_of_SomeD by fast
    with map Some show ?thesis by (simp add: s map_of_map)
  qed
  ultimately show ?thesis using e by blast
qed

end
