(* ===== verification/JobOptions.thy ===== *)
theory JobOptions
  imports Idempotency
begin

text \<open>
  The options of a job: \<open>deriveOptions\<close> and \<open>resolveEnqueueSpec\<close> of
  \<^verbatim>\<open>src/src/create-job.ts\<close> (with \<^verbatim>\<open>src/src/job-options.ts\<close> and
  \<open>DerivedJobOptions\<close> of \<^verbatim>\<open>src/src/queue.ts\<close>): explicit call options over derived ones
  over the queue's defaults, with their checks.
\<close>

section \<open>Options\<close>

text \<open>
  Numbers and durations arrive as values of any shape, since a derive function is the caller's
  code; the other fields are checked to be of their type before they get here.
\<close>

record job_options =
  jo_priority :: "jsval option"
  jo_run_at :: "date_arg option"
  jo_queue_name :: "string option"
  jo_max_attempts :: "jsval option"
  jo_job_key :: "string option"
  jo_mode :: "job_key_mode option"
  jo_flags :: "string list option"
  jo_validate :: "bool option"
  jo_idem_key :: "string option"
  jo_idem_ttl :: "jsval option"

definition no_options :: job_options where
  "no_options = \<lparr>jo_priority = None, jo_run_at = None, jo_queue_name = None, jo_max_attempts = None,
     jo_job_key = None, jo_mode = None, jo_flags = None, jo_validate = None, jo_idem_key = None,
     jo_idem_ttl = None\<rparr>"

record enqueue_spec =
  es_max_attempts :: int
  es_priority :: "int option"
  es_flags :: "string list option"
  es_queue_name :: "string option"
  es_run_at :: "date_arg option"
  es_job_key :: "string option"
  es_mode :: "job_key_mode option"
  es_idem_key :: "string option"
  es_idem_ttl :: "int option"

definition default_idempotency_ttl :: int where
  "default_idempotency_ttl = 30 * 86400000"

definition default_graphile_job_max_attempts :: int where
  "default_graphile_job_max_attempts = 4"

section \<open>Derived options\<close>

text \<open>A field of a plain object: absent and undefined are the same.\<close>

definition field :: "string \<Rightarrow> (string \<times> jsval) list \<Rightarrow> jsval option" where
  "field k kvs = (case map_of kvs k of Some Undefined \<Rightarrow> None | v \<Rightarrow> v)"

definition derive_error :: "string \<Rightarrow> string \<Rightarrow> js_error" where
  "derive_error name msg = PlainTypeError (''deriveJobOptions for '' @ quoted name @ msg)"

fun name_field :: "string \<Rightarrow> string \<Rightarrow> jsval option \<Rightarrow> string option res" where
  "name_field name key None = Inr None"
| "name_field name key (Some (Text s)) =
     (if s = [] then Inl (derive_error name ('' returned an empty or non-string '' @ key)) else Inr (Some s))"
| "name_field name key (Some _) = Inl (derive_error name ('' returned an empty or non-string '' @ key))"

fun mode_of_text :: "string \<Rightarrow> job_key_mode option" where
  "mode_of_text s = (if s = ''replace'' then Some Replace
     else if s = ''preserve_run_at'' then Some PreserveRunAt
     else if s = ''unsafe_dedupe'' then Some UnsafeDedupe else None)"

fun mode_field :: "string \<Rightarrow> jsval option \<Rightarrow> job_key_mode option res" where
  "mode_field name None = Inr None"
| "mode_field name (Some (Text s)) =
     (case mode_of_text s of
        Some m \<Rightarrow> Inr (Some m) | None \<Rightarrow> Inl (derive_error name '' returned an invalid jobKeyMode''))"
| "mode_field name (Some _) = Inl (derive_error name '' returned an invalid jobKeyMode'')"

fun text_of :: "jsval \<Rightarrow> string option" where
  "text_of (Text s) = Some s"
| "text_of _ = None"

fun flags_field :: "string \<Rightarrow> jsval option \<Rightarrow> string list option res" where
  "flags_field name None = Inr None"
| "flags_field name (Some (Array vs)) =
     (if list_all (\<lambda>v. text_of v \<noteq> None) vs then Inr (Some (map (the \<circ> text_of) vs))
      else Inl (derive_error name '' returned invalid flags''))"
| "flags_field name (Some _) = Inl (derive_error name '' returned invalid flags'')"

definition derive_options :: "'h queue \<Rightarrow> json option \<Rightarrow> job_options option res" where
  "derive_options q input =
     (case q_derive q of
        None \<Rightarrow> Inr None
      | Some f \<Rightarrow> bind_res (f (value_of input)) (\<lambda>derived.
          case derived of
            Undefined \<Rightarrow> Inr None
          | PlainObject kvs \<Rightarrow>
              bind_res (name_field (q_name q) ''queueName'' (field ''queueName'' kvs)) (\<lambda>lane.
              bind_res (name_field (q_name q) ''jobKey'' (field ''jobKey'' kvs)) (\<lambda>key.
              bind_res (name_field (q_name q) ''idempotencyKey'' (field ''idempotencyKey'' kvs)) (\<lambda>idem.
              bind_res (mode_field (q_name q) (field ''jobKeyMode'' kvs)) (\<lambda>mode.
              bind_res (flags_field (q_name q) (field ''flags'' kvs)) (\<lambda>flags.
              Inr (Some (no_options\<lparr>jo_queue_name := lane, jo_job_key := key, jo_mode := mode,
                jo_priority := field ''priority'' kvs, jo_flags := flags, jo_idem_key := idem,
                jo_idem_ttl := field ''idempotencyTtl'' kvs\<rparr>)))))))
          | _ \<Rightarrow> Inl (derive_error (q_name q) '' must return a plain object synchronously'')))"

section \<open>Resolution\<close>

text \<open>\<open>{ ...derived, ...compact(explicit) }\<close>: field by field, the explicit one if it is defined.\<close>

definition merge_options :: "job_options \<Rightarrow> job_options \<Rightarrow> job_options" where
  "merge_options explicit derived = \<lparr>
     jo_priority = nullish (jo_priority explicit) (jo_priority derived),
     jo_run_at = nullish (jo_run_at explicit) (jo_run_at derived),
     jo_queue_name = nullish (jo_queue_name explicit) (jo_queue_name derived),
     jo_max_attempts = nullish (jo_max_attempts explicit) (jo_max_attempts derived),
     jo_job_key = nullish (jo_job_key explicit) (jo_job_key derived),
     jo_mode = nullish (jo_mode explicit) (jo_mode derived),
     jo_flags = nullish (jo_flags explicit) (jo_flags derived),
     jo_validate = nullish (jo_validate explicit) (jo_validate derived),
     jo_idem_key = nullish (jo_idem_key explicit) (jo_idem_key derived),
     jo_idem_ttl = nullish (jo_idem_ttl explicit) (jo_idem_ttl derived)\<rparr>"

text \<open>The options a call resolves with, and the cron defaults, which only a cron task has.\<close>

definition effective :: "job_options option \<Rightarrow> job_options option \<Rightarrow> job_options" where
  "effective explicit derived =
     (case derived of None \<Rightarrow> nullish_else explicit no_options
      | Some d \<Rightarrow> merge_options (nullish_else explicit no_options) d)"

definition cron_defaults :: "bool \<Rightarrow> 'h queue \<Rightarrow> cron_options option" where
  "cron_defaults cron q = (if cron then q_cron_options q else None)"

text \<open>\<open>??\<close> also skips null; anything that is no number fails the integer check as NaN does.\<close>

definition defined :: "jsval option \<Rightarrow> jsnum option" where
  "defined v = (case v of None \<Rightarrow> None | Some Null \<Rightarrow> None | Some Undefined \<Rightarrow> None
     | Some (Number n) \<Rightarrow> Some n | Some _ \<Rightarrow> Some NaN)"

definition check_run_at :: "(string \<Rightarrow> int option) \<Rightarrow> date_arg option \<Rightarrow> unit res" where
  "check_run_at parse_date run_at =
     (case run_at of
        None \<Rightarrow> Inr ()
      | Some (DateText []) \<Rightarrow> Inr ()
      | Some t \<Rightarrow> guard_res (to_date parse_date t \<noteq> None) (PlainRangeError ''runAt must be a valid timestamp''))"

definition resolve_enqueue_spec ::
  "(string \<Rightarrow> int option) \<Rightarrow> 'h queue \<Rightarrow> job_options option \<Rightarrow> jsnum \<Rightarrow> bool \<Rightarrow> job_options option \<Rightarrow>
   enqueue_spec res" where
  "resolve_enqueue_spec parse_date q explicit default_max cron derived =
     (let opts = effective explicit derived;
          cron_opts = cron_defaults cron q;
          max_attempts = nullish_else (nullish (defined (jo_max_attempts opts))
            (nullish (Option.bind cron_opts co_max_attempts) (q_max_attempts q))) default_max;
          priority = nullish (defined (jo_priority opts))
            (nullish (Option.bind cron_opts co_priority) (q_priority q))
      in bind_res (assert_integer max_attempts ''maxAttempts'' 1 32767) (\<lambda>m.
         bind_res (case priority of
             None \<Rightarrow> Inr None
           | Some p \<Rightarrow> map_sum id Some (assert_integer p ''priority'' (-32768) 32767)) (\<lambda>p.
         bind_res (check_run_at parse_date (jo_run_at opts)) (\<lambda>_.
         bind_res (guard_res (jo_idem_key opts \<noteq> Some [])
             (PlainTypeError ''idempotencyKey must be a non-empty string'')) (\<lambda>_.
         bind_res (case jo_idem_ttl opts of
             None \<Rightarrow> Inr default_idempotency_ttl
           | Some v \<Rightarrow> parse_duration v ''idempotencyTtl'') (\<lambda>ttl.
         Inr \<lparr>es_max_attempts = m, es_priority = p,
           es_flags = nullish (jo_flags opts) (q_flags q),
           es_queue_name = nullish (jo_queue_name opts)
             (nullish (Option.bind cron_opts co_queue_name) (resolve_serial_queue_name (q_serial q) (q_name q))),
           es_run_at = jo_run_at opts,
           es_job_key = nullish (jo_job_key opts) (Option.bind cron_opts co_job_key),
           es_mode = nullish (jo_mode opts) (Option.bind cron_opts co_job_key_mode),
           es_idem_key = jo_idem_key opts,
           es_idem_ttl = (if jo_idem_key opts = None then None else Some ttl)\<rparr>))))))"

section \<open>What resolution guarantees\<close>

lemma map_sum_Inr: "map_sum id f m = Inr y \<longleftrightarrow> (\<exists>x. m = Inr x \<and> y = f x)"
  by (cases m) auto

lemma resolve_Inr:
  assumes "resolve_enqueue_spec pd q explicit dm cron derived = Inr s"
  defines "opts \<equiv> effective explicit derived" and "copts \<equiv> cron_defaults cron q"
  shows "1 \<le> es_max_attempts s \<and> es_max_attempts s \<le> 32767"
    "case es_priority s of None \<Rightarrow> True | Some p \<Rightarrow> - 32768 \<le> p \<and> p \<le> 32767"
    "safe_integer (nullish_else (nullish (defined (jo_max_attempts opts))
        (nullish (Option.bind copts co_max_attempts) (q_max_attempts q))) dm) = Some (es_max_attempts s)"
    "es_priority s = Option.bind (nullish (defined (jo_priority opts))
        (nullish (Option.bind copts co_priority) (q_priority q))) safe_integer"
    "es_flags s = nullish (jo_flags opts) (q_flags q)"
    "es_queue_name s = nullish (jo_queue_name opts)
        (nullish (Option.bind copts co_queue_name) (resolve_serial_queue_name (q_serial q) (q_name q)))"
    "es_run_at s = jo_run_at opts"
    "es_job_key s = nullish (jo_job_key opts) (Option.bind copts co_job_key)"
    "es_mode s = nullish (jo_mode opts) (Option.bind copts co_job_key_mode)"
    "es_idem_key s = jo_idem_key opts \<and> es_idem_key s \<noteq> Some []"
    "case es_idem_ttl s of None \<Rightarrow> es_idem_key s = None
       | Some t \<Rightarrow> es_idem_key s \<noteq> None \<and> 1 \<le> t \<and> t \<le> max_safe_integer"
  using assms(1) parse_duration_bounds
  unfolding resolve_enqueue_spec_def Let_def opts_def [symmetric] copts_def [symmetric]
  by (fastforce simp: res_simps assert_integer_Inr map_sum_Inr default_idempotency_ttl_def
      max_safe_integer_def split: option.splits if_splits)+

end
