(* ===== verification/Admin.thy ===== *)
theory Admin
  imports History Outcomes JobOptions
begin

text \<open>
  The administration queries, \<^verbatim>\<open>src/src/admin.ts\<close>: queue definitions, counts
  by task and their merge with the history, progress, and the listing of live jobs by pages. The
  rows of Graphile's jobs view are those of its table. Reading a timestamp is PostgreSQL's
  (\<open>pg_time\<close>, microseconds), reading a date JavaScript's (\<open>parse_date\<close>); both are parameters.
\<close>

section \<open>Queue definitions and progress\<close>

record queue_definition =
  qd_name :: string
  qd_type :: queue_type
  qd_cron :: "string option"
  qd_serial :: "serial option"
  qd_max_attempts :: jsnum
  qd_timeout :: "jsnum option"
  qd_priority :: "jsnum option"
  qd_input_schema :: "schema option"

definition get_queue_definitions ::
  "'h queue list \<Rightarrow> jsnum option \<Rightarrow> jsnum option \<Rightarrow> queue_definition list" where
  "get_queue_definitions queues default_max default_timeout =
     (let max0 = nullish_else default_max (int_num default_graphile_job_max_attempts) in
      map (\<lambda>q. \<lparr>qd_name = q_name q, qd_type = get_queue_type q, qd_cron = format_cron_schedule (q_cron q),
        qd_serial = q_serial q, qd_max_attempts = nullish_else (q_max_attempts q) max0,
        qd_timeout = nullish (q_timeout q) default_timeout, qd_priority = q_priority q,
        qd_input_schema = (if has_input_schema q then q_input_schema q else None)\<rparr>) queues)"

definition bigint_error :: "string \<Rightarrow> js_error" where
  "bigint_error s = NamedError ''error'' (''value '' @ quoted s @ '' is out of range for type bigint'')"

definition query_job_progress ::
  "'h queue list \<Rightarrow> string \<Rightarrow> string \<Rightarrow> db \<Rightarrow> json option option res" where
  "query_job_progress queues queue job_id d =
     (if queue \<notin> set (map q_name queues)
      then Inl (UnknownQueueError queue (map q_name queues))
      else if \<not> (valid_job_id job_id \<and> length job_id \<le> 19)
      then Inl (PlainRangeError ''Invalid job id'')
      else if read_nat job_id > max_bigint then Inl (bigint_error job_id)
      else Inr (read_progress d queue (read_nat job_id)))"

section \<open>Counts and statistics\<close>

record count_row =
  cr_task :: string
  cr_pending :: nat
  cr_running :: nat
  cr_failed :: nat

definition is_pending :: "job_row \<Rightarrow> bool" where
  "is_pending r \<longleftrightarrow> jr_locked_at r = None \<and> jr_attempts r < jr_max_attempts r"

definition is_running :: "job_row \<Rightarrow> bool" where
  "is_running r \<longleftrightarrow> jr_locked_at r \<noteq> None"

definition is_failed :: "job_row \<Rightarrow> bool" where
  "is_failed r \<longleftrightarrow> jr_locked_at r = None \<and> jr_attempts r \<ge> jr_max_attempts r"

text \<open>The first occurrences, the order of a JavaScript set.\<close>

definition distinct_first :: "'a list \<Rightarrow> 'a list" where
  "distinct_first xs = rev (remdups (rev xs))"

text \<open>The groups in the order of their first row; the statement leaves the order open.\<close>

definition query_job_counts :: "db \<Rightarrow> count_row list" where
  "query_job_counts d =
     (let count = (\<lambda>t p. length (filter (\<lambda>r. jr_task r = t \<and> p r) (db_jobs d))) in
      map (\<lambda>t. \<lparr>cr_task = t, cr_pending = count t is_pending, cr_running = count t is_running,
                cr_failed = count t is_failed\<rparr>) (distinct_first (map jr_task (db_jobs d))))"

record stats_row =
  sr_task :: string
  sr_pending :: nat
  sr_running :: nat
  sr_recent_completed :: nat
  sr_failed :: nat
  sr_recent_failed :: nat

text \<open>A map built from rows keeps the last row of a key.\<close>

definition merge_job_stats ::
  "count_row list \<Rightarrow> (string \<times> nat \<times> nat) list \<Rightarrow> string list \<Rightarrow> stats_row list" where
  "merge_job_stats rows ring task_ids =
     (let names = distinct_first (task_ids @ map cr_task rows @ map fst ring);
          by_task = map_of (rev (map (\<lambda>r. (cr_task r, r)) rows)) in
      map (\<lambda>t. let pg = by_task t; mem = map_of ring t in
        \<lparr>sr_task = t, sr_pending = nullish_else (map_option cr_pending pg) 0,
         sr_running = nullish_else (map_option cr_running pg) 0,
         sr_recent_completed = nullish_else (map_option fst mem) 0,
         sr_failed = nullish_else (map_option cr_failed pg) 0,
         sr_recent_failed = nullish_else (map_option snd mem) 0\<rparr>) names)"

section \<open>Listing jobs\<close>

text \<open>The place of a job in the listing: its creation time, then its id.\<close>

datatype cursor = Cursor (created: int) (number: nat)

instantiation cursor :: linorder
begin

definition less_eq_cursor :: "cursor \<Rightarrow> cursor \<Rightarrow> bool" where
  "less_eq_cursor a b \<longleftrightarrow> (created a, number a) \<le> (created b, number b)"

definition less_cursor :: "cursor \<Rightarrow> cursor \<Rightarrow> bool" where
  "less_cursor a b \<longleftrightarrow> (created a, number a) < (created b, number b)"

instance
  by standard (auto simp: less_eq_cursor_def less_cursor_def less_le_not_le cursor.expand)

end

definition job_cursor :: "job_row \<Rightarrow> cursor" where
  "job_cursor r = Cursor (jr_created_at r) (jr_id r)"

text \<open>\<open>to_char(\<dots>, 'YYYY-MM-DD"T"HH24:MI:SS.US"Z"')\<close>, for the years 0 to 9999.\<close>

definition micro_text :: "int \<Rightarrow> string" where
  "micro_text t =
     (let (y, m, d) = civil_of_days (t div 86400000000);
          r = t mod 86400000000;
          two = (\<lambda>i. pad_left 2 (show_nat (nat i)))
      in pad_left 4 (show_nat (nat y)) @ ''-'' @ two m @ ''-'' @ two d @ ''T'' @
         two (r div 3600000000) @ '':'' @ two (r div 60000000 mod 60) @ '':'' @
         two (r div 1000000 mod 60) @ ''.'' @ pad_left 6 (show_nat (nat (r mod 1000000))) @ ''Z'')"

record list_options =
  lo_limit :: "jsnum option"
  lo_offset :: "jsnum option"
  lo_queue :: "string option"
  lo_state :: "string option"
  lo_payload :: bool
  lo_before :: "(string \<times> string) option"

record listed_job =
  lj_id :: string
  lj_cursor :: "string \<times> string"
  lj_queue :: string
  lj_payload :: "json option"
  lj_priority :: int
  lj_attempts :: int
  lj_max_attempts :: int
  lj_run_at :: string
  lj_created_at :: string
  lj_locked_at :: "string option"
  lj_locked_by :: "string option"
  lj_last_error :: "string option"

definition default_list_limit :: int where
  "default_list_limit = 100"

definition max_list_limit :: int where
  "max_list_limit = 1000"

definition in_state :: "string option \<Rightarrow> job_row \<Rightarrow> bool" where
  "in_state st r \<longleftrightarrow> st = None \<or> st = Some ''pending'' \<and> is_pending r \<or>
     st = Some ''running'' \<and> is_running r \<or> st = Some ''failed'' \<and> is_failed r"

definition matches :: "string option \<Rightarrow> string option \<Rightarrow> job_row \<Rightarrow> bool" where
  "matches queue st r \<longleftrightarrow> (queue = None \<or> queue = Some (jr_task r)) \<and> in_state st r"

definition before_cursor :: "cursor option \<Rightarrow> job_row \<Rightarrow> bool" where
  "before_cursor c r \<longleftrightarrow> (case c of None \<Rightarrow> True | Some x \<Rightarrow> job_cursor r < x)"

definition newest_first :: "job_row list \<Rightarrow> job_row list" where
  "newest_first rows = rev (sort_key job_cursor rows)"

definition list_page ::
  "nat \<Rightarrow> nat \<Rightarrow> string option \<Rightarrow> string option \<Rightarrow> cursor option \<Rightarrow> db \<Rightarrow> job_row list" where
  "list_page limit offset queue st before d =
     take limit (drop offset (newest_first
       (filter (\<lambda>r. matches queue st r \<and> before_cursor before r) (db_jobs d))))"

definition listed :: "json option \<Rightarrow> job_row \<Rightarrow> listed_job" where
  "listed payload r = \<lparr>lj_id = show_nat (jr_id r),
     lj_cursor = (micro_text (jr_created_at r), show_nat (jr_id r)), lj_queue = jr_task r,
     lj_payload = payload, lj_priority = jr_priority r, lj_attempts = jr_attempts r,
     lj_max_attempts = jr_max_attempts r, lj_run_at = iso_time (jr_run_at r),
     lj_created_at = iso_time (jr_created_at r), lj_locked_at = map_option iso_time (jr_locked_at r),
     lj_locked_by = jr_locked_by r, lj_last_error = jr_last_error r\<rparr>"

definition list_row :: "bool \<Rightarrow> job_row \<Rightarrow> listed_job res" where
  "list_row include_payload r =
     (if include_payload
      then bind_res (extract_producer_link (jr_payload r)) (\<lambda>(_, clean). Inr (listed clean r))
      else Inr (listed (Some JNull) r))"

text \<open>The casts of the statement: \<open>timestamptz\<close> and \<open>bigint\<close>.\<close>

definition cast_cursor :: "(string \<Rightarrow> int option) \<Rightarrow> (string \<times> string) option \<Rightarrow> cursor option res" where
  "cast_cursor pg_time before =
     (case before of
        None \<Rightarrow> Inr None
      | Some (t, i) \<Rightarrow>
          (case pg_time t of
             None \<Rightarrow> Inl (NamedError ''error'' (''invalid input syntax for type timestamp with time zone: '' @ quoted t))
           | Some c \<Rightarrow>
               if read_nat i > max_bigint then Inl (bigint_error i)
               else Inr (Some (Cursor c (read_nat i)))))"

definition query_recent_jobs ::
  "(string \<Rightarrow> int option) \<Rightarrow> (string \<Rightarrow> int option) \<Rightarrow> list_options \<Rightarrow> db \<Rightarrow> listed_job list res" where
  "query_recent_jobs parse_date pg_time opts d =
     bind_res (assert_integer (nullish_else (lo_limit opts) (int_num default_list_limit)) ''limit'' 0 max_list_limit) (\<lambda>limit.
     bind_res (assert_integer (nullish_else (lo_offset opts) (int_num 0)) ''offset'' 0 max_safe_integer) (\<lambda>offset.
     bind_res (guard_res (case lo_state opts of None \<Rightarrow> True
         | Some st \<Rightarrow> st \<in> set [''pending'', ''running'', ''failed'']) (PlainRangeError ''Invalid job state'')) (\<lambda>_.
     bind_res (guard_res (lo_before opts = None \<or> lo_offset opts = None)
         (PlainRangeError ''before and offset cannot be combined'')) (\<lambda>_.
     bind_res (guard_res (case lo_before opts of None \<Rightarrow> True
         | Some (t, i) \<Rightarrow> parse_date t \<noteq> None \<and> valid_job_id i) (PlainRangeError ''Invalid job cursor'')) (\<lambda>_.
     bind_res (cast_cursor pg_time (lo_before opts)) (\<lambda>before.
     map_res (list_row (lo_payload opts))
       (list_page (nat limit) (nat offset) (lo_queue opts) (lo_state opts) before d)))))))"

section \<open>The counts are a partition\<close>

lemma distinct_first_facts [simp]:
  "distinct (distinct_first xs)" "set (distinct_first xs) = set xs"
  by (simp_all add: distinct_first_def)

lemma states_partition:
  "length (filter (\<lambda>r. q r \<and> is_pending r) rs) + length (filter (\<lambda>r. q r \<and> is_running r) rs) +
   length (filter (\<lambda>r. q r \<and> is_failed r) rs) = length (filter (\<lambda>r. q r \<and> True) rs)"
  by (induction rs) (auto simp: is_pending_def is_running_def is_failed_def)

text \<open>
  The statistics are complete: merged with the history there is exactly one row for each registered
  task, each task with jobs and each queue with history, and its pending, running and failed
  counts partition the jobs of the task.
\<close>

theorem counts_partition_jobs:
  fixes d :: db
  defines "number_of \<equiv> \<lambda>t p. length (filter (\<lambda>r. jr_task r = t \<and> p r) (db_jobs d))"
  shows "\<exists>names. distinct names \<and> set names = set task_ids \<union> jr_task ` set (db_jobs d) \<union> fst ` set ring \<and>
    merge_job_stats (query_job_counts d) ring task_ids =
      map (\<lambda>t. \<lparr>sr_task = t, sr_pending = number_of t is_pending, sr_running = number_of t is_running,
        sr_recent_completed = nullish_else (map_option fst (map_of ring t)) 0,
        sr_failed = number_of t is_failed,
        sr_recent_failed = nullish_else (map_option snd (map_of ring t)) 0\<rparr>) names \<and>
    number_of t is_pending + number_of t is_running + number_of t is_failed = number_of t (\<lambda>_. True)"
proof -
  let ?rows = "query_job_counts d" and ?ts = "distinct_first (map jr_task (db_jobs d))"
  let ?row = "\<lambda>t. \<lparr>cr_task = t, cr_pending = number_of t is_pending, cr_running = number_of t is_running, cr_failed = number_of t is_failed\<rparr>"
  let ?names = "distinct_first (task_ids @ map cr_task ?rows @ map fst ring)"
  have rows: "?rows = map ?row ?ts" by (simp add: query_job_counts_def number_of_def)
  have pairs: "rev (map (\<lambda>r. (cr_task r, r)) ?rows) = map (\<lambda>t. (t, ?row t)) (rev ?ts)"
    by (simp add: rows rev_map)
  have look: "map_of (rev (map (\<lambda>r. (cr_task r, r)) ?rows)) t =
      (if t \<in> jr_task ` set (db_jobs d) then Some (?row t) else None)" for t
    unfolding pairs by (simp add: map_of_map_restrict restrict_map_def)
  have none: "number_of t p = 0" if "t \<notin> jr_task ` set (db_jobs d)" for t p
    using that by (auto simp: number_of_def filter_empty_conv)
  have "set ?names = set task_ids \<union> jr_task ` set (db_jobs d) \<union> fst ` set ring"
    by (simp add: rows Un_assoc image_image)
  moreover have "merge_job_stats ?rows ring task_ids =
      map (\<lambda>t. \<lparr>sr_task = t, sr_pending = number_of t is_pending, sr_running = number_of t is_running,
        sr_recent_completed = nullish_else (map_option fst (map_of ring t)) 0,
        sr_failed = number_of t is_failed,
        sr_recent_failed = nullish_else (map_option snd (map_of ring t)) 0\<rparr>) ?names"
    by (simp add: merge_job_stats_def Let_def look none)
  moreover have "number_of t is_pending + number_of t is_running + number_of t is_failed = number_of t (\<lambda>_. True)"
    unfolding number_of_def by (rule states_partition)
  ultimately show ?thesis
    by (intro exI [of _ ?names]) simp
qed

section \<open>Pages cover all jobs\<close>

text \<open>Listing page after page, each from the cursor of the row before, at most \<open>n\<close> pages.\<close>

fun list_all_pages ::
  "(string \<Rightarrow> int option) \<Rightarrow> (string \<Rightarrow> int option) \<Rightarrow> nat \<Rightarrow> list_options \<Rightarrow> db \<Rightarrow> listed_job list res" where
  "list_all_pages parse_date pg_time 0 opts d = Inr []"
| "list_all_pages parse_date pg_time (Suc n) opts d =
     bind_res (query_recent_jobs parse_date pg_time opts d) (\<lambda>page.
       if page = [] then Inr []
       else bind_res (list_all_pages parse_date pg_time n (opts\<lparr>lo_before := Some (lj_cursor (last page))\<rparr>) d)
         (\<lambda>rest. Inr (page @ rest)))"

abbreviation newer :: "job_row \<Rightarrow> job_row \<Rightarrow> bool" where
  "newer a b \<equiv> job_cursor b < job_cursor a"

lemma filter_newest_first: "filter p (newest_first rows) = newest_first (filter p rows)"
  by (simp add: newest_first_def rev_filter [symmetric] filter_sort)

lemma set_newest_first [simp]: "set (newest_first rows) = set rows"
  by (simp add: newest_first_def)

lemma sorted_newest_first:
  assumes "distinct (map jr_id rows)"
  shows "sorted_wrt newer (newest_first rows)"
proof -
  have "distinct (map job_cursor rows)"
    using assms by (auto simp: distinct_map inj_on_def job_cursor_def)
  then have "sorted_wrt (<) (map job_cursor (sort_key job_cursor rows))"
    by (simp add: strict_sorted_iff distinct_map)
  then show ?thesis by (simp add: newest_first_def sorted_wrt_rev sorted_wrt_map)
qed

lemma filter_after_page:
  assumes "sorted_wrt newer xs" "take n xs \<noteq> []"
  shows "filter (\<lambda>r. job_cursor r < job_cursor (last (take n xs))) xs = drop n xs"
proof -
  let ?l = "last (take n xs)"
  have split: "sorted_wrt newer (take n xs @ drop n xs)" using assms(1) by simp
  have "\<not> job_cursor r < job_cursor ?l" if "r \<in> set (take n xs)" for r
  proof -
    have "sorted_wrt newer (butlast (take n xs) @ [?l])"
      using assms sorted_wrt_take by fastforce
    then have "r = ?l \<or> newer r ?l"
      using that assms(2) by (metis Un_iff append_butlast_last_id empty_iff set_ConsD set_append
          set_empty2 sorted_wrt_append list.set_intros(1))
    then show ?thesis by auto
  qed
  then have "filter (\<lambda>r. job_cursor r < job_cursor ?l) (take n xs) = []"
    by (simp add: filter_empty_conv)
  moreover have "\<forall>r\<in>set (drop n xs). job_cursor r < job_cursor ?l"
    using split assms(2) unfolding sorted_wrt_append by (meson last_in_set)
  then have "filter (\<lambda>r. job_cursor r < job_cursor ?l) (drop n xs) = drop n xs"
    by simp
  ultimately show ?thesis
    by (metis append_Nil append_take_drop_id filter_append)
qed

definition cursor_text :: "cursor \<Rightarrow> string \<times> string" where
  "cursor_text c = (micro_text (created c), show_nat (number c))"

lemma query_page:
  assumes "lo_limit opts = Some (int_num (int n))" "int n \<le> max_list_limit" "lo_offset opts = None"
    and "lo_state opts = None \<or> lo_state opts \<in> Some ` set [''pending'', ''running'', ''failed'']"
    and "\<not> lo_payload opts" "lo_before opts = map_option cursor_text c"
    and "case c of None \<Rightarrow> True | Some x \<Rightarrow> pg_time (micro_text (created x)) = Some (created x) \<and>
      parse_date (micro_text (created x)) \<noteq> None \<and> 0 < number x \<and> number x \<le> max_bigint"
  shows "query_recent_jobs parse_date pg_time opts d =
    Inr (map (listed (Some JNull)) (take n (newest_first (filter (\<lambda>r. matches (lo_queue opts) (lo_state opts) r \<and> before_cursor c r) (db_jobs d)))))"
proof -
  have rows: "map_res (list_row False) xs = Inr (map (listed (Some JNull)) xs)" for xs
    by (induction xs) (simp_all add: list_row_def)
  have lim: "assert_integer (int_num (int n)) ''limit'' 0 max_list_limit = Inr (int n)"
  proof -
    have "safe_integer (int_num (int n)) = Some (int n)"
      using assms(2) by (intro safe_integer_int) (simp add: max_list_limit_def max_safe_integer_def)
    with assms(2) show ?thesis by (simp only: assert_integer_Inr) simp
  qed
  have off: "assert_integer (int_num 0) ''offset'' 0 max_safe_integer = Inr 0"
    by (simp add: assert_integer_Inr max_safe_integer_def del: of_int_0)
  have st: "case lo_state opts of None \<Rightarrow> True | Some st \<Rightarrow> st \<in> set [''pending'', ''running'', ''failed'']"
    using assms(4) by (auto split: option.split)
  have cast: "cast_cursor pg_time (lo_before opts) = Inr c"
    using assms(6,7) by (cases c) (auto simp: cast_cursor_def cursor_text_def)
  have ok: "case lo_before opts of None \<Rightarrow> True | Some (t, i) \<Rightarrow> parse_date t \<noteq> None \<and> valid_job_id i"
    using assms(6,7) by (cases c) (auto simp: cursor_text_def)
  have "lo_payload opts = False" using assms(5) by simp
  then show ?thesis
    unfolding query_recent_jobs_def assms(1,3) nullish_simps lim off
    using st ok by (simp add: cast rows list_page_def del: list.set)
qed

lemma before_cursor_trans:
  "before_cursor c l \<Longrightarrow> before_cursor (Some (job_cursor l)) r \<longleftrightarrow> before_cursor c r \<and> job_cursor r < job_cursor l"
  by (auto simp: before_cursor_def split: option.splits)

lemma rest_after_page:
  assumes "sorted_wrt newer (filter (before_cursor c) ms)" and ne: "take n (filter (before_cursor c) ms) \<noteq> []"
  shows "filter (before_cursor (Some (job_cursor (last (take n (filter (before_cursor c) ms)))))) ms =
    drop n (filter (before_cursor c) ms)"
proof -
  let ?ys = "filter (before_cursor c) ms" let ?l = "last (take n ?ys)"
  have "?l \<in> set ?ys" using ne by (meson in_set_takeD last_in_set)
  then have "before_cursor c ?l" by simp
  then have "before_cursor (Some (job_cursor ?l)) r \<longleftrightarrow> before_cursor c r \<and> job_cursor r < job_cursor ?l" for r
    by (rule before_cursor_trans)
  then have "filter (before_cursor (Some (job_cursor ?l))) ms = filter (\<lambda>r. job_cursor r < job_cursor ?l) ?ys"
    unfolding filter_filter by (intro filter_cong HOL.refl)
  also have "\<dots> = drop n ?ys" by (rule filter_after_page [OF assms])
  finally show ?thesis .
qed

lemma all_pages_from:
  assumes inv: "jobs_inv d"
    and limit: "lo_limit opts = Some (int_num (int n))" "0 < n" "int n \<le> max_list_limit"
    and "lo_offset opts = None" "lo_state opts = None \<or> lo_state opts \<in> Some ` set [''pending'', ''running'', ''failed'']"
    and "\<not> lo_payload opts"
    and time: "list_all (\<lambda>r. pg_time (micro_text (jr_created_at r)) = Some (jr_created_at r) \<and>
      parse_date (micro_text (jr_created_at r)) \<noteq> None \<and> 0 < jr_id r \<and> jr_id r \<le> max_bigint) (db_jobs d)"
  defines "ms \<equiv> newest_first (filter (matches (lo_queue opts) (lo_state opts)) (db_jobs d))"
  shows "c = None \<or> c \<in> (\<lambda>r. Some (job_cursor r)) ` set (db_jobs d) \<Longrightarrow>
    length (filter (before_cursor c) ms) < fuel \<Longrightarrow>
    list_all_pages parse_date pg_time fuel (opts\<lparr>lo_before := map_option cursor_text c\<rparr>) d =
      Inr (map (listed (Some JNull)) (filter (before_cursor c) ms))"
proof (induction fuel arbitrary: c)
  case (Suc fuel)
  let ?ys = "filter (before_cursor c) ms"
  let ?opts = "opts\<lparr>lo_before := map_option cursor_text c\<rparr>"
  have page: "query_recent_jobs parse_date pg_time ?opts d = Inr (map (listed (Some JNull)) (take n ?ys))"
  proof -
    have "?ys = newest_first (filter (\<lambda>r. matches (lo_queue opts) (lo_state opts) r \<and> before_cursor c r) (db_jobs d))"
      unfolding ms_def filter_newest_first by (simp add: conj_commute)
    then show ?thesis
      using query_page [of ?opts n c pg_time parse_date d] limit(1,3) assms(5-7) Suc.prems(1) time
      by (auto simp: job_cursor_def list_all_iff)
  qed
  have sorted: "sorted_wrt newer ?ys"
  proof -
    have "distinct (map jr_id (filter (matches (lo_queue opts) (lo_state opts)) (db_jobs d)))"
      using inv by (simp add: jobs_inv_def distinct_map_filter)
    then show ?thesis unfolding ms_def by (intro sorted_wrt_filter sorted_newest_first)
  qed
  show ?case
  proof (cases "?ys = []")
    case True
    with page show ?thesis by simp
  next
    case False
    then have ne: "take n ?ys \<noteq> []" using limit(2) by simp
    let ?l = "last (take n ?ys)"
    have l: "?l \<in> set ?ys" using ne by (meson in_set_takeD last_in_set)
    have rest: "filter (before_cursor (Some (job_cursor ?l))) ms = drop n ?ys"
      by (rule rest_after_page [OF sorted ne])
    have mem: "Some (job_cursor ?l) \<in> (\<lambda>r. Some (job_cursor r)) ` set (db_jobs d)"
      using l by (auto simp: ms_def)
    have "0 < length ?ys" using False by blast
    then have "length (drop n ?ys) < fuel" using Suc.prems(2) limit(2) by (simp only: length_drop)
    with Suc.IH [of "Some (job_cursor ?l)"] mem rest
    have "list_all_pages parse_date pg_time fuel (opts\<lparr>lo_before := Some (cursor_text (job_cursor ?l))\<rparr>) d =
        Inr (map (listed (Some JNull)) (drop n ?ys))" by simp
    moreover have "lj_cursor (last (map (listed (Some JNull)) (take n ?ys))) = cursor_text (job_cursor ?l)"
      using ne by (simp add: last_map listed_def cursor_text_def job_cursor_def)
    ultimately have "list_all_pages parse_date pg_time (Suc fuel) ?opts d =
        Inr (map (listed (Some JNull)) (take n ?ys) @ map (listed (Some JNull)) (drop n ?ys))"
      using ne by (simp add: page)
    then show ?thesis by (simp only: map_append [symmetric] append_take_drop_id)
  qed
qed simp

text \<open>
  C38 Pagination covers the listing: reading page after page, each from the cursor of the last row of
  the page before, visits every job that matches the queue and state exactly once, newest first,
  whatever the size of the pages; it needs that PostgreSQL reads the timestamps it writes.
\<close>

theorem pages_cover_all_jobs:
  assumes "jobs_inv d" and "lo_limit opts = Some (int_num (int n))" and "0 < n" and "int n \<le> max_list_limit"
    and "lo_offset opts = None" and "lo_before opts = None" and "\<not> lo_payload opts"
    and "lo_state opts = None \<or> lo_state opts \<in> Some ` set [''pending'', ''running'', ''failed'']"
    and "list_all (\<lambda>r. pg_time (micro_text (jr_created_at r)) = Some (jr_created_at r) \<and>
      parse_date (micro_text (jr_created_at r)) \<noteq> None \<and> 0 < jr_id r \<and> jr_id r \<le> max_bigint) (db_jobs d)"
    and "length (db_jobs d) < fuel"
  shows "\<exists>rows. list_all_pages parse_date pg_time fuel opts d = Inr (map (listed (Some JNull)) rows) \<and>
    distinct rows \<and> set rows = {r \<in> set (db_jobs d). matches (lo_queue opts) (lo_state opts) r} \<and>
    sorted_wrt newer rows"
proof -
  let ?rows = "newest_first (filter (matches (lo_queue opts) (lo_state opts)) (db_jobs d))"
  have all: "filter (before_cursor None) ?rows = ?rows" by (simp add: before_cursor_def)
  have "length ?rows \<le> length (db_jobs d)"
    unfolding newest_first_def by (simp only: length_rev length_sort length_filter_le)
  with assms(10) have len: "length ?rows < fuel" by (rule order.strict_trans1 [rotated])
  have opts: "opts\<lparr>lo_before := None\<rparr> = opts" using assms(6) by (cases opts) simp
  have "list_all_pages parse_date pg_time fuel opts d = Inr (map (listed (Some JNull)) ?rows)"
    using all_pages_from [OF assms(1-5,8,7,9), of None fuel] len by (simp add: all opts)
  moreover have "sorted_wrt newer ?rows"
    using assms(1) by (intro sorted_newest_first) (simp add: jobs_inv_def distinct_map_filter)
  moreover have "distinct ?rows"
    using assms(1) by (auto simp: newest_first_def jobs_inv_def distinct_map)
  ultimately show ?thesis by (intro exI [of _ ?rows]) auto
qed

definition sample_list :: list_options where
  "sample_list = \<lparr>lo_limit = Some (int_num (int 1)), lo_offset = None, lo_queue = None,
     lo_state = Some ''pending'', lo_payload = False, lo_before = None\<rparr>"

definition sample_jobs :: db where
  "sample_jobs = (empty_db 9000)\<lparr>db_jobs := map (\<lambda>i. sample_job\<lparr>jr_id := i, jr_locked_at := None\<rparr>) [5, 6]\<rparr>"

theorem pages_cover_all_jobs_witness:
  "\<exists>rows. list_all_pages (\<lambda>_. Some 0) (\<lambda>_. Some 0) 3 sample_list sample_jobs = Inr (map (listed (Some JNull)) rows) \<and>
     map jr_id rows = [6, 5]"
proof -
  have inv: "jobs_inv sample_jobs" by code_simp
  have opts: "lo_limit sample_list = Some (int_num (int 1))" "0 < (1 :: nat)" "int 1 \<le> max_list_limit"
    "lo_offset sample_list = None" "lo_before sample_list = None" "\<not> lo_payload sample_list"
    "lo_state sample_list = None \<or> lo_state sample_list \<in> Some ` set [''pending'', ''running'', ''failed'']"
    by (simp_all add: sample_list_def max_list_limit_def)
  have jobs: "db_jobs sample_jobs = map (\<lambda>i. sample_job\<lparr>jr_id := i, jr_locked_at := None\<rparr>) [5, 6]"
    by (simp add: sample_jobs_def)
  have time: "list_all (\<lambda>r. (\<lambda>_. Some 0) (micro_text (jr_created_at r)) = Some (jr_created_at r) \<and>
      (\<lambda>_. Some (0 :: int)) (micro_text (jr_created_at r)) \<noteq> None \<and> 0 < jr_id r \<and> jr_id r \<le> max_bigint)
      (db_jobs sample_jobs)"
    by (simp add: jobs sample_job_def max_bigint_def)
  have match: "{r \<in> set (db_jobs sample_jobs). matches (lo_queue sample_list) (lo_state sample_list) r} =
      set (db_jobs sample_jobs)"
    by (auto simp: jobs sample_job_def sample_list_def matches_def in_state_def is_pending_def)
  obtain rows where rows: "list_all_pages (\<lambda>_. Some 0) (\<lambda>_. Some 0) 3 sample_list sample_jobs =
      Inr (map (listed (Some JNull)) rows)" "distinct rows" "set rows = set (db_jobs sample_jobs)"
      "sorted_wrt newer rows"
    using pages_cover_all_jobs [OF inv opts time, of 3] unfolding match by (auto simp: jobs)
  let ?a = "sample_job\<lparr>jr_id := 5, jr_locked_at := None\<rparr>" and ?b = "sample_job\<lparr>jr_id := 6, jr_locked_at := None\<rparr>"
  have set: "set rows = {?a, ?b}" using rows(3) by (simp add: jobs)
  have newer: "newer ?b ?a" by (simp add: job_cursor_def less_cursor_def)
  then have ne: "?a \<noteq> ?b" by (metis order.irrefl)
  have "length rows = 2" using rows(2) set ne by (metis card_2_iff distinct_card)
  then obtain x y where "rows = [x, y]" by (auto simp: numeral_2_eq_2 length_Suc_conv)
  with set rows(2,4) newer ne have "rows = [?b, ?a]" by (auto simp: doubleton_eq_iff)
  with rows(1) show ?thesis by (intro exI [of _ rows]) simp
qed

end
