(* ===== verification/Client.thy ===== *)
theory Client
  imports Errors
begin

text \<open>
  The shared \<open>WorkerUtils\<close> of a client, \<^verbatim>\<open>createWorkerClient\<close> in
  \<^verbatim>\<open>src/src/client.ts\<close>: calls of \<open>getUtils\<close> share one pending instance, and
  \<open>release\<close> releases it. Instances are numbered in the order of their creation; making and
  releasing one are Graphile's, and their results are events. Also the checks around the
  statements of \<open>migrate\<close>, \<open>hasTables\<close> and \<open>retryJobs\<close>.
\<close>

section \<open>State and events\<close>

datatype utils_status = Making | Made | MakeFailed js_error | BeingReleased | Released | ReleaseFailed js_error

text \<open>
  What the release under way does: it waits for the making of an instance, releases one, or ends.
  \<open>cl_waiting\<close> counts the calls of \<open>getUtils\<close> that await it, \<open>cl_resuming\<close> those
  whose release has settled.
\<close>

datatype release_phase = AwaitMaking nat | Releasing nat | ReleaseEnding

record client =
  cl_utils :: "utils_status list"
  cl_pending :: "nat option"
  cl_releasing :: "release_phase option"
  cl_waiting :: nat
  cl_resuming :: nat

definition new_client :: client where
  "new_client = \<lparr>cl_utils = [], cl_pending = None, cl_releasing = None, cl_waiting = 0, cl_resuming = 0\<rparr>"

text \<open>\<open>getUtils\<close> after any release it waited for.\<close>

definition share_utils :: "client \<Rightarrow> client" where
  "share_utils c =
     (case cl_pending c of
        Some _ \<Rightarrow> c
      | None \<Rightarrow> c\<lparr>cl_utils := cl_utils c @ [Making], cl_pending := Some (length (cl_utils c))\<rparr>)"

definition get_utils :: "client \<Rightarrow> client" where
  "get_utils c = (if cl_releasing c \<noteq> None then c\<lparr>cl_waiting := cl_waiting c + 1\<rparr> else share_utils c)"

definition release_utils :: "client \<Rightarrow> client" where
  "release_utils c =
     (if cl_releasing c \<noteq> None then c
      else c\<lparr>cl_pending := None,
             cl_releasing := Some (case cl_pending c of None \<Rightarrow> ReleaseEnding | Some i \<Rightarrow> AwaitMaking i)\<rparr>)"

datatype client_event =
    GetUtils
  | GetResumes
  | MakeSucceeds nat
  | MakeFails nat js_error
  | Release
  | ReleaseContinues
  | ReleaseSettles "unit res"

text \<open>
  \<open>GetResumes\<close>: a call that waited for a release goes on, without looking for another one.
  \<open>ReleaseContinues\<close>: the awaited making has settled. \<open>ReleaseSettles\<close>: the release of the
  instance has settled; its rejection rejects the calls that await it.
\<close>

fun client_step :: "client_event \<Rightarrow> client \<Rightarrow> client option" where
  "client_step GetUtils c = Some (get_utils c)"
| "client_step GetResumes c =
     (if cl_resuming c = 0 then None else Some (share_utils (c\<lparr>cl_resuming := cl_resuming c - 1\<rparr>)))"
| "client_step (MakeSucceeds i) c =
     (if i < length (cl_utils c) \<and> cl_utils c ! i = Making
      then Some (c\<lparr>cl_utils := (cl_utils c)[i := Made]\<rparr>) else None)"
| "client_step (MakeFails i e) c =
     (if i < length (cl_utils c) \<and> cl_utils c ! i = Making
      then Some (c\<lparr>cl_utils := (cl_utils c)[i := MakeFailed e],
                   cl_pending := (if cl_pending c = Some i then None else cl_pending c)\<rparr>) else None)"
| "client_step Release c = Some (release_utils c)"
| "client_step ReleaseContinues c =
     (case cl_releasing c of
        Some (AwaitMaking i) \<Rightarrow>
          (case cl_utils c ! i of
             Made \<Rightarrow> Some (c\<lparr>cl_utils := (cl_utils c)[i := BeingReleased], cl_releasing := Some (Releasing i)\<rparr>)
           | MakeFailed _ \<Rightarrow> Some (c\<lparr>cl_releasing := Some ReleaseEnding\<rparr>)
           | _ \<Rightarrow> None)
      | _ \<Rightarrow> None)"
| "client_step (ReleaseSettles r) c =
     (let c' = c\<lparr>cl_releasing := None, cl_waiting := 0,
        cl_resuming := cl_resuming c + (if is_ok r then cl_waiting c else 0)\<rparr> in
      case cl_releasing c of
        Some (Releasing i) \<Rightarrow>
          Some (c'\<lparr>cl_utils := (cl_utils c)[i := (case r of Inr _ \<Rightarrow> Released | Inl e \<Rightarrow> ReleaseFailed e)]\<rparr>)
      | Some ReleaseEnding \<Rightarrow> if is_ok r then Some c' else None
      | _ \<Rightarrow> None)"

inductive client_reachable :: "client \<Rightarrow> bool" where
  created: "client_reachable new_client"
| step: "client_reachable c \<Longrightarrow> client_step ev c = Some c' \<Longrightarrow> client_reachable c'"

section \<open>No instance leaks\<close>

definition open_status :: "utils_status \<Rightarrow> bool" where
  "open_status st \<longleftrightarrow> st = Making \<or> st = Made"

definition closed_status :: "utils_status \<Rightarrow> bool" where
  "closed_status st \<longleftrightarrow> (case st of MakeFailed _ \<Rightarrow> True | Released \<Rightarrow> True | ReleaseFailed _ \<Rightarrow> True | _ \<Rightarrow> False)"

text \<open>
  What the status of an instance says: whether it is pending, awaited by the release under way,
  or being released by it.
\<close>

fun slot_ok :: "utils_status \<Rightarrow> bool \<Rightarrow> bool \<Rightarrow> bool \<Rightarrow> bool" where
  "slot_ok Making pending awaited released \<longleftrightarrow> pending \<noteq> awaited \<and> \<not> released"
| "slot_ok Made pending awaited released \<longleftrightarrow> pending \<noteq> awaited \<and> \<not> released"
| "slot_ok (MakeFailed _) pending awaited released \<longleftrightarrow> \<not> pending \<and> \<not> released"
| "slot_ok BeingReleased pending awaited released \<longleftrightarrow> \<not> pending \<and> \<not> awaited \<and> released"
| "slot_ok _ pending awaited released \<longleftrightarrow> \<not> pending \<and> \<not> awaited \<and> \<not> released"

lemma slot_pending: "slot_ok st True False False \<Longrightarrow> slot_ok st False True False"
  by (cases st) simp_all

definition client_inv :: "client \<Rightarrow> bool" where
  "client_inv c \<longleftrightarrow>
     (\<forall>i < length (cl_utils c). slot_ok (cl_utils c ! i) (cl_pending c = Some i)
        (cl_releasing c = Some (AwaitMaking i)) (cl_releasing c = Some (Releasing i))) \<and>
     (\<forall>i. cl_pending c = Some i \<or> cl_releasing c = Some (AwaitMaking i) \<or> cl_releasing c = Some (Releasing i)
        \<longrightarrow> i < length (cl_utils c))"

lemma client_invD:
  assumes "client_inv c"
  shows "i < length (cl_utils c) \<Longrightarrow> slot_ok (cl_utils c ! i) (cl_pending c = Some i)
      (cl_releasing c = Some (AwaitMaking i)) (cl_releasing c = Some (Releasing i))"
    and "cl_pending c = Some i \<Longrightarrow> i < length (cl_utils c)"
    and "cl_releasing c = Some (AwaitMaking i) \<Longrightarrow> i < length (cl_utils c)"
    and "cl_releasing c = Some (Releasing i) \<Longrightarrow> i < length (cl_utils c)"
  using assms by (simp_all add: client_inv_def)

lemma share_utils_inv:
  assumes "client_inv c"
  shows "client_inv (share_utils c)"
proof (cases "cl_pending c")
  case None
  note ok = client_invD [OF assms]
  have "cl_releasing c \<noteq> Some (AwaitMaking (length (cl_utils c)))" "cl_releasing c \<noteq> Some (Releasing (length (cl_utils c)))"
    using ok(3,4) by blast+
  with None ok show ?thesis
    by (auto simp: client_inv_def share_utils_def nth_append less_Suc_eq)
qed (use assms in \<open>simp add: share_utils_def\<close>)

lemma client_inv_counts [simp]:
  "client_inv (c\<lparr>cl_waiting := n\<rparr>) = client_inv c" "client_inv (c\<lparr>cl_resuming := n\<rparr>) = client_inv c"
  by (simp_all add: client_inv_def)

text \<open>An event changes the status of one instance and what is pending or released.\<close>

lemma client_inv_update:
  assumes "client_inv c" "i < length (cl_utils c)"
    and "cl_utils c' = (cl_utils c)[i := st]"
    and "slot_ok st (cl_pending c' = Some i) (cl_releasing c' = Some (AwaitMaking i)) (cl_releasing c' = Some (Releasing i))"
    and "\<And>k. k \<noteq> i \<Longrightarrow> (cl_pending c' = Some k) = (cl_pending c = Some k) \<and>
      (cl_releasing c' = Some (AwaitMaking k)) = (cl_releasing c = Some (AwaitMaking k)) \<and>
      (cl_releasing c' = Some (Releasing k)) = (cl_releasing c = Some (Releasing k))"
  shows "client_inv c'"
  unfolding client_inv_def assms(3)
proof (intro conjI allI impI)
  fix k assume "k < length ((cl_utils c)[i := st])"
  then show "slot_ok ((cl_utils c)[i := st] ! k) (cl_pending c' = Some k)
      (cl_releasing c' = Some (AwaitMaking k)) (cl_releasing c' = Some (Releasing k))"
    using assms(4,5) client_invD(1) [OF assms(1)] by (cases "k = i") simp_all
next
  fix k assume "cl_pending c' = Some k \<or> cl_releasing c' = Some (AwaitMaking k) \<or> cl_releasing c' = Some (Releasing k)"
  then show "k < length ((cl_utils c)[i := st])"
    using assms(2,5) client_invD(2-4) [OF assms(1), of k] by (cases "k = i") auto
qed

lemma make_settles_inv:
  assumes "client_inv c" "i < length (cl_utils c)" "cl_utils c ! i = Making"
  shows "client_inv (c\<lparr>cl_utils := (cl_utils c)[i := Made]\<rparr>)"
    and "client_inv (c\<lparr>cl_utils := (cl_utils c)[i := MakeFailed e],
      cl_pending := (if cl_pending c = Some i then None else cl_pending c)\<rparr>)"
  using client_invD(1) [OF assms(1,2)] assms(3)
  by (auto intro!: client_inv_update [OF assms(1,2)])

lemma release_inv:
  assumes "client_inv c"
  shows "client_inv (release_utils c)"
proof (cases "cl_releasing c")
  case None
  show ?thesis
  proof (cases "cl_pending c")
    case (Some i)
    then have i: "i < length (cl_utils c)" using client_invD(2) [OF assms] by simp
    have rel: "release_utils c = c\<lparr>cl_pending := None, cl_releasing := Some (AwaitMaking i)\<rparr>"
      using None Some by (simp add: release_utils_def)
    have "slot_ok (cl_utils c ! i) False True False"
      using client_invD(1) [OF assms i] None Some by (simp add: slot_pending)
    then show ?thesis
      unfolding rel using None Some
      by (intro client_inv_update [OF assms i, where st = "cl_utils c ! i"]) auto
  qed (use None assms in \<open>simp add: release_utils_def client_inv_def\<close>)
qed (use assms in \<open>simp add: release_utils_def\<close>)

lemma release_continues_inv:
  assumes "client_inv c" "client_step ReleaseContinues c = Some c'"
  shows "client_inv c'"
proof -
  obtain i where rel: "cl_releasing c = Some (AwaitMaking i)"
    and c': "(cl_utils c ! i = Made \<and> c' = c\<lparr>cl_utils := (cl_utils c)[i := BeingReleased], cl_releasing := Some (Releasing i)\<rparr>) \<or>
      ((\<exists>e. cl_utils c ! i = MakeFailed e) \<and> c' = c\<lparr>cl_releasing := Some ReleaseEnding\<rparr>)"
    using assms(2) by (auto split: option.splits release_phase.splits utils_status.splits)
  have i: "i < length (cl_utils c)" using client_invD(3) [OF assms(1) rel] .
  note ok = client_invD(1) [OF assms(1) i]
  from c' show ?thesis
  proof
    assume "cl_utils c ! i = Made \<and> c' = c\<lparr>cl_utils := (cl_utils c)[i := BeingReleased], cl_releasing := Some (Releasing i)\<rparr>"
    with ok rel show ?thesis by (intro client_inv_update [OF assms(1) i, where st = BeingReleased]) auto
  next
    assume "(\<exists>e. cl_utils c ! i = MakeFailed e) \<and> c' = c\<lparr>cl_releasing := Some ReleaseEnding\<rparr>"
    with ok rel show ?thesis
      by (intro client_inv_update [OF assms(1) i, where st = "cl_utils c ! i"]) auto
  qed
qed

lemma release_settles_inv:
  assumes "client_inv c" "client_step (ReleaseSettles r) c = Some c'"
  shows "client_inv c'"
proof -
  consider i where "cl_releasing c = Some (Releasing i)" | "cl_releasing c = Some ReleaseEnding"
    using assms(2) by (auto simp: Let_def split: option.splits release_phase.splits)
  then show ?thesis
  proof cases
    case 1
    have i: "i < length (cl_utils c)" using client_invD(4) [OF assms(1) 1] .
    have "cl_utils c ! i = BeingReleased"
      using client_invD(1) [OF assms(1) i] 1 by (cases "cl_utils c ! i") auto
    with client_invD(1) [OF assms(1) i] 1 assms(2) show ?thesis
      by (intro client_inv_update [OF assms(1) i, where st = "case r of Inr _ \<Rightarrow> Released | Inl e \<Rightarrow> ReleaseFailed e"])
         (auto simp: Let_def split: sum.splits)
  next
    case 2
    with assms show ?thesis by (auto simp: client_inv_def Let_def split: if_splits)
  qed
qed

lemma client_step_inv:
  assumes "client_inv c" "client_step ev c = Some c'"
  shows "client_inv c'"
proof (cases ev)
  case GetUtils
  with assms show ?thesis by (auto simp: get_utils_def share_utils_inv split: if_splits)
next
  case GetResumes
  with assms show ?thesis by (auto simp: share_utils_inv split: if_splits)
next
  case (MakeSucceeds i)
  with assms show ?thesis by (auto simp: make_settles_inv(1) split: if_splits)
next
  case (MakeFails i e)
  with assms show ?thesis using make_settles_inv(2) [OF assms(1), of i e] by (auto split: if_splits)
next
  case Release
  with assms show ?thesis by (auto simp: release_inv)
next
  case ReleaseContinues
  with assms show ?thesis by (blast intro: release_continues_inv)
next
  case (ReleaseSettles r)
  with assms show ?thesis by (blast intro: release_settles_inv)
qed

lemma client_reachable_inv: "client_reachable c \<Longrightarrow> client_inv c"
proof (induction rule: client_reachable.induct)
  case created
  then show ?case by (simp add: client_inv_def new_client_def)
qed (rule client_step_inv)

text \<open>
  No instance leaks: whatever the interleaving of calls of getUtils and release with the results
  of making and releasing, every instance made or in the making is the pending one or the one the
  release under way waits for, so at most two are open; a call makes one only when none is
  pending and no release runs; and when nothing is pending or released, every instance ever made
  has been released or failed.
\<close>

theorem no_utils_leak:
  assumes "client_reachable c"
  shows "(\<forall>i < length (cl_utils c). open_status (cl_utils c ! i) \<longrightarrow>
        cl_pending c = Some i \<or> cl_releasing c = Some (AwaitMaking i)) \<and>
    length (filter open_status (cl_utils c)) \<le> 2 \<and>
    (cl_utils (get_utils c) \<noteq> cl_utils c \<longrightarrow> cl_pending c = None \<and> cl_releasing c = None) \<and>
    (cl_pending c = None \<and> cl_releasing c = None \<longrightarrow> list_all closed_status (cl_utils c))"
proof -
  note inv = client_invD [OF client_reachable_inv [OF assms]]
  have open_slot: "cl_pending c = Some i \<or> cl_releasing c = Some (AwaitMaking i)"
    if "i < length (cl_utils c)" "open_status (cl_utils c ! i)" for i
    using inv(1) [OF that(1)] that(2) by (cases "cl_utils c ! i") (auto simp: open_status_def)
  have "length (filter open_status (cl_utils c)) \<le> 2"
  proof -
    have "{i. i < length (cl_utils c) \<and> open_status (cl_utils c ! i)} \<subseteq>
        {case cl_pending c of Some i \<Rightarrow> i | None \<Rightarrow> 0, case cl_releasing c of Some (AwaitMaking i) \<Rightarrow> i | _ \<Rightarrow> 0}"
      using open_slot by fastforce
    from card_mono [OF _ this] show ?thesis
      by (simp add: length_filter_conv_card card_insert_if split: if_splits)
  qed
  moreover have "closed_status (cl_utils c ! i)"
    if "i < length (cl_utils c)" "cl_pending c = None" "cl_releasing c = None" for i
    using inv(1) [OF that(1)] that(2,3) by (cases "cl_utils c ! i") (auto simp: closed_status_def)
  moreover have "cl_pending c = None \<and> cl_releasing c = None" if "cl_utils (get_utils c) \<noteq> cl_utils c"
    using that by (auto simp: get_utils_def share_utils_def split: if_splits option.splits)
  ultimately show ?thesis
    using open_slot by (auto simp: list_all_length)
qed

text \<open>A release that started while the first instance was in the making; a call waits for it.\<close>

fun client_run :: "client_event list \<Rightarrow> client \<Rightarrow> client option" where
  "client_run [] c = Some c"
| "client_run (e # es) c = (case client_step e c of None \<Rightarrow> None | Some c' \<Rightarrow> client_run es c')"

lemma client_run_reachable:
  "client_run es c = Some c' \<Longrightarrow> client_reachable c \<Longrightarrow> client_reachable c'"
  by (induction es c rule: client_run.induct) (auto split: option.splits intro: client_reachable.step)

definition sample_client :: client where
  "sample_client = \<lparr>cl_utils = [Released, Making], cl_pending = Some 1, cl_releasing = None,
     cl_waiting = 0, cl_resuming = 0\<rparr>"

theorem no_utils_leak_witness:
  "cl_utils sample_client = [Released, Making] \<and> length (filter open_status (cl_utils sample_client)) \<le> 2"
proof -
  have "client_run [GetUtils, Release, GetUtils, MakeSucceeds 0, ReleaseContinues, ReleaseSettles (Inr ()), GetResumes]
      new_client = Some sample_client"
    by code_simp
  then have "client_reachable sample_client"
    by (rule client_run_reachable) (rule client_reachable.created)
  from no_utils_leak [OF this] show ?thesis by (simp add: sample_client_def)
qed

section \<open>Tables\<close>

definition library_tables :: "string list" where
  "library_tables = [''bgw_idempotency_keys'', ''bgw_worker_heartbeats'', ''bgw_job_outcomes'',
     ''bgw_wait_groups'', ''bgw_waits'']"

definition has_tables :: "string list \<Rightarrow> bool" where
  "has_tables existing \<longleftrightarrow> list_all (\<lambda>t. t \<in> set existing) library_tables"

text \<open>
  \<open>migrate\<close>: first the utilities, which migrate Graphile's own schema, then one implicit
  transaction that creates the missing tables, or none when the database refuses it.
\<close>

definition migrate :: "unit res \<Rightarrow> unit res \<Rightarrow> string list \<Rightarrow> unit res \<times> string list" where
  "migrate utils ddl existing =
     (case bind_res utils (\<lambda>_. ddl) of
        Inl e \<Rightarrow> (Inl e, existing)
      | Inr _ \<Rightarrow> (Inr (), existing @ filter (\<lambda>t. t \<notin> set existing) library_tables))"

lemma migrate_has_tables: "migrate utils ddl existing = (Inr (), existing') \<Longrightarrow> has_tables existing'"
  by (auto simp: migrate_def has_tables_def list_all_iff split: sum.splits)

text \<open>\<open>reschedule_jobs\<close> of Graphile is a parameter; without ids it is not called.\<close>

definition retry_jobs :: "(nat list \<Rightarrow> nat list res) \<Rightarrow> nat list \<Rightarrow> string list res" where
  "retry_jobs reschedule ids =
     (if ids = [] then Inr [] else bind_res (reschedule ids) (\<lambda>rows. Inr (map show_nat rows)))"

end
