(* ===== verification/CreateJob.thy ===== *)
theory CreateJob
  imports JobOptions
begin

text \<open>
  Enqueueing: \<open>bindCreateJob\<close> of \<^verbatim>\<open>src/src/create-job.ts\<close>, the enqueue adapter of
  \<^verbatim>\<open>src/src/client.ts\<close> and \<open>enqueueInTransaction\<close> of \<^verbatim>\<open>src/src/prisma.ts\<close>.
  Spans, attributes and the failure observer change nothing here; Producing adds them. What the
  tracer gives as the active trace parent is a field of the settings, as is the answer of the
  \<open>shouldSkipEnqueue\<close> hook.
\<close>

section \<open>Settings\<close>

datatype payload_mode = Strict | JsonCompat

record 'h settings =
  cs_queues :: "'h queue list"
  cs_default_max :: jsnum
  cs_schema :: string
  cs_payload_mode :: payload_mode
  cs_validate :: "bool option"
  cs_tx_mode :: "job_key_mode option"
  cs_skip :: bool
  cs_active :: "string option res"
  cs_parse_date :: "string \<Rightarrow> int option"

definition check_queue :: "'h settings \<Rightarrow> 'h queue \<Rightarrow> unit res" where
  "check_queue st q =
     bind_res (guard_res (q_input_schema q \<noteq> None \<or> q_cron q \<noteq> None)
       (PlainTypeError (''Queue '' @ quoted (q_name q) @ '' requires an inputSchema or cron schedule''))) (\<lambda>_.
     bind_res (resolve_enqueue_spec (cs_parse_date st) q None (cs_default_max st) False None) (\<lambda>_.
     if q_cron q = None then Inr ()
     else bind_res (resolve_enqueue_spec (cs_parse_date st) q None (cs_default_max st) True None) (\<lambda>_.
          case Option.bind (q_cron_options q) co_backfill_period of
            None \<Rightarrow> Inr ()
          | Some p \<Rightarrow> bind_res (assert_integer p ''backfillPeriod'' 0 max_safe_integer) (\<lambda>_. Inr ()))))"

definition bind_create_job :: "'h settings \<Rightarrow> unit res" where
  "bind_create_job st =
     bind_res (assert_unique_queue_names (cs_queues st)) (\<lambda>_.
     bind_res (assert_integer (cs_default_max st) ''defaultMaxAttempts'' 1 32767) (\<lambda>_.
     bind_res (assert_valid_schema_name (cs_schema st)) (\<lambda>_.
     bind_res (map_res (check_queue st) (cs_queues st)) (\<lambda>_. Inr ()))))"

definition find_queue :: "'h settings \<Rightarrow> string \<Rightarrow> 'h queue res" where
  "find_queue st name =
     (case find_row (\<lambda>q. q_name q = name) (cs_queues st) of
        Some q \<Rightarrow> Inr q
      | None \<Rightarrow> Inl (UnknownQueueError name (map q_name (cs_queues st))))"

section \<open>Preparing an input\<close>

fun at_index :: "nat option \<Rightarrow> issue \<Rightarrow> issue" where
  "at_index None i = i"
| "at_index (Some n) (p, m) = (PathIndex n # p, m)"

definition parse_queue_payload :: "'h queue \<Rightarrow> json option \<Rightarrow> nat option \<Rightarrow> jsv option res" where
  "parse_queue_payload q data index =
     (case q_input_schema q of
        None \<Rightarrow> Inr None
      | Some s \<Rightarrow> (case s (value_of data) of
            Inl issues \<Rightarrow> Inl (JobValidationError (q_name q) (map (at_index index) issues) PayloadSubject)
          | Inr v \<Rightarrow> Inr (Some v)))"

definition prepare ::
  "'h settings \<Rightarrow> 'h queue \<Rightarrow> jsv \<Rightarrow> job_options option \<Rightarrow> nat option \<Rightarrow> json option res" where
  "prepare st q data opts index =
     bind_res (case cs_payload_mode st of JsonCompat \<Rightarrow> to_json_compat (fst data) (snd data)
                                       | Strict \<Rightarrow> Inr data) (\<lambda>wire.
     bind_res (assert_json_value (fst wire) (snd wire) True) (\<lambda>_.
     bind_res (json_snapshot (fst wire) (snd wire)) (\<lambda>snapshot.
     bind_res (if nullish_else (nullish (Option.bind opts jo_validate) (cs_validate st)) True
               then parse_queue_payload q snapshot index else Inr None) (\<lambda>_.
     Inr snapshot))))"

section \<open>One job\<close>

definition spec_of :: "string \<Rightarrow> json \<Rightarrow> enqueue_spec \<Rightarrow> job_spec" where
  "spec_of task payload s = \<lparr>js_task = task, js_payload = payload, js_queue_name = es_queue_name s,
     js_run_at = es_run_at s, js_max_attempts = Some (es_max_attempts s), js_job_key = es_job_key s,
     js_priority = es_priority s, js_flags = es_flags s, js_mode = es_mode s,
     js_idem_key = es_idem_key s, js_idem_ttl = es_idem_ttl s\<rparr>"

text \<open>The task, the input snapshot and the spec; the input of a cron task is undefined.\<close>

definition resolve_one ::
  "'h settings \<Rightarrow> string \<Rightarrow> jsv \<Rightarrow> job_options option \<Rightarrow> bool \<Rightarrow> job_key_mode option \<Rightarrow>
   (string \<times> json option \<times> enqueue_spec) res" where
  "resolve_one st name data opts cron default_mode =
     bind_res (find_queue st name) (\<lambda>q.
     bind_res (guard_res (\<not> (cron \<and> q_cron q = None))
         (plain_error (quoted name @ '' is not a cron queue''))) (\<lambda>_.
     let task = (if cron \<and> get_queue_type q = CronInit then name @ cron_init_suffix else name);
         no_input = (cron \<or> get_queue_type q = Cron) in
     bind_res (if no_input then Inr None else prepare st q data opts None) (\<lambda>payload.
     bind_res (if no_input then Inr None else derive_options q payload) (\<lambda>derived.
     bind_res (resolve_enqueue_spec (cs_parse_date st) q opts (cs_default_max st) no_input derived) (\<lambda>s.
     Inr (task, payload,
          if es_job_key s \<noteq> None then s\<lparr>es_mode := nullish (es_mode s) default_mode\<rparr> else s))))))"

section \<open>A batch\<close>

text \<open>
  The loop over the items, with the keys seen (and the index of their item) and the batch's one
  key mode.
\<close>

definition batch_mode_error :: "nat \<Rightarrow> string \<Rightarrow> js_error" where
  "batch_mode_error index mode = plain_error (''createJobs item '' @ show_nat index @ '' uses jobKeyMode '' @
     quoted mode @ ''; a batch needs one of '' @ quoted ''replace'' @ '' or '' @ quoted ''preserve_run_at'' @
     '' for every keyed item'')"

fun mode_text :: "job_key_mode \<Rightarrow> string" where
  "mode_text Replace = ''replace''"
| "mode_text PreserveRunAt = ''preserve_run_at''"
| "mode_text UnsafeDedupe = ''unsafe_dedupe''"

fun check_batch_key ::
  "(string \<times> nat) list \<Rightarrow> job_key_mode option \<Rightarrow> nat \<Rightarrow> enqueue_spec \<Rightarrow>
   ((string \<times> nat) list \<times> job_key_mode option) res" where
  "check_batch_key keys key_mode index s =
     (case es_job_key s of
        None \<Rightarrow> Inr (keys, key_mode)
      | Some key \<Rightarrow>
          let mode = nullish_else (es_mode s) Replace in
          if mode = UnsafeDedupe \<or> (key_mode \<noteq> None \<and> key_mode \<noteq> Some mode)
          then Inl (batch_mode_error index (mode_text mode))
          else (case map_of keys key of
                  Some first \<Rightarrow> Inl (plain_error (''createJobs items '' @ show_nat first @ '' and '' @
                    show_nat index @ '' share jobKey '' @ quoted key))
                | None \<Rightarrow> Inr ((key, index) # keys, Some mode)))"

definition resolve_item ::
  "'h settings \<Rightarrow> 'h queue \<Rightarrow> job_options option \<Rightarrow> nat \<Rightarrow> jsv \<Rightarrow> (json option \<times> enqueue_spec) res" where
  "resolve_item st q opts index item =
     bind_res (prepare st q item opts (Some index)) (\<lambda>payload.
     bind_res (derive_options q payload) (\<lambda>derived.
     bind_res (resolve_enqueue_spec (cs_parse_date st) q opts (cs_default_max st) False derived) (\<lambda>s.
     Inr (payload, s))))"

fun resolve_items ::
  "'h settings \<Rightarrow> 'h queue \<Rightarrow> job_options option \<Rightarrow> (string \<times> nat) list \<Rightarrow> job_key_mode option \<Rightarrow>
   nat \<Rightarrow> jsv list \<Rightarrow> ((json option \<times> enqueue_spec) list \<times> job_key_mode option) res" where
  "resolve_items st q opts keys key_mode index [] = Inr ([], key_mode)"
| "resolve_items st q opts keys key_mode index (item # items) =
     bind_res (resolve_item st q opts index item) (\<lambda>(payload, s).
     bind_res (check_batch_key keys key_mode index s) (\<lambda>(keys', key_mode').
     bind_res (resolve_items st q opts keys' key_mode' (Suc index) items) (\<lambda>(rest, final_mode).
     Inr ((payload, s\<lparr>es_mode := None\<rparr>) # rest, final_mode))))"

definition has_batch_key :: "job_options option \<Rightarrow> bool" where
  "has_batch_key opts = (case opts of None \<Rightarrow> False
     | Some o' \<Rightarrow> jo_mode o' \<noteq> None \<or> jo_job_key o' \<noteq> None \<or> jo_idem_key o' \<noteq> None)"

text \<open>The specs without trace context, whether run times are preserved, and whether a key is idempotent.\<close>

definition resolve_many ::
  "'h settings \<Rightarrow> string \<Rightarrow> jsv list \<Rightarrow> job_options option \<Rightarrow>
   ((json option \<times> enqueue_spec) list \<times> bool \<times> bool) res" where
  "resolve_many st name data opts =
     bind_res (find_queue st name) (\<lambda>q.
     bind_res (guard_res (q_input_schema q \<noteq> None)
         (plain_error (''createJobs cannot enqueue cron queue '' @ quoted name @
            ''; use createJob or triggerCron''))) (\<lambda>_.
     bind_res (guard_res (\<not> has_batch_key opts)
         (plain_error (''createJobs cannot use jobKey, jobKeyMode or idempotencyKey; '' @
            ''derive per-item keys with deriveJobOptions''))) (\<lambda>_.
     bind_res (resolve_enqueue_spec (cs_parse_date st) q opts (cs_default_max st) False None) (\<lambda>_.
     bind_res (resolve_items st q opts [] None 0 data) (\<lambda>(specs, key_mode).
     Inr (specs, key_mode = Some PreserveRunAt, list_ex (\<lambda>(_, s). es_idem_key s \<noteq> None) specs))))))"

definition with_batch_key_mode :: "bool \<Rightarrow> job_spec list \<Rightarrow> job_spec list" where
  "with_batch_key_mode preserve specs =
     map (\<lambda>s. if preserve \<and> js_job_key s \<noteq> None then s\<lparr>js_mode := Some PreserveRunAt\<rparr> else s) specs"

definition traced_specs :: "'h settings \<Rightarrow> string \<Rightarrow> (json option \<times> enqueue_spec) list \<Rightarrow> job_spec list" where
  "traced_specs st name specs =
     map (\<lambda>(payload, s). spec_of name (inject_trace_context payload (cs_active st)) s) specs"

section \<open>Enqueueing through an adapter\<close>

text \<open>
  \<open>EnqueueAdapter\<close>: the id of the row of \<open>addJob\<close>, the ids of \<open>addJobs\<close> in spec order, and,
  where the adapter has it, the ids of \<open>addIdempotentJobs\<close>.
\<close>

record adapter =
  ad_add_job :: "job_spec \<Rightarrow> nat tx"
  ad_add_jobs :: "job_spec list \<Rightarrow> bool \<Rightarrow> nat list tx"
  ad_add_idempotent :: "(job_spec list \<Rightarrow> (nat option \<times> bool) list tx) option"

definition enqueue_idempotent :: "adapter \<Rightarrow> job_spec list \<Rightarrow> (nat option \<times> bool) list tx" where
  "enqueue_idempotent ad specs =
     (case ad_add_idempotent ad of
        None \<Rightarrow> tx_throw (PlainTypeError ''idempotencyKey requires an enqueue adapter with addIdempotentJobs'')
      | Some f \<Rightarrow> f specs)"

text \<open>Nothing when the hook says to skip.\<close>

definition enqueue_one ::
  "'h settings \<Rightarrow> adapter \<Rightarrow> string \<Rightarrow> jsv \<Rightarrow> job_options option \<Rightarrow> bool \<Rightarrow> nat option tx" where
  "enqueue_one st ad name data opts cron =
     (if cs_skip st then tx_return None
      else tx_bind (tx_lift (resolve_one st name data opts cron None)) (\<lambda>(task, payload, s).
        let spec = spec_of task (inject_trace_context payload (cs_active st)) s in
        if es_idem_key s \<noteq> None
        then tx_bind (enqueue_idempotent ad [spec]) (\<lambda>jobs.
               case jobs of
                 [] \<Rightarrow> tx_throw (plain_error ''Idempotent enqueue returned no job'')
               | (i, _) # _ \<Rightarrow> tx_return i)
        else tx_bind (ad_add_job ad spec) (\<lambda>i. tx_return (Some i))))"

definition enqueue_many ::
  "'h settings \<Rightarrow> adapter \<Rightarrow> string \<Rightarrow> jsv list \<Rightarrow> job_options option \<Rightarrow> nat option list tx" where
  "enqueue_many st ad name data opts =
     (if cs_skip st then tx_return []
      else tx_bind (tx_lift (resolve_many st name data opts)) (\<lambda>(specs, preserve, idempotent).
        let traced = traced_specs st name specs in
        if specs = [] then tx_return []
        else if idempotent
        then tx_bind (enqueue_idempotent ad (with_batch_key_mode preserve traced)) (\<lambda>jobs.
               tx_return (map fst jobs))
        else tx_bind (ad_add_jobs ad traced preserve) (\<lambda>ids. tx_return (map Some ids))))"

section \<open>Prepared statements\<close>

record prepared_job =
  pj_queue :: string
  pj_statement :: statement
  pj_count :: nat
  pj_skipped :: bool

definition skipped_job :: "string \<Rightarrow> prepared_job" where
  "skipped_job name = \<lparr>pj_queue = name, pj_statement = SelectNothing, pj_count = 0, pj_skipped = True\<rparr>"

definition prepare_one ::
  "'h settings \<Rightarrow> string \<Rightarrow> jsv \<Rightarrow> job_options option \<Rightarrow> job_key_mode option \<Rightarrow> prepared_job res" where
  "prepare_one st name data opts default_mode =
     (if cs_skip st then Inr (skipped_job name)
      else bind_res (resolve_one st name data opts False default_mode) (\<lambda>(task, payload, s).
        let spec = spec_of task (inject_trace_context payload (cs_active st)) s in
        bind_res (if es_idem_key s = None then add_job_sql (cs_schema st) spec
                  else add_idempotent_jobs_sql (cs_schema st) [spec]) (\<lambda>stmt.
        Inr \<lparr>pj_queue = task, pj_statement = stmt, pj_count = 1, pj_skipped = False\<rparr>)))"

definition prepare_many ::
  "'h settings \<Rightarrow> string \<Rightarrow> jsv list \<Rightarrow> job_options option \<Rightarrow> prepared_job res" where
  "prepare_many st name data opts =
     (if cs_skip st then Inr (skipped_job name)
      else bind_res (resolve_many st name data opts) (\<lambda>(specs, preserve, idempotent).
        if specs = [] then Inr (skipped_job name\<lparr>pj_skipped := False\<rparr>)
        else let traced = traced_specs st name specs in
          bind_res (if idempotent
                    then add_idempotent_jobs_sql (cs_schema st) (with_batch_key_mode preserve traced)
                    else add_jobs_sql (cs_schema st) traced preserve) (\<lambda>stmt.
          Inr \<lparr>pj_queue = name, pj_statement = stmt, pj_count = length specs, pj_skipped = False\<rparr>)))"

section \<open>In the caller's transaction\<close>

text \<open>The rows a raw client gives, of any shape; \<open>None\<close> is a null id.\<close>

fun row_id :: "jsval \<Rightarrow> string option option" where
  "row_id (PlainObject kvs) =
     (case map_of kvs ''id'' of Some (Text s) \<Rightarrow> Some (Some s) | Some Null \<Rightarrow> Some None | _ \<Rightarrow> None)"
| "row_id _ = None"

definition job_ids :: "string \<Rightarrow> jsval \<Rightarrow> string option list res" where
  "job_ids name rows =
     (case rows of
        Array vs \<Rightarrow> map_res (\<lambda>v. case row_id v of
            Some i \<Rightarrow> Inr i
          | None \<Rightarrow> Inl (PlainTypeError (''Enqueue of '' @ quoted name @
              '' expected every row to have a text or null '' @ quoted ''id''))) vs
      | _ \<Rightarrow> Inl (PlainTypeError (''Enqueue of '' @ quoted name @
          '' expected $queryRawUnsafe to resolve to an array of rows'')))"

definition enqueue_in_transaction ::
  "(statement \<Rightarrow> jsval tx) \<Rightarrow> prepared_job \<Rightarrow> bool \<Rightarrow> string list tx" where
  "enqueue_in_transaction query p required =
     (if pj_skipped p \<and> required then tx_throw (EnqueueSkippedError (pj_queue p))
      else if pj_count p = 0 then tx_return []
      else tx_bind (query (pj_statement p)) (\<lambda>rows.
           tx_bind (tx_lift (job_ids (pj_queue p) rows)) (\<lambda>ids.
           let found = map the (filter (\<lambda>i. i \<noteq> None) ids) in
           if length found \<noteq> pj_count p
           then tx_throw (EnqueueCountError (pj_queue p) (int (pj_count p)) (int (length found)))
           else tx_return found)))"

definition enqueue_one_in_transaction ::
  "'h settings \<Rightarrow> (statement \<Rightarrow> jsval tx) \<Rightarrow> string \<Rightarrow> jsv \<Rightarrow> job_options option \<Rightarrow> bool \<Rightarrow> string option tx" where
  "enqueue_one_in_transaction st query task data opts required =
     tx_bind (tx_lift (prepare_one st task data opts (cs_tx_mode st))) (\<lambda>p.
     tx_bind (enqueue_in_transaction query p required) (\<lambda>ids.
     tx_return (case ids of [] \<Rightarrow> None | i # _ \<Rightarrow> Some i)))"

section \<open>The pool's own adapter\<close>

text \<open>
  \<open>createWorkerClient().enqueue\<close>: each call is one statement; a row without an id, or fewer rows
  than specs, is an error.
\<close>

definition client_add_job :: "backend \<Rightarrow> string \<Rightarrow> job_spec \<Rightarrow> nat tx" where
  "client_add_job b schema s =
     tx_bind (tx_lift (add_job_sql schema s)) (\<lambda>stmt.
     tx_bind (run_statement b stmt) (\<lambda>rows.
     case rows of
       Some i # _ \<Rightarrow> tx_return i
     | _ \<Rightarrow> tx_throw (EnqueueCountError (js_task s) 1 0)))"

definition client_add_jobs :: "backend \<Rightarrow> string \<Rightarrow> job_spec list \<Rightarrow> bool \<Rightarrow> nat list tx" where
  "client_add_jobs b schema specs preserve =
     (if specs = [] then tx_return []
      else tx_bind (tx_lift (add_jobs_sql schema specs preserve)) (\<lambda>stmt.
           tx_bind (run_statement b stmt) (\<lambda>rows.
           if length rows \<noteq> length specs
           then tx_throw (EnqueueCountError (js_task (hd specs)) (int (length specs)) (int (length rows)))
           else tx_return (map the rows))))"

definition client_add_idempotent :: "backend \<Rightarrow> string \<Rightarrow> job_spec list \<Rightarrow> (nat option \<times> bool) list tx" where
  "client_add_idempotent b schema specs =
     (if specs = [] then tx_return []
      else tx_bind (tx_lift (add_idempotent_jobs_sql schema specs)) (\<lambda>_.
           tx_bind (transaction (add_idempotent_items (be_add_job b) specs)) (\<lambda>rows.
           if length rows \<noteq> length specs
           then tx_throw (EnqueueCountError (js_task (hd specs)) (int (length specs)) (int (length rows)))
           else tx_return rows)))"

definition client_adapter :: "backend \<Rightarrow> string \<Rightarrow> adapter" where
  "client_adapter b schema = \<lparr>ad_add_job = client_add_job b schema, ad_add_jobs = client_add_jobs b schema,
     ad_add_idempotent = Some (client_add_idempotent b schema)\<rparr>"

end
