(* ===== verification/Enqueueing.thy ===== *)
theory Enqueueing
  imports CreateJob
begin

text \<open>
  What enqueueing guarantees: the precedence and bounds of options, the rules of a batch, the
  count of ids, and that a prepared statement does what the immediate call does
  (\<^verbatim>\<open>src/src/create-job.ts\<close>, \<^verbatim>\<open>src/src/client.ts\<close>, \<^verbatim>\<open>src/src/prisma.ts\<close>).
\<close>

section \<open>Options\<close>


definition sample_queue :: "unit queue" where
  "sample_queue = (bare_queue ''mail'')\<lparr>q_input_schema := Some Inr, q_serial := Some (SerialFlag True),
     q_max_attempts := Some (Num 7)\<rparr>"


section \<open>Batches\<close>

definition batch_keys :: "(json option \<times> enqueue_spec) list \<Rightarrow> string list" where
  "batch_keys specs = List.map_filter (\<lambda>(_, s). es_job_key s) specs"

lemma batch_keys_simps [simp]:
  "batch_keys [] = []"
  "batch_keys ((p, s) # specs) =
     (case es_job_key s of None \<Rightarrow> batch_keys specs | Some k \<Rightarrow> k # batch_keys specs)"
  by (simp_all add: batch_keys_def List.map_filter_def split: option.split)

lemma resolve_items_Inr:
  assumes "resolve_items st q opts keys mode n items = Inr (specs, mode')"
  shows "length specs = length items \<and> distinct (batch_keys specs) \<and>
    fst ` set keys \<inter> set (batch_keys specs) = {} \<and>
    (mode \<noteq> None \<longrightarrow> mode' = mode) \<and> (mode \<noteq> Some UnsafeDedupe \<longrightarrow> mode' \<noteq> Some UnsafeDedupe) \<and>
    list_all (\<lambda>(_, s). es_mode s = None \<and> 1 \<le> es_max_attempts s \<and> es_max_attempts s \<le> 32767) specs"
  using assms
proof (induction items arbitrary: keys mode n specs)
  case (Cons item items)
  from Cons.prems obtain payload s keys2 mode2 rest where
    item: "resolve_item st q opts n item = Inr (payload, s)"
    and key: "check_batch_key keys mode n s = Inr (keys2, mode2)"
    and rest: "resolve_items st q opts keys2 mode2 (Suc n) items = Inr (rest, mode')"
    and specs: "specs = (payload, s\<lparr>es_mode := None\<rparr>) # rest"
    by (auto simp: res_simps split: prod.splits)
  have bounds: "1 \<le> es_max_attempts s" "es_max_attempts s \<le> 32767"
    using item by (auto simp: resolve_item_def res_simps dest!: resolve_Inr(1))
  note IH = Cons.IH [OF rest]
  show ?case
  proof (cases "es_job_key s")
    case None
    with key IH bounds specs show ?thesis by simp
  next
    case (Some k)
    with key have k2: "keys2 = (k, n) # keys" "mode2 = Some (nullish_else (es_mode s) Replace)"
      "k \<notin> fst ` set keys" "mode \<noteq> None \<longrightarrow> mode2 = mode" "mode2 \<noteq> Some UnsafeDedupe"
      by (auto simp: Let_def map_of_eq_None_iff split: if_splits option.splits)
    with IH bounds specs Some show ?thesis by auto
  qed
qed simp

lemma resolve_many_Inr:
  assumes "resolve_many st name data opts = Inr (specs, preserve, idempotent)"
  shows "length specs = length data \<and> distinct (batch_keys specs) \<and>
    list_all (\<lambda>(_, s). es_mode s = None \<and> 1 \<le> es_max_attempts s \<and> es_max_attempts s \<le> 32767) specs"
  using assms
  by (auto simp: resolve_many_def res_simps split: prod.splits dest!: resolve_items_Inr)

lemma traced_spec_keys:
  "filter (\<lambda>k. k \<noteq> None) (map js_job_key (traced_specs st name specs)) = map Some (batch_keys specs)"
  by (induction specs) (auto simp: traced_specs_def spec_of_def split: option.split)

text \<open>
  An accepted batch is one the batch statement can serve: one spec per item, in order, with no
  job key twice (what the matching of rows needs), a bounded number of attempts each, and no
  per-item mode left, the keyed items agreeing on one.
\<close>

theorem batch_accepted:
  assumes "resolve_many st name data opts = Inr (specs, preserve, idempotent)"
  shows "length (traced_specs st name specs) = length data \<and>
    distinct (filter (\<lambda>k. k \<noteq> None) (map js_job_key (traced_specs st name specs))) \<and>
    list_all (\<lambda>s. js_task s = name \<and> js_mode s = None \<and>
      (case js_max_attempts s of None \<Rightarrow> False | Some m \<Rightarrow> 1 \<le> m \<and> m \<le> 32767)) (traced_specs st name specs)"
  using resolve_many_Inr [OF assms] unfolding traced_spec_keys
  by (auto simp: traced_specs_def spec_of_def distinct_map list_all_iff)

definition sample_settings :: "unit settings" where
  "sample_settings = \<lparr>cs_queues = [sample_queue], cs_default_max = Num 4, cs_schema = ''graphile_worker'',
     cs_payload_mode = Strict, cs_validate = None, cs_tx_mode = None, cs_skip = False,
     cs_active = Inr None, cs_parse_date = (\<lambda>_. None)\<rparr>"

theorem batch_accepted_witness:
  "\<exists>specs preserve idempotent.
    resolve_many sample_settings ''mail'' [([], GNull), ([], GStr ''x'')] None = Inr (specs, preserve, idempotent) \<and>
    length (traced_specs sample_settings ''mail'' specs) = 2 \<and>
    distinct (filter (\<lambda>k. k \<noteq> None) (map js_job_key (traced_specs sample_settings ''mail'' specs)))"
proof -
  let ?r = "resolve_many sample_settings ''mail'' [([], GNull), ([], GStr ''x'')] None"
  have "case ?r of Inl _ \<Rightarrow> False | Inr s \<Rightarrow> True" by code_simp
  then obtain specs preserve idempotent where s: "?r = Inr (specs, preserve, idempotent)"
    by (cases ?r) auto
  from batch_accepted [OF s] s show ?thesis by auto
qed

section \<open>Adapters\<close>

text \<open>What \<open>enqueueMany\<close> relies on of its adapter: as many results as specs, or an error.\<close>

locale counted_adapter =
  fixes ad :: adapter
  assumes jobs_counted: "ad_add_jobs ad specs preserve d = (Inr ids, d') \<Longrightarrow> length ids = length specs"
    and idempotent_counted: "enqueue_idempotent ad specs d = (Inr rows, d') \<Longrightarrow> length rows = length specs"
begin

lemma many_counted:
  assumes "enqueue_many st ad name data opts d = (Inr ids, d')"
  shows "if cs_skip st then ids = [] \<and> d' = d else length ids = length data"
proof (cases "cs_skip st")
  case True
  with assms show ?thesis by (simp add: enqueue_many_def tx_simps)
next
  case False
  with assms obtain specs preserve idempotent where
    many: "resolve_many st name data opts = Inr (specs, preserve, idempotent)"
    and run: "(let traced = traced_specs st name specs in
        if specs = [] then tx_return []
        else if idempotent
        then tx_bind (enqueue_idempotent ad (with_batch_key_mode preserve traced)) (\<lambda>jobs. tx_return (map fst jobs))
        else tx_bind (ad_add_jobs ad traced preserve) (\<lambda>ids. tx_return (map Some ids))) d = (Inr ids, d')"
    unfolding enqueue_many_def by (auto simp: tx_bind_Inr tx_lift_def)
  have "length ids = length specs"
    using run jobs_counted idempotent_counted
    by (auto simp: Let_def tx_bind_Inr tx_return_def traced_specs_def with_batch_key_mode_def split: if_splits)
  with False resolve_many_Inr [OF many] show ?thesis by simp
qed

end

lemma run_add_jobs_sql:
  assumes "add_jobs_sql schema specs preserve = Inr stmt" "run_statement b stmt d = (Inr ids, d')"
  shows "None \<notin> set ids"
  using assms
  by (auto simp: add_jobs_sql_def res_simps transaction_Inr tx_bind_Inr tx_return_def)

interpretation client: counted_adapter "client_adapter b schema"
proof unfold_locales
  show "length ids = length specs"
    if "ad_add_jobs (client_adapter b schema) specs preserve d = (Inr ids, d')" for specs preserve d ids d'
    using that by (auto simp: client_adapter_def client_add_jobs_def tx_bind_Inr tx_return_def tx_throw_def
        split: if_splits)
  show "length rows = length specs"
    if "enqueue_idempotent (client_adapter b schema) specs d = (Inr rows, d')" for specs d rows d'
    using that by (auto simp: enqueue_idempotent_def client_adapter_def client_add_idempotent_def
        tx_bind_Inr tx_return_def tx_throw_def split: if_splits)
qed

text \<open>
  A batch enqueue through the pool's adapter gives one id per item or fails: a race on a job key
  that makes Graphile return fewer rows is an error, never a short list; and a skipped enqueue
  gives no ids and leaves the database alone.
\<close>

theorem enqueue_many_counted:
  assumes "enqueue_many st (client_adapter b schema) name data opts d = (Inr ids, d')"
  shows "if cs_skip st then ids = [] \<and> d' = d else length ids = length data"
  using assms by (rule client.many_counted)

definition sample_backend :: backend where
  "sample_backend = \<lparr>be_add_job = sample_add_job,
     be_add_jobs = (\<lambda>specs _ d. (Inr (map (\<lambda>(i, s). added_row (args_of s) (d\<lparr>db_jobs := []\<rparr>) \<lparr>jr_id := i\<rparr>)
        (enumerate 100 specs)), d)),
     be_content_text = (\<lambda>c. if ct_payload c = JNull then ''n'' else ''t''), be_time = (\<lambda>_. 0)\<rparr>"

theorem enqueue_many_counted_witness:
  "\<exists>ids d'. enqueue_many sample_settings (client_adapter sample_backend ''graphile_worker'') ''mail''
      [([], GNull), ([], GStr ''x'')] None sample_db = (Inr ids, d') \<and> length ids = 2"
proof -
  let ?r = "enqueue_many sample_settings (client_adapter sample_backend ''graphile_worker'') ''mail''
      [([], GNull), ([], GStr ''x'')] None sample_db"
  have "case fst ?r of Inl _ \<Rightarrow> False | Inr s \<Rightarrow> True" by code_simp
  then obtain ids where "fst ?r = Inr ids" by (cases "fst ?r") auto
  then have eq: "?r = (Inr ids, snd ?r)" by (metis prod.collapse)
  have "\<not> cs_skip sample_settings" by (simp add: sample_settings_def)
  with enqueue_many_counted [OF eq] eq show ?thesis by auto
qed

section \<open>Prepared statements\<close>

lemma idempotent_items_length:
  "add_idempotent_items aj specs d = (Inr rows, d') \<Longrightarrow> length rows = length specs"
  by (induction specs arbitrary: d rows) (auto simp: tx_bind_Inr tx_return_def)

text \<open>The id a caller takes from the rows of a prepared statement for one job.\<close>

definition run_prepared :: "backend \<Rightarrow> prepared_job \<Rightarrow> nat option tx" where
  "run_prepared b p = tx_bind (run_statement b (pj_statement p)) (\<lambda>rows.
     tx_return (case rows of [] \<Rightarrow> None | i # _ \<Rightarrow> i))"

lemma singleton_idempotent:
  "transaction (add_idempotent_items aj [s]) d =
     (case transaction (add_idempotent_item aj s) d of (Inl e, d') \<Rightarrow> (Inl e, d') | (Inr x, d') \<Rightarrow> (Inr [x], d'))"
  by (simp add: transaction_def tx_simps split: prod.split sum.split)

lemma transaction_map:
  "transaction (tx_bind m (\<lambda>x. tx_return (f x))) d =
     (case transaction m d of (Inl e, d') \<Rightarrow> (Inl e, d') | (Inr x, d') \<Rightarrow> (Inr (f x), d'))"
  by (simp add: transaction_def tx_simps split: prod.split sum.split)

text \<open>
  Preparing and then running a job's statement is the same as enqueueing it at once through the
  pool's adapter: for every queue and options it gives the same id, the same error and the same
  database, as long as \<open>add_job\<close> gives the id of the row it makes.
\<close>

theorem prepare_equals_enqueue:
  assumes "\<And>a d. fst (be_add_job b a d) \<noteq> Inr None"
  shows "tx_bind (tx_lift (prepare_one st name data opts None)) (run_prepared b) d =
    enqueue_one st (client_adapter b (cs_schema st)) name data opts False d"
proof (cases "cs_skip st \<or> \<not> is_ok (resolve_one st name data opts False None)")
  case True
  then show ?thesis
    by (cases "resolve_one st name data opts False None")
       (auto simp: prepare_one_def enqueue_one_def tx_simps run_prepared_def skipped_job_def)
next
  case False
  then obtain task payload s where r: "resolve_one st name data opts False None = Inr (task, payload, s)"
    and skip: "\<not> cs_skip st" by (auto simp: is_ok_iff)
  let ?spec = "spec_of task (inject_trace_context payload (cs_active st)) s"
  show ?thesis
  proof (cases "es_idem_key s")
    case None
    have some: "fst (transaction (be_add_job b (args_of ?spec)) d) \<noteq> Inr None"
      using assms [of "args_of ?spec" d] by (auto simp: transaction_def split: prod.splits sum.splits)
    obtain res d' where run: "transaction (be_add_job b (args_of ?spec)) d = (res, d')"
      by (cases "transaction (be_add_job b (args_of ?spec)) d")
    show ?thesis
    proof (cases "add_job_sql (cs_schema st) ?spec")
      case (Inl e)
      then show ?thesis
        using None skip r by (simp add: prepare_one_def enqueue_one_def tx_simps client_adapter_def
            Let_def client_add_job_def)
    next
      case (Inr stmt)
      then obtain quoted_name where stmt: "stmt = AddJob quoted_name (args_of ?spec)"
        by (auto simp: add_job_sql_def res_simps)
      have "run_statement b stmt d = (case res of Inl e \<Rightarrow> (Inl e, d') | Inr x \<Rightarrow> (Inr [x], d'))"
        by (simp add: stmt transaction_map run split: sum.split)
      with Inr None skip r some run show ?thesis
        by (cases res) (auto simp: prepare_one_def enqueue_one_def tx_simps run_prepared_def client_adapter_def
            Let_def client_add_job_def split: option.splits)
    qed
  next
    case (Some key)
    then show ?thesis
      using skip r
      by (cases "add_idempotent_jobs_sql (cs_schema st) [?spec]")
         (auto simp: prepare_one_def enqueue_one_def tx_simps run_prepared_def client_adapter_def Let_def
            enqueue_idempotent_def client_add_idempotent_def add_idempotent_jobs_sql_def res_simps
            transaction_map singleton_idempotent simp del: add_idempotent_items.simps
            split: prod.split sum.split option.split)
  qed
qed

theorem prepare_equals_enqueue_witness:
  "tx_bind (tx_lift (prepare_one sample_settings ''mail'' ([], GNull) None None)) (run_prepared sample_backend) sample_db =
    enqueue_one sample_settings (client_adapter sample_backend (cs_schema sample_settings)) ''mail'' ([], GNull) None False sample_db \<and>
   fst (enqueue_one sample_settings (client_adapter sample_backend (cs_schema sample_settings)) ''mail'' ([], GNull) None False sample_db)
     = Inr (Some 8)"
proof
  have "fst (be_add_job sample_backend a d) \<noteq> Inr None" for a d
    by (simp add: sample_backend_def sample_add_job_def)
  then show "tx_bind (tx_lift (prepare_one sample_settings ''mail'' ([], GNull) None None)) (run_prepared sample_backend) sample_db =
    enqueue_one sample_settings (client_adapter sample_backend (cs_schema sample_settings)) ''mail'' ([], GNull) None False sample_db"
    by (rule prepare_equals_enqueue)
qed code_simp

text \<open>
  An enqueue in the caller's transaction creates exactly what was prepared or throws: it returns
  the ids of the statement's rows only when every row has a text or null id and as many are not
  null as jobs were prepared; a required enqueue that the hook skipped throws; and nothing runs
  when there is nothing to create.
\<close>

theorem enqueue_in_transaction_counted:
  "case enqueue_in_transaction query p required d of
     (Inr ids, d') \<Rightarrow>
       (if pj_count p = 0 then ids = [] \<and> d' = d \<and> \<not> (pj_skipped p \<and> required)
        else length ids = pj_count p \<and>
          (\<exists>rows all_ids. query (pj_statement p) d = (Inr rows, d') \<and> job_ids (pj_queue p) rows = Inr all_ids \<and>
             map Some ids = filter (\<lambda>i. i \<noteq> None) all_ids))
   | (Inl e, d') \<Rightarrow> pj_skipped p \<and> required \<or> d' = snd (query (pj_statement p) d)"
  (is "?P (enqueue_in_transaction query p required d)")
proof (cases "pj_skipped p \<and> required \<or> pj_count p = 0")
  case True
  then show ?thesis by (auto simp: enqueue_in_transaction_def tx_simps)
next
  case False
  have some: "map Some (map the (filter (\<lambda>i. i \<noteq> None) xs)) = filter (\<lambda>i. i \<noteq> None) xs" for xs :: "string option list"
    by (induction xs) auto
  show ?thesis
  proof (cases "query (pj_statement p) d")
    case (Pair res d')
    show ?thesis
      using False Pair some
      by (cases res; cases "job_ids (pj_queue p) (projr res)")
         (auto simp: enqueue_in_transaction_def tx_simps Let_def)
  qed
qed

end
