(* ===== verification/Worker.thy ===== *)
theory Worker
  imports Steps Enqueueing
begin

text \<open>
  Running one attempt of a job (\<^verbatim>\<open>src/src/worker.ts\<close>): its deadline, the endings a
  handler can commit (a continuation, a wait), what the attempt's outcome does to the database and
  to Graphile, the task list and the cron items. Handlers are the caller's code: what a handler
  did is a parameter. Logging and spans change nothing here; the theory Observed adds them.
\<close>

section \<open>The deadline\<close>

text \<open>
  \<open>attempt.run\<close>: the work settles after some milliseconds or never; the timeout settles it
  first when the work has not settled before.
\<close>

definition attempt_run :: "int option \<Rightarrow> (int \<times> 'a res) option \<Rightarrow> 'a res option" where
  "attempt_run timeout work =
     (case timeout of
        None \<Rightarrow> map_option snd work
      | Some t \<Rightarrow> (case work of
          Some (u, r) \<Rightarrow> if u < t then Some r else Some (Inl (JobTimeoutError t))
        | None \<Rightarrow> Some (Inl (JobTimeoutError t))))"

definition assert_active :: "int option \<Rightarrow> int \<Rightarrow> js_error option" where
  "assert_active timeout elapsed =
     (case timeout of None \<Rightarrow> None | Some t \<Rightarrow> if elapsed < t then None else Some (JobTimeoutError t))"

section \<open>Endings\<close>

datatype ending = Continued nat | Waiting string

record run_state =
  rs_ending :: "ending option"
  rs_called :: bool
  rs_db :: db

definition end_run :: "ending \<Rightarrow> run_state \<Rightarrow> run_state" where
  "end_run e st = st\<lparr>rs_ending := nullish (rs_ending st) (Some e)\<rparr>"

text \<open>What a wait needs of the worker: its queues, and the enqueue of the children.\<close>

record 'p wait_runtime =
  wr_queues :: "string list option"
  wr_prepare :: "'p option res"
  wr_exec :: "'p \<Rightarrow> nat option list tx"

definition backend_wait ::
  "'p wait_runtime \<Rightarrow> job_helpers \<Rightarrow> js_error option \<Rightarrow> string \<Rightarrow> string \<Rightarrow> nat \<Rightarrow> int option \<Rightarrow>
   run_state \<Rightarrow> (json \<times> bool) res \<times> run_state" where
  "backend_wait rt h inactive wait_id queue_name n_children timeout st =
     (case wr_queues rt of
        None \<Rightarrow> (Inl (plain_error ''This worker runtime cannot enqueue waited children''), st)
      | Some known \<Rightarrow>
          if queue_name \<notin> set known then (Inl (UnknownQueueError queue_name known), st)
          else case inactive of
            Some e \<Rightarrow> (Inl e, st)
          | None \<Rightarrow>
              (case rs_ending st of
                 Some (Continued _) \<Rightarrow> (Inl (plain_error
                   ''A wait cannot start after ctx.continue(); do not catch its rejection''), st)
               | _ \<Rightarrow>
                   (case enter_wait (wr_prepare rt) (wr_exec rt) h
                       \<lparr>wc_id = wait_id, wc_count = n_children, wc_timeout = timeout,
                        wc_suspended = (rs_ending st \<noteq> None)\<rparr> (rs_db st) of
                      (Inl e, d') \<Rightarrow> (Inl e, st\<lparr>rs_db := d'\<rparr>)
                    | (Inr WaitSuspended, d') \<Rightarrow>
                        (Inl (JobSuspendedSignal wait_id), end_run (Waiting wait_id) (st\<lparr>rs_db := d'\<rparr>))
                    | (Inr (WaitFinished j), d') \<Rightarrow> (Inr (j, True), st\<lparr>rs_db := d'\<rparr>))))"

text \<open>
  \<open>ctx.continue()\<close>; \<open>close\<close> stops the progress runner without writing. It ends with its
  signal, so it never returns a value.
\<close>

definition ctx_continue ::
  "add_job_fn \<Rightarrow> job_helpers \<Rightarrow> (string \<Rightarrow> int option) \<Rightarrow> bool \<Rightarrow> js_error option \<Rightarrow> date_arg option \<Rightarrow>
   string option res \<Rightarrow> json option \<Rightarrow> run_state \<Rightarrow> js_error \<times> run_state" where
  "ctx_continue aj h parse_date outcomes inactive run_at active progress st =
     (case inactive of
        Some e \<Rightarrow> (e, st)
      | None \<Rightarrow>
          if rs_called st then (plain_error ''ctx.continue() was already called'', st)
          else let st' = st\<lparr>rs_called := True\<rparr> in
            (case parse_continue_run_at parse_date run_at of
               Inl e \<Rightarrow> (e, st')
             | Inr t \<Rightarrow>
                 if rs_ending st' \<noteq> None
                 then (plain_error (''ctx.continue() cannot run after a wait suspended this run; '' @
                         ''do not catch its rejection''), st')
                 else let tp = (case json_get ''traceparent'' (inject_trace_context None active) of
                                  Some (JStr s) \<Rightarrow> Some s | _ \<Rightarrow> None) in
                   (case continue_job aj h t tp outcomes progress (rs_db st') of
                      (Inl e, d') \<Rightarrow> (e, st'\<lparr>rs_db := d'\<rparr>)
                    | (Inr i, d') \<Rightarrow> (JobContinuedSignal, end_run (Continued i) (st'\<lparr>rs_db := d'\<rparr>)))))"

section \<open>The outcome of an attempt\<close>

record task_runtime =
  tk_outcomes :: bool
  tk_discard :: bool

datatype job_status = Success | Failed

record finished_event =
  fe_status :: job_status
  fe_permanently_failed :: bool
  fe_error :: "(string \<times> string) option"
  fe_retry_at :: "int option"
  fe_continued :: bool
  fe_waiting :: bool

text \<open>
  What Graphile sees (nothing, or the error thrown at it), the event of the \<open>onJobFinished\<close>
  hook, the error given to \<open>onPermanentFailure\<close>, and the status and error put into the
  completed-jobs store.
\<close>

record task_run =
  tr_thrown :: "js_error option"
  tr_finished :: finished_event
  tr_permanent_hook :: "js_error option"
  tr_completed :: "(job_status \<times> string option) option"

definition success_run :: "js_error option \<Rightarrow> bool \<Rightarrow> bool \<Rightarrow> task_run" where
  "success_run thrown continued waiting = \<lparr>tr_thrown = thrown,
     tr_finished = \<lparr>fe_status = Success, fe_permanently_failed = False, fe_error = None,
       fe_retry_at = None, fe_continued = continued, fe_waiting = waiting\<rparr>,
     tr_permanent_hook = None,
     tr_completed = (if waiting then None else Some (Success, None))\<rparr>"

definition failed_run :: "js_error option \<Rightarrow> js_error \<Rightarrow> bool \<Rightarrow> int option \<Rightarrow> task_run" where
  "failed_run thrown reported permanent retry_at = \<lparr>tr_thrown = thrown,
     tr_finished = \<lparr>fe_status = Failed, fe_permanently_failed = permanent,
       fe_error = Some (err_name reported, err_message reported), fe_retry_at = retry_at,
       fe_continued = False, fe_waiting = False\<rparr>,
     tr_permanent_hook = (if permanent then Some reported else None),
     tr_completed = (if permanent then Some (Failed, Some (err_message reported)) else None)\<rparr>"

definition settle_outcome_of :: "child_report \<Rightarrow> settle_outcome" where
  "settle_outcome_of rep = (case rep of ReportOk _ \<Rightarrow> OutcomeCompleted | ReportFailed _ m \<Rightarrow> OutcomeFailed m)"

definition task_settle :: "task_runtime \<Rightarrow> job_helpers \<Rightarrow> bool \<Rightarrow> child_report \<Rightarrow> settle_row \<Rightarrow> bool tx" where
  "task_settle rt h waited rep row =
     (if \<not> tk_outcomes rt \<and> \<not> waited \<and> row \<noteq> RowExhaust then tx_return True
      else settle_job h \<lparr>st_outcome = (if tk_outcomes rt then Some (settle_outcome_of rep) else None),
             st_report = (if waited then Some rep else None), st_row = row\<rparr>)"

fun retry_instant :: "js_error \<Rightarrow> int option" where
  "retry_instant (RetryAtError t _) = Some t"
| "retry_instant _ = None"

definition is_permanent :: "job_helpers \<Rightarrow> js_error \<Rightarrow> bool" where
  "is_permanent h e \<longleftrightarrow> is_non_retriable e \<or> h_attempts h \<ge> h_max_attempts h"

text \<open>The settling of a failure that is permanent, after its retry time, if any, is set.\<close>

definition settle_failure ::
  "task_runtime \<Rightarrow> job_helpers \<Rightarrow> bool \<Rightarrow> js_error \<Rightarrow> db \<Rightarrow> js_error option \<times> db" where
  "settle_failure rt h waited e d =
     (let failure = ReportFailed (err_name (reported_error e)) (err_message (reported_error e)) in
      if is_non_retriable e \<and> \<not> tk_discard rt
      then (case task_settle rt h waited failure RowExhaust d of
              (Inl e', d') \<Rightarrow> (Some e', d')
            | (Inr ok, d') \<Rightarrow> (Some (if ok then e else StepPersistenceError (job_id_text h)), d'))
      else
        (if is_non_retriable e then None else Some e,
         if is_permanent h e
         then snd (task_settle rt h waited failure (if is_non_retriable e then RowDelete else RowKeep) d)
         else d))"

text \<open>The \<open>catch\<close> block; \<open>close\<close> writes the latest progress, and its failure is only logged.\<close>

definition fail_task ::
  "task_runtime \<Rightarrow> job_helpers \<Rightarrow> bool \<Rightarrow> (bool \<Rightarrow> unit tx) \<Rightarrow> js_error \<Rightarrow> db \<Rightarrow> task_run \<times> db" where
  "fail_task rt h waited close e d =
     (let d1 = snd (close True d); permanent = is_permanent h e; reported = reported_error e in
      case (if permanent then None else retry_instant e) of
        Some t \<Rightarrow>
          (case schedule_retry h t d1 of
             (Inl e', d2) \<Rightarrow> (failed_run (Some e') reported permanent None, d2)
           | (Inr retry_at, d2) \<Rightarrow> (failed_run (Some e) reported permanent (Some retry_at), d2))
      | None \<Rightarrow> (let (thrown, d2) = settle_failure rt h waited e d1
                in (failed_run thrown reported permanent None, d2)))"

text \<open>
  The whole attempt. \<open>handler\<close> gives what the handler settled with under the deadline, the ending
  that was committed, and the database after it.
\<close>

type_synonym handler_run = "db \<Rightarrow> json option res \<times> ending option \<times> db"

definition execute_task ::
  "task_runtime \<Rightarrow> job_helpers \<Rightarrow> json \<Rightarrow> (bool \<Rightarrow> unit tx) \<Rightarrow> handler_run \<Rightarrow> db \<Rightarrow> task_run \<times> db" where
  "execute_task rt h payload close handler d =
     (let waited = (is_payload_envelope payload \<and> json_get ''waited'' payload = Some (JBool True)) in
      case assert_payload_envelope payload of
        Inl e \<Rightarrow> fail_task rt h waited close e d
      | Inr _ \<Rightarrow>
          (case handler d of (result, ended, d1) \<Rightarrow>
             (case ended of
                Some (Waiting w) \<Rightarrow>
                  (success_run (Some (JobSuspendedSignal w)) False True, snd (close True d1))
              | Some (Continued _) \<Rightarrow> (success_run None True False, snd (close False d1))
              | None \<Rightarrow>
                  (case result of
                     Inl e \<Rightarrow> fail_task rt h waited close e d1
                   | Inr output \<Rightarrow>
                       (case task_settle rt h waited (ReportOk output) RowDelete (snd (close False d1)) of
                          (Inl e, d2) \<Rightarrow> fail_task rt h waited close e d2
                        | (Inr False, d2) \<Rightarrow>
                            fail_task rt h waited close (StepPersistenceError (job_id_text h)) d2
                        | (Inr True, d2) \<Rightarrow> (success_run None False False, d2))))))"

text \<open>The executor of a queue: validate the input, run the handler, encode its output.\<close>

definition process_executor :: "'h queue \<Rightarrow> (jsv option \<Rightarrow> jsv res) \<Rightarrow> json option \<Rightarrow> json option res" where
  "process_executor q process clean =
     bind_res (if q_input_schema q = None then Inr None else parse_queue_payload q clean None) (\<lambda>input.
     bind_res (process input) (\<lambda>v. encode_queue_output q v))"

section \<open>The task list\<close>

datatype operation = Process | Init

record 'h task_def =
  td_queue :: "'h queue"
  td_operation :: operation
  td_handler :: 'h
  td_timeout :: "jsnum option"

definition queue_tasks :: "jsnum option \<Rightarrow> 'h normalized \<Rightarrow> (string \<times> 'h task_def) list" where
  "queue_tasks default_timeout n =
     (let q = nq_queue n; timeout = nullish (q_timeout q) default_timeout;
          main = (q_name q, \<lparr>td_queue = q, td_operation = Process, td_handler = nq_process n, td_timeout = timeout\<rparr>)
      in case nq_init n of
           None \<Rightarrow> [main]
         | Some f \<Rightarrow> [(q_name q @ cron_init_suffix,
               \<lparr>td_queue = q, td_operation = Init, td_handler = f, td_timeout = timeout\<rparr>), main])"

definition build_task_list :: "jsnum option \<Rightarrow> 'h normalized list \<Rightarrow> (string \<times> 'h task_def) list" where
  "build_task_list default_timeout ns = concat (map (queue_tasks default_timeout) ns)"

section \<open>Cron items\<close>

datatype cron_match = MatchText string | MatchFunction nat

fun cron_matches :: "cron_schedule option \<Rightarrow> cron_match list" where
  "cron_matches None = []"
| "cron_matches (Some (CronText s)) = [MatchText s]"
| "cron_matches (Some (CronFunction f)) = [MatchFunction f]"
| "cron_matches (Some (CronList ss)) = map MatchText ss"

record cron_item =
  ci_task :: string
  ci_match :: cron_match
  ci_payload :: json
  ci_identifier :: string
  ci_max_attempts :: jsnum
  ci_backfill :: "jsnum option"
  ci_queue_name :: "string option"
  ci_priority :: "jsnum option"
  ci_job_key :: "string option"
  ci_mode :: "job_key_mode option"

text \<open>An empty cron text is falsy, so its queue has no items.\<close>

definition has_cron :: "'h queue \<Rightarrow> bool" where
  "has_cron q \<longleftrightarrow> q_cron q \<noteq> None \<and> q_cron q \<noteq> Some (CronText [])"

definition cron_task_name :: "'h queue \<Rightarrow> string" where
  "cron_task_name q = (if get_queue_type q = CronInit then q_name q @ cron_init_suffix else q_name q)"

definition cron_identifier :: "'h queue \<Rightarrow> nat \<Rightarrow> nat \<Rightarrow> string" where
  "cron_identifier q n index =
     (let base = nullish_else (Option.bind (q_cron_options q) co_identifier) (cron_task_name q)
      in if n > 1 then base @ '':'' @ show_nat index else base)"

definition queue_cron_items :: "(string \<Rightarrow> int option) \<Rightarrow> jsnum \<Rightarrow> 'h queue \<Rightarrow> cron_item list res" where
  "queue_cron_items parse_date default_max q =
     (if \<not> has_cron q then Inr []
      else bind_res (resolve_enqueue_spec parse_date q None default_max True None) (\<lambda>_.
        let opts = q_cron_options q; matches = cron_matches (q_cron q) in
        Inr (map (\<lambda>(index, m). \<lparr>ci_task = cron_task_name q, ci_match = m,
            ci_payload = inject_trace_context None (Inr None),
            ci_identifier = cron_identifier q (length matches) index,
            ci_max_attempts = nullish_else (nullish (Option.bind opts co_max_attempts) (q_max_attempts q)) default_max,
            ci_backfill = Option.bind opts co_backfill_period,
            ci_queue_name = nullish (Option.bind opts co_queue_name) (resolve_serial_queue_name (q_serial q) (q_name q)),
            ci_priority = nullish (Option.bind opts co_priority) (q_priority q),
            ci_job_key = Option.bind opts co_job_key,
            ci_mode = Option.bind opts co_job_key_mode\<rparr>) (enumerate 0 matches))))"

fun check_identifiers :: "string list \<Rightarrow> cron_item list \<Rightarrow> unit res" where
  "check_identifiers seen [] = Inr ()"
| "check_identifiers seen (i # items) =
     (if ci_identifier i \<in> set seen
      then Inl (plain_error (''Duplicate cron identifier: '' @ ci_identifier i))
      else check_identifiers (ci_identifier i # seen) items)"

definition build_cron_items :: "(string \<Rightarrow> int option) \<Rightarrow> jsnum \<Rightarrow> 'h queue list \<Rightarrow> cron_item list res" where
  "build_cron_items parse_date default_max qs =
     bind_res (map_res (queue_cron_items parse_date default_max) qs) (\<lambda>itemss.
     bind_res (check_identifiers [] (concat itemss)) (\<lambda>_. Inr (concat itemss)))"

section \<open>A running pool\<close>

text \<open>
  What ends a runner: Graphile's fatal errors and shutdowns leave the first cause; without a
  requested stop its promise rejects.
\<close>

datatype pool_event = FatalError js_error | PoolShutdown string | StopRequested

record runner_state =
  ru_cause :: "js_error option"
  ru_requested :: bool

definition new_runner :: runner_state where
  "new_runner = \<lparr>ru_cause = None, ru_requested = False\<rparr>"

fun runner_step :: "pool_event \<Rightarrow> runner_state \<Rightarrow> runner_state" where
  "runner_step (FatalError e) r = r\<lparr>ru_cause := nullish (ru_cause r)
     (Some (if is_error_object e then e else plain_error (err_message e)))\<rparr>"
| "runner_step (PoolShutdown m) r = r\<lparr>ru_cause := nullish (ru_cause r) (Some (plain_error m))\<rparr>"
| "runner_step StopRequested r = r\<lparr>ru_requested := True\<rparr>"

text \<open>The promise after the pool ended by itself with \<open>ended\<close>, once its maintenance stopped.\<close>

definition runner_result :: "string option \<Rightarrow> unit res \<Rightarrow> pool_event list \<Rightarrow> unit res" where
  "runner_result name ended events =
     (let r = fold runner_step events new_runner in
      bind_res ended (\<lambda>_. if ru_requested r then Inr () else Inl (WorkerStoppedError name (ru_cause r))))"

end
