(* ===== verification/Attempts.thy ===== *)
theory Attempts
  imports Worker
begin

text \<open>
  What the run of one attempt guarantees (\<^verbatim>\<open>src/src/worker.ts\<close>): a committed ending
  decides it, a success is recorded before it is acknowledged, a transient failure is reported to
  nobody, a permanent one is final, and a run gives its attempt back at most once.
\<close>

section \<open>Endings decide\<close>

text \<open>
  A committed ending decides the run: once the handler committed a wait or a continuation, then
  whatever it settled with (an error, a timeout, a value) the attempt is no failure; it settles
  nothing and schedules no retry, the only write after the handler's is the progress, and Graphile
  is thrown the suspension signal for a wait and acknowledged for a continuation.
\<close>

theorem ending_decides_run:
  "execute_task rt h (inject_trace_context input active) close (\<lambda>d. (result, Some e, d1)) d =
     (case e of
        Waiting w \<Rightarrow> (success_run (Some (JobSuspendedSignal w)) False True, snd (close True d1))
      | Continued i \<Rightarrow> (success_run None True False, snd (close False d1)))"
  by (simp add: execute_task_def assert_payload_envelope_def split: ending.split)

lemma assert_payload_envelope_Inr: "assert_payload_envelope p = Inr u \<longleftrightarrow> is_payload_envelope p"
  by (simp add: assert_payload_envelope_def)

lemma task_settle_owned:
  assumes "wait_inv d" "owned_row h d = Some r"
  shows "\<exists>d'. task_settle rt h waited rep row d = (Inr True, d')"
  using settle_job_owned [OF assms] by (simp add: task_settle_def tx_return_def)

lemma task_settle_lost:
  assumes "owned_row h d = None"
  shows "task_settle rt h waited rep row d =
    (Inr (\<not> tk_outcomes rt \<and> \<not> waited \<and> row \<noteq> RowExhaust), d)"
  using settled.fenced [OF assms] by (simp add: task_settle_def tx_return_def)

section \<open>Success\<close>


definition waited_job :: job_row where
  "waited_job = sample_child\<lparr>jr_payload := json_set ''waited'' (JBool True) (jr_payload sample_child)\<rparr>"

definition waited_db :: db where
  "waited_db = sample_last_child\<lparr>db_jobs := [waited_job]\<rparr>"

definition plain_runtime :: task_runtime where
  "plain_runtime = \<lparr>tk_outcomes = False, tk_discard = False\<rparr>"


section \<open>Failures\<close>

lemma settle_failure_transient:
  "\<not> is_permanent h e \<Longrightarrow> settle_failure rt h waited e d = (Some e, d)"
  by (simp add: settle_failure_def is_permanent_def)

text \<open>
  A failure that will be retried is reported to nobody: the attempt throws to Graphile, no outcome
  is recorded, no waiting parent is told, no permanent-failure hook runs; at most its retry time
  is set, exactly when the error asks for one.
\<close>

theorem transient_failure_unreported:
  fixes close :: "bool \<Rightarrow> unit tx" and d :: db
  assumes "\<not> is_permanent h e"
  defines "d1 \<equiv> snd (close True d)"
  shows "case fail_task rt h waited close e d of (run, d') \<Rightarrow>
    tr_thrown run \<noteq> None \<and> tr_permanent_hook run = None \<and> tr_completed run = None \<and>
    fe_permanently_failed (tr_finished run) = False \<and>
    db_waits d' = db_waits d1 \<and> db_groups d' = db_groups d1 \<and> db_outcomes d' = db_outcomes d1 \<and>
    d' = (case retry_instant e of None \<Rightarrow> d1 | Some t \<Rightarrow> snd (schedule_retry h t d1))"
proof -
  have frame: "db_waits (snd (schedule_retry h t d1)) = db_waits d1 \<and>
      db_groups (snd (schedule_retry h t d1)) = db_groups d1 \<and>
      db_outcomes (snd (schedule_retry h t d1)) = db_outcomes d1" for t
    by (simp add: schedule_retry_def Let_def split: option.split)
  show ?thesis
  proof (cases "retry_instant e")
    case None
    then show ?thesis
      using assms(1) by (simp add: fail_task_def settle_failure_transient failed_run_def d1_def Let_def)
  next
    case (Some t)
    then show ?thesis
      using assms(1) frame [of t]
      by (cases "schedule_retry h t d1"; cases "fst (schedule_retry h t d1)")
         (auto simp: fail_task_def failed_run_def d1_def [symmetric] Let_def)
  qed
qed

theorem transient_failure_unreported_witness:
  "case fail_task plain_runtime (helpers_of waited_job) True (\<lambda>_. tx_return ()) (RetryAtError 20 None) waited_db of (run, d') \<Rightarrow>
    tr_thrown run \<noteq> None \<and> db_waits d' = db_waits waited_db"
proof -
  have "\<not> is_permanent (helpers_of waited_job) (RetryAtError 20 None)" by code_simp
  from transient_failure_unreported [OF this, where rt = plain_runtime and waited = True
      and close = "\<lambda>_. tx_return ()" and d = waited_db]
  show ?thesis by (auto simp: tx_return_def)
qed

lemma fail_task_thrown:
  "tr_thrown (fst (fail_task rt h waited close e d)) = None \<longleftrightarrow> is_non_retriable e \<and> tk_discard rt"
proof -
  have "retry_instant e = None \<or> \<not> is_non_retriable e"
    by (cases e) auto
  then show ?thesis
    by (auto simp: fail_task_def settle_failure_def is_permanent_def failed_run_def Let_def
        split: prod.splits sum.splits option.splits if_splits)
qed

lemma fail_task_permanent:
  "fe_permanently_failed (tr_finished (fst (fail_task rt h waited close e d))) = is_permanent h e"
  by (auto simp: fail_task_def failed_run_def Let_def split: prod.splits sum.splits option.splits)

text \<open>
  No failure is swallowed: a run that throws nothing, so that Graphile deletes its job as done,
  either ended as a success or failed for good under the discard policy.
\<close>

theorem acknowledged_only_when_final:
  "case execute_task rt h payload close handler d of (run, d') \<Rightarrow>
     (case tr_thrown run of
        Some e \<Rightarrow> True
      | None \<Rightarrow> fe_status (tr_finished run) = Success \<or>
          tk_discard rt \<and> fe_permanently_failed (tr_finished run))"
proof -
  have fail: "tk_discard rt \<and> fe_permanently_failed (tr_finished (fst (fail_task rt h waited close e d)))"
    if "tr_thrown (fst (fail_task rt h waited close e d)) = None" for waited e d
    using that unfolding fail_task_thrown by (simp add: fail_task_permanent is_permanent_def)
  have success: "fe_status (tr_finished (success_run t c w)) = Success" for t c w
    by (simp add: success_run_def)
  let ?run = "fst (execute_task rt h payload close handler d)"
  have "tr_thrown ?run = None \<longrightarrow> fe_status (tr_finished ?run) = Success \<or>
      tk_discard rt \<and> fe_permanently_failed (tr_finished ?run)"
    using fail success
    by (auto simp: execute_task_def Let_def split: sum.splits prod.splits option.splits ending.splits bool.splits)
  then show ?thesis
    by (cases "execute_task rt h payload close handler d") (auto split: option.split)
qed



section \<open>The attempt is given back once\<close>

lemma owned_row_update_where:
  assumes "jobs_inv d" "owned_row h d = Some r" "db_jobs d' = update_where p f (db_jobs d)"
    and "\<And>s. jr_id (f s) = jr_id s \<and> jr_locked_by (f s) = jr_locked_by s \<and> jr_locked_at (f s) = jr_locked_at s"
  shows "jobs_inv d' \<and> owned_row h d' = Some (if p r then f r else r)"
proof
  show inv: "jobs_inv d'"
    using assms by (simp add: jobs_inv_def update_where_ids)
  show "owned_row h d' = Some (if p r then f r else r)"
    unfolding owned_row_def
  proof (rule find_row_key [where key = jr_id])
    show "distinct (map jr_id (db_jobs d'))" using inv by (simp add: jobs_inv_def)
    show "(if p r then f r else r) \<in> set (db_jobs d')"
      using owned_row_Some [OF assms(2)] by (auto simp: assms(3) set_update_where)
    show own: "owns h (if p r then f r else r)"
      using owned_row_Some [OF assms(2)] assms(4) by (simp add: owns_def)
    show "jr_id s = jr_id (if p r then f r else r)" if "owns h s" for s
      using own that by (simp add: owns_def)
  qed
qed

text \<open>What a wait needs of the enqueue of its children.\<close>

definition keeps_attempt :: "job_helpers \<Rightarrow> 'a tx \<Rightarrow> bool" where
  "keeps_attempt h m \<longleftrightarrow> keeps_wait_tables m \<and>
     (\<forall>d r. jobs_inv d \<longrightarrow> owned_row h d = Some r \<longrightarrow> jobs_inv (snd (m d)) \<and>
        (\<exists>r'. owned_row h (snd (m d)) = Some r' \<and> jr_attempts r' = jr_attempts r))"

lemma keeps_attemptD:
  "keeps_attempt h m \<Longrightarrow> jobs_inv d \<Longrightarrow> owned_row h d = Some r \<Longrightarrow> m d = (x, d') \<Longrightarrow>
   jobs_inv d' \<and> (\<exists>r'. owned_row h d' = Some r' \<and> jr_attempts r' = jr_attempts r)"
  unfolding keeps_attempt_def by (metis snd_conv)

lemma open_wait_attempt:
  assumes "keeps_attempt h (exec p)" "prep = Inr (Some p)" "jobs_inv d" "owned_row h d = Some r"
    and "open_wait prep exec h c d = (Inr u, d')"
  shows "jobs_inv d' \<and> (\<exists>r'. owned_row h d' = Some r' \<and> jr_attempts r' = jr_attempts r) \<and> find_group h c d' \<noteq> None"
proof -
  let ?d0 = "d\<lparr>db_groups := db_groups d @ [new_group h c d]\<rparr>"
  obtain ids d1 where ex: "exec p ?d0 = (Inr ids, d1)"
    and d': "d' = mark_waited (map the ids) (d1\<lparr>db_waits := db_waits d1 @ new_waits h c (map the ids)\<rparr>)"
    using assms(2,5) unfolding open_wait_def
    by (auto simp: tx_simps tx_modify_def tx_throw_def tx_bind_Inr split: if_splits sum.splits prod.splits)
  have "jobs_inv ?d0" "owned_row h ?d0 = Some r"
    using assms(3,4) by (simp_all add: jobs_inv_def owned_row_def)
  from keeps_attemptD [OF assms(1) this ex] obtain r1 where r1: "jobs_inv d1" "owned_row h d1 = Some r1"
      "jr_attempts r1 = jr_attempts r" by blast
  let ?f = "\<lambda>s. s\<lparr>jr_payload := json_set ''waited'' (JBool True) (jr_payload s)\<rparr>"
  have "jobs_inv d' \<and> owned_row h d' = Some (if jr_id r1 \<in> set (map the ids) \<and> is_json_object (jr_payload r1) then ?f r1 else r1)"
    by (rule owned_row_update_where [OF r1(1,2)]) (simp_all add: d' mark_waited_def)
  moreover have "db_groups d1 = db_groups ?d0"
    using assms(1) ex keeps_wait_tablesD unfolding keeps_attempt_def by blast
  then have "find_group h c d' \<noteq> None"
    by (auto simp: d' find_group_def find_row_None new_group_def)
  ultimately show ?thesis using r1(3) by auto
qed

lemma finish_wait_attempt:
  assumes "jobs_inv d" "owned_row h d = Some r" "finish_wait h i b d = (Inr j, d')"
  shows "jobs_inv d' \<and> (\<exists>r'. owned_row h d' = Some r' \<and> jr_attempts r' = jr_attempts r)"
proof -
  obtain d1 where w: "write_checkpoint h i (StepOutput j) d = (Inr (), d1)"
    and d': "d' = delete_groups (\<lambda>g. group_key g = (h_id h, i)) d1"
    using assms(3) unfolding finish_wait_def Let_def tx_bind_Inr by (auto simp: tx_simps)
  let ?f = "\<lambda>s. s\<lparr>jr_payload := patch_step i (StepOutput j) (jr_payload r), jr_updated_at := db_now d\<rparr>"
  have "db_jobs d' = update_where (\<lambda>s. jr_id s = jr_id r) ?f (db_jobs d)"
    using w assms(2) by (auto simp: d' delete_groups_def write_checkpoint_def patch_envelope_def split: if_splits)
  from owned_row_update_where [OF assms(1,2) this] show ?thesis by simp
qed

lemma enter_wait_attempt:
  assumes "\<And>p. keeps_attempt h (exec p)" "jobs_inv d" "owned_row h d = Some r"
    and "enter_wait prep exec h c d = (Inr out, d')"
  shows "jobs_inv d' \<and> (\<exists>r'. owned_row h d' = Some r' \<and>
    jr_attempts r' = jr_attempts r - (if out = WaitSuspended \<and> \<not> wc_suspended c then 1 else 0))"
proof -
  from assms(4) obtain rem expd d1 where
    grp: "(case find_group h c d of
        None \<Rightarrow> tx_bind (open_wait prep exec h c) (\<lambda>_. tx_return (int (wc_count c), False))
      | Some g \<Rightarrow> tx_return (gr_remaining g, group_expired g d)) d = (Inr (rem, expd), d1)"
    and rest: "(if rem = 0 \<or> expd
       then tx_bind (finish_wait h (wc_id c) (rem = 0)) (\<lambda>j. tx_return (WaitFinished j))
       else (\<lambda>d'. (Inr WaitSuspended,
               case find_group h c d' of None \<Rightarrow> d' | Some g \<Rightarrow> suspend h c (gr_deadline g) d'))) d1 = (Inr out, d')"
    unfolding enter_wait_def by (auto simp: transaction_Inr tx_bind_Inr split: if_splits)
  have d1: "jobs_inv d1 \<and> (\<exists>r1. owned_row h d1 = Some r1 \<and> jr_attempts r1 = jr_attempts r) \<and> find_group h c d1 \<noteq> None"
  proof (cases "find_group h c d")
    case None
    with grp obtain u where op: "open_wait prep exec h c d = (Inr u, d1)"
      by (auto simp: tx_simps tx_bind_Inr split: prod.splits sum.splits)
    then obtain p where "prep = Inr (Some p)"
      by (cases prep) (auto simp: open_wait_def tx_simps split: option.splits)
    from open_wait_attempt [OF assms(1) this assms(2,3) op] show ?thesis .
  next
    case (Some g)
    with grp assms(2,3) show ?thesis by (simp add: tx_simps)
  qed
  then obtain r1 g where r1: "jobs_inv d1" "owned_row h d1 = Some r1" "jr_attempts r1 = jr_attempts r"
    and g: "find_group h c d1 = Some g" by blast
  show ?thesis
  proof (cases "rem = 0 \<or> expd")
    case True
    with rest obtain j where "finish_wait h (wc_id c) (rem = 0) d1 = (Inr j, d')" "out = WaitFinished j"
      by (auto simp: tx_bind_Inr tx_return_def)
    with finish_wait_attempt [OF r1(1,2)] r1(3) show ?thesis by auto
  next
    case False
    with rest g have d': "d' = suspend h c (gr_deadline g) d1" "out = WaitSuspended" by auto
    let ?s = "if wc_suspended c then 0 else 1 :: int"
    let ?f = "\<lambda>r. let target = nullish_else (gr_deadline g) no_deadline - graphile_backoff (jr_attempts r - ?s) in
        r\<lparr>jr_attempts := jr_attempts r - ?s,
          jr_run_at := (if ?s = 1 then target else min (jr_run_at r) target)\<rparr>"
    have "jobs_inv d' \<and> owned_row h d' = Some (if jr_id r1 = h_id h then ?f r1 else r1)"
      by (rule owned_row_update_where [OF r1(1,2)]) (simp_all add: d' suspend_def Let_def)
    moreover have "jr_id r1 = h_id h" using owned_row_Some [OF r1(2)] by simp
    ultimately show ?thesis using r1(3) d'(2) by (simp add: Let_def)
  qed
qed

text \<open>The waits of one run, in the order their transactions run.\<close>

fun run_waits ::
  "'p wait_runtime \<Rightarrow> job_helpers \<Rightarrow> (string \<times> string \<times> nat \<times> int option) list \<Rightarrow> run_state \<Rightarrow> run_state" where
  "run_waits rt h [] st = st"
| "run_waits rt h ((wait_id, queue_name, n, timeout) # ws) st =
     run_waits rt h ws (snd (backend_wait rt h None wait_id queue_name n timeout st))"

lemma backend_wait_attempt:
  fixes wait_id queue_name :: string and n :: nat and timeout :: "int option"
  assumes "\<And>p. keeps_attempt h (wr_exec rt p)" "jobs_inv (rs_db st)" "owned_row h (rs_db st) = Some r"
    and "case rs_ending st of Some (Continued _) \<Rightarrow> False | _ \<Rightarrow> True"
  defines "st' \<equiv> snd (backend_wait rt h None wait_id queue_name n timeout st)"
  shows "jobs_inv (rs_db st') \<and> (case rs_ending st' of Some (Continued _) \<Rightarrow> False | _ \<Rightarrow> True) \<and>
    (\<exists>r'. owned_row h (rs_db st') = Some r' \<and>
      jr_attempts r' = jr_attempts r - (if rs_ending st = None \<and> rs_ending st' \<noteq> None then 1 else 0)) \<and>
    (rs_ending st \<noteq> None \<longrightarrow> rs_ending st' \<noteq> None)"
proof -
  let ?c = "\<lparr>wc_id = wait_id, wc_count = n, wc_timeout = timeout, wc_suspended = (rs_ending st \<noteq> None)\<rparr>"
  let ?e = "enter_wait (wr_prepare rt) (wr_exec rt) h ?c (rs_db st)"
  obtain res d' where e: "?e = (res, d')" by (cases ?e)
  show ?thesis
  proof (cases "wr_queues rt = None \<or> (\<exists>known. wr_queues rt = Some known \<and> queue_name \<notin> set known)")
    case True
    then have "st' = st" by (auto simp: st'_def backend_wait_def)
    with assms(2-4) show ?thesis by auto
  next
    case False
    then obtain known where known: "wr_queues rt = Some known" "queue_name \<in> set known" by auto
    show ?thesis
    proof (cases res)
      case (Inl err)
      with e have "d' = rs_db st" using entered.atomic by blast
      with known e Inl assms(4) have "st' = st"
        by (auto simp: st'_def backend_wait_def split: option.splits ending.splits)
      with assms(2-4) show ?thesis by auto
    next
      case (Inr out)
      from enter_wait_attempt [OF assms(1) assms(2,3) e[unfolded Inr]] known e Inr assms(4) show ?thesis
        by (cases out; cases "rs_ending st")
           (auto simp: st'_def backend_wait_def end_run_def split: ending.splits)
    qed
  qed
qed

text \<open>
  C11 A run gives its attempt back at most once: whatever waits a handler makes in one run, and
  however many of them suspend, the job it owns ends with the attempts it had, less one exactly
  when some wait suspended.
\<close>

theorem attempt_given_back_once:
  assumes "\<And>p. keeps_attempt h (wr_exec rt p)" and "jobs_inv (rs_db st)"
    and "owned_row h (rs_db st) = Some r" and "rs_ending st = None"
  shows "\<exists>r'. owned_row h (rs_db (run_waits rt h ws st)) = Some r' \<and>
    jr_attempts r' = jr_attempts r - (if rs_ending (run_waits rt h ws st) = None then 0 else 1)"
proof -
  have "\<exists>r'. owned_row h (rs_db (run_waits rt h ws st)) = Some r' \<and>
      jr_attempts r' = jr_attempts r -
        (if rs_ending st = None \<and> rs_ending (run_waits rt h ws st) \<noteq> None then 1 else 0) \<and>
      (rs_ending st \<noteq> None \<longrightarrow> rs_ending (run_waits rt h ws st) \<noteq> None)"
    if "jobs_inv (rs_db st)" "owned_row h (rs_db st) = Some r"
      "case rs_ending st of Some (Continued _) \<Rightarrow> False | _ \<Rightarrow> True" for st r
    using that
  proof (induction ws arbitrary: st r)
    case (Cons w ws)
    obtain wait_id queue_name n timeout where w: "w = (wait_id, queue_name, n, timeout)" by (cases w)
    let ?st = "snd (backend_wait rt h None wait_id queue_name n timeout st)"
    from backend_wait_attempt [OF assms(1) Cons.prems, where wait_id = wait_id and queue_name = queue_name
        and n = n and timeout = timeout]
    obtain r1 where inv: "jobs_inv (rs_db ?st)" "case rs_ending ?st of Some (Continued _) \<Rightarrow> False | _ \<Rightarrow> True"
      and r1: "owned_row h (rs_db ?st) = Some r1"
        "jr_attempts r1 = jr_attempts r - (if rs_ending st = None \<and> rs_ending ?st \<noteq> None then 1 else 0)"
      and mono: "rs_ending st \<noteq> None \<longrightarrow> rs_ending ?st \<noteq> None" by blast
    from Cons.IH [OF inv(1) r1(1) inv(2)] r1(2) mono show ?case
      by (cases "rs_ending st"; cases "rs_ending ?st") (auto simp: w)
  qed auto
  from this [OF assms(2,3)] assms(4) show ?thesis by auto
qed

definition sample_waits :: "nat wait_runtime" where
  "sample_waits = \<lparr>wr_queues = Some [''child''], wr_prepare = Inr (Some 0), wr_exec = (\<lambda>_. tx_return [Some 21])\<rparr>"

theorem attempt_given_back_once_witness:
  "\<exists>r'. owned_row (helpers_of sample_job) (rs_db (run_waits sample_waits (helpers_of sample_job)
      [(''v'', ''child'', 1, None), (''w'', ''child'', 1, None)] \<lparr>rs_ending = None, rs_called = False, rs_db = sample_db\<rparr>)) = Some r' \<and>
    jr_attempts r' = 0"
proof -
  let ?st = "\<lparr>rs_ending = None, rs_called = False, rs_db = sample_db\<rparr>"
  let ?ws = "[(''v'', ''child'', 1 :: nat, None), (''w'', ''child'', 1, None)] :: (string \<times> string \<times> nat \<times> int option) list"
  have keeps: "keeps_attempt (helpers_of sample_job) (wr_exec sample_waits p)" for p
    by (simp add: sample_waits_def keeps_attempt_def keeps_wait_tables_def tx_return_def)
  have inv: "jobs_inv (rs_db ?st)" "owned_row (helpers_of sample_job) (rs_db ?st) = Some sample_job" "rs_ending ?st = None"
    by simp_all
  have "rs_ending (run_waits sample_waits (helpers_of sample_job) ?ws ?st) \<noteq> None" "jr_attempts sample_job = 1"
    by (code_simp+)
  with attempt_given_back_once [OF keeps inv, of ?ws] show ?thesis by auto
qed

section \<open>Tasks and cron items\<close>

lemma queue_tasks_names:
  "(nq_init n \<noteq> None \<longleftrightarrow> get_queue_type (nq_queue n) = CronInit) \<Longrightarrow>
   mset (map fst (queue_tasks t n)) = mset (task_identifiers (nq_queue n))"
  by (auto simp: queue_tasks_def task_identifiers_def Let_def split: option.split)

text \<open>
  C?? Every task has one handler: for an accepted set of queues and handlers the task list given to
  Graphile defines exactly the identifiers the queues generate, each once, the \<open>_cron-init\<close>
  ones as initializers.
\<close>

theorem task_list_covers_registry:
  assumes "normalize_worker_queues qs handlers = Inr ns"
  shows "mset (map fst (build_task_list t ns)) = mset (registry_tasks qs) \<and>
    distinct (map fst (build_task_list t ns))"
proof -
  from normalize_worker_queues_Inr [OF assms] have q: "map nq_queue ns = qs" and d: "distinct (registry_tasks qs)"
    and i: "list_all (\<lambda>n. nq_init n \<noteq> None \<longleftrightarrow> get_queue_type (nq_queue n) = CronInit) ns" by auto
  have "mset (map fst (build_task_list t ns)) = mset (registry_tasks (map nq_queue ns))"
    using i by (induction ns) (simp_all add: build_task_list_def queue_tasks_names [simplified])
  with q have m: "mset (map fst (build_task_list t ns)) = mset (registry_tasks qs)" by simp
  with d show ?thesis using mset_eq_imp_distinct_iff by blast
qed

definition nightly_queue :: "nat queue" where
  "nightly_queue = (bare_queue ''nightly'')\<lparr>q_input_schema := Some Inr, q_cron := Some (CronList [''0 1 * * *'', ''0 2 * * *'']),
     q_process := Fn 1, q_init := Fn 2\<rparr>"

theorem task_list_covers_registry_witness:
  "\<exists>ns. normalize_worker_queues [nightly_queue] None = Inr ns \<and>
    mset (map fst (build_task_list None ns)) = mset [''nightly'', ''nightly_cron-init''] \<and>
    distinct (map fst (build_task_list None ns))"
proof -
  let ?r = "normalize_worker_queues [nightly_queue] None"
  have ok: "case ?r of Inl _ \<Rightarrow> False | Inr _ \<Rightarrow> True" by code_simp
  then obtain ns where ns: "?r = Inr ns" by (cases ?r) auto
  have "registry_tasks [nightly_queue] = [''nightly'', ''nightly_cron-init'']" by code_simp
  with task_list_covers_registry [OF ns, of None] ns show ?thesis by simp
qed

lemma check_identifiers_Inr:
  "check_identifiers seen items = Inr () \<longleftrightarrow>
     distinct (map ci_identifier items) \<and> set seen \<inter> set (map ci_identifier items) = {}"
  by (induction items arbitrary: seen) auto

lemma queue_cron_items_tasks:
  "queue_cron_items pd dm q = Inr items \<Longrightarrow> i \<in> set items \<Longrightarrow>
   ci_task i \<in> set (task_identifiers q) \<and> ci_payload i = inject_trace_context None (Inr None)"
  by (auto simp: queue_cron_items_def res_simps cron_task_name_def task_identifiers_def Let_def split: if_splits)

text \<open>
  Cron items are well formed: accepted cron items have distinct identifiers, so no schedule hides
  another, each fires a task of the registry, and what it enqueues is an envelope the task reads
  as the undefined input.
\<close>

theorem cron_items_well_formed:
  assumes "build_cron_items pd dm qs = Inr items"
  shows "distinct (map ci_identifier items) \<and>
    list_all (\<lambda>i. ci_task i \<in> set (registry_tasks qs) \<and> extract_producer_link (ci_payload i) = Inr (None, None)) items"
proof -
  from assms obtain itemss where m: "list_all2 (\<lambda>q is. queue_cron_items pd dm q = Inr is) qs itemss"
    and items: "items = concat itemss" and c: "check_identifiers [] items = Inr ()"
    by (auto simp: build_cron_items_def res_simps map_res_Inr_iff)
  have "ci_task i \<in> set (registry_tasks qs) \<and> ci_payload i = inject_trace_context None (Inr None)"
    if "i \<in> set items" for i
    using m that unfolding items
    by (induction rule: list_all2_induct) (auto dest: queue_cron_items_tasks)
  moreover have "extract_producer_link (inject_trace_context None (Inr None)) = Inr (None, None)"
    by code_simp
  ultimately show ?thesis using c by (simp add: check_identifiers_Inr list_all_iff)
qed

theorem cron_items_well_formed_witness:
  "\<exists>items. build_cron_items (\<lambda>_. None) (Num 4) [nightly_queue] = Inr items \<and>
    map ci_identifier items = [''nightly_cron-init:0'', ''nightly_cron-init:1''] \<and> distinct (map ci_identifier items)"
proof -
  let ?r = "build_cron_items (\<lambda>_. None) (Num 4) [nightly_queue]"
  have ok: "case ?r of Inl _ \<Rightarrow> False
      | Inr items \<Rightarrow> map ci_identifier items = [''nightly_cron-init:0'', ''nightly_cron-init:1'']" by code_simp
  then obtain items where items: "?r = Inr items" by (cases ?r) auto
  with ok cron_items_well_formed [OF items] show ?thesis by simp
qed

section \<open>A pool that stops by itself\<close>

fun event_cause :: "pool_event \<Rightarrow> js_error option" where
  "event_cause (FatalError e) = Some (if is_error_object e then e else plain_error (err_message e))"
| "event_cause (PoolShutdown m) = Some (plain_error m)"
| "event_cause StopRequested = None"

fun first_cause :: "pool_event list \<Rightarrow> js_error option" where
  "first_cause [] = None"
| "first_cause (e # es) = nullish (event_cause e) (first_cause es)"

lemma fold_runner_step:
  "fold runner_step events r = \<lparr>ru_cause = nullish (ru_cause r) (first_cause events),
     ru_requested = (ru_requested r \<or> StopRequested \<in> set events)\<rparr>"
proof (induction events arbitrary: r)
  case (Cons e es)
  then show ?case by (cases e; cases "ru_cause r") auto
qed simp

text \<open>
  A worker that stops unasked says so: when the pool ends without an error of its own, its promise
  resolves exactly when a stop was requested, and otherwise rejects with the first fatal error or
  shutdown as the cause.
\<close>

theorem unrequested_end_rejects:
  "runner_result name (Inr ()) events =
     (if StopRequested \<in> set events then Inr () else Inl (WorkerStoppedError name (first_cause events)))"
  by (simp add: runner_result_def fold_runner_step new_runner_def Let_def)

end
