(* ===== verification/Facade.thy ===== *)
theory Facade
  imports Maintenance Admin Client Shutdown Pool Attempts
begin

text \<open>
  What a worker puts together, \<^verbatim>\<open>src/src/create-better-worker.ts\<close>: the checks of its
  options, the preparation of the library's tables before a start or a single run, the
  statistics, and stopping with or without probes.
\<close>

section \<open>The checks of the options\<close>

record worker_options =
  wo_process :: "string list option"
  wo_concurrency :: "jsnum option"
  wo_poll_interval :: "jsnum option"
  wo_default_timeout :: "jsnum option"
  wo_prefetch :: "jsnum option"
  wo_second_look :: "jsnum option"
  wo_crash_recovery :: recovery_option
  wo_restart :: restart_option

definition default_poll_interval :: int where
  "default_poll_interval = 250"

definition check_given :: "jsnum option \<Rightarrow> string \<Rightarrow> int \<Rightarrow> int \<Rightarrow> unit res" where
  "check_given value label lo hi =
     (case value of None \<Rightarrow> Inr () | Some v \<Rightarrow> bind_res (assert_integer v label lo hi) (\<lambda>_. Inr ()))"

record 'h worker =
  wk_queues :: "'h normalized list"
  wk_recovery :: "recovery option"
  wk_restart :: "restart_policy option"

definition create_worker ::
  "'h queue list \<Rightarrow> 'h handlers_arg option \<Rightarrow> worker_options \<Rightarrow> 'h worker res" where
  "create_worker queues handlers opts =
     bind_res (assert_unique_queue_names queues) (\<lambda>_.
     bind_res (normalize_worker_queues queues handlers) (\<lambda>normalized.
     bind_res (select_processed normalized (wo_process opts)) (\<lambda>selected.
     bind_res (assert_integer (nullish_else (wo_concurrency opts) (int_num default_concurrency))
       ''concurrency'' 1 max_safe_integer) (\<lambda>_.
     bind_res (assert_integer (nullish_else (wo_poll_interval opts) (int_num default_poll_interval))
       ''pollInterval'' 1 max_timer) (\<lambda>_.
     bind_res (check_given (wo_default_timeout opts) ''defaultTimeout'' 1 max_timer) (\<lambda>_.
     bind_res (check_given (wo_prefetch opts) ''prefetch'' 0 max_safe_integer) (\<lambda>_.
     bind_res (check_given (wo_second_look opts) ''secondLookOnNotify'' 0 max_timer) (\<lambda>_.
     bind_res (resolve_crash_recovery (wo_crash_recovery opts)) (\<lambda>recovery.
     bind_res (resolve_restart (wo_restart opts)) (\<lambda>restart.
     Inr \<lparr>wk_queues = selected, wk_recovery = recovery, wk_restart = restart\<rparr>))))))))))"

section \<open>Preparing the tables\<close>

text \<open>
  \<open>code_of\<close> gives the PostgreSQL code an error carries. The result tells whether maintenance
  runs: not when the role may not create the missing tables and nothing asked for them.
\<close>

definition prepare_tables ::
  "(js_error \<Rightarrow> string option) \<Rightarrow> bool \<Rightarrow> bool res \<Rightarrow> unit res \<times> string list \<Rightarrow> bool res" where
  "prepare_tables code_of required has migrated =
     bind_res has (\<lambda>ready.
       if ready then Inr True
       else case fst migrated of
         Inr _ \<Rightarrow> Inr True
       | Inl e \<Rightarrow> if required \<or> code_of e \<noteq> Some ''42501'' then Inl e else Inr False)"

definition tables_required :: "recovery_option option \<Rightarrow> int option \<Rightarrow> bool" where
  "tables_required crash_recovery retention \<longleftrightarrow> crash_recovery \<noteq> None \<or> retention \<noteq> None"

section \<open>A single run, statistics and stopping\<close>

text \<open>\<open>runOnce\<close>: the tables, all due jobs (\<open>run_tasks\<close>, Graphile's), then one maintenance pass.\<close>

definition run_once ::
  "bool res \<Rightarrow> (db \<Rightarrow> unit res \<times> db) \<Rightarrow> maintenance_options \<Rightarrow> locks \<Rightarrow> fates \<Rightarrow> unit tx" where
  "run_once prepared run_tasks opts lk ft d =
     (case prepared of
        Inl e \<Rightarrow> (Inl e, d)
      | Inr maintained \<Rightarrow>
          (case run_tasks d of
             (Inl e, d') \<Rightarrow> (Inl e, d')
           | (Inr _, d') \<Rightarrow> (Inr (), if maintained then snd (maintain_once opts lk ft d') else d')))"

definition get_job_stats :: "'h queue list \<Rightarrow> 'p completed_store \<Rightarrow> db \<Rightarrow> stats_row list" where
  "get_job_stats queues store d =
     merge_job_stats (query_job_counts d) (store_get_stats store) (registry_tasks queues)"

text \<open>\<open>stop\<close>: the race that decides its result, with probes only when asked for and possible.\<close>

definition stop_worker :: "probe_option \<Rightarrow> bool \<Rightarrow> race res" where
  "stop_worker probe has_options =
     bind_res (resolve_database_probe probe) (\<lambda>p. Inr (start_race (p \<noteq> None \<and> has_options)))"

text \<open>
  A worker without the rights to create tables still starts: preparation fails only when checking
  fails, or migrating fails and the tables were asked for or the error is another one; and it
  allows maintenance only when the tables are there.
\<close>

theorem maintenance_needs_tables:
  assumes "prepared = prepare_tables code_of required (Inr (has_tables existing)) (migrate utils ddl existing)"
  shows "(prepared = Inr True \<longrightarrow> has_tables existing \<or> has_tables (snd (migrate utils ddl existing))) \<and>
    (\<forall>e. prepared = Inl e \<longrightarrow> \<not> has_tables existing \<and> fst (migrate utils ddl existing) = Inl e \<and>
       (required \<or> code_of e \<noteq> Some ''42501'')) \<and>
    (prepared = Inr False \<longrightarrow> \<not> required \<and> snd (migrate utils ddl existing) = existing)"
proof -
  obtain r ex where m: "migrate utils ddl existing = (r, ex)" by (cases "migrate utils ddl existing")
  have "has_tables ex" if "r = Inr ()" using m that migrate_has_tables by blast
  moreover have "ex = existing" if "r = Inl e" for e
    using m that by (auto simp: migrate_def split: sum.splits)
  ultimately show ?thesis
    unfolding assms m by (cases r) (auto simp: prepare_tables_def)
qed

theorem maintenance_needs_tables_witness:
  "prepare_tables (\<lambda>_. Some ''42501'') False (Inr (has_tables [])) (migrate (Inr ()) (Inl (plain_error ''denied'')) []) = Inr False \<and>
   snd (migrate (Inr ()) (Inl (plain_error ''denied'')) []) = []"
proof -
  have "prepare_tables (\<lambda>_. Some ''42501'') False (Inr (has_tables [])) (migrate (Inr ()) (Inl (plain_error ''denied'')) []) = Inr False"
    by (simp add: prepare_tables_def migrate_def has_tables_def library_tables_def)
  with maintenance_needs_tables [OF HOL.refl, of "\<lambda>_. Some ''42501''" False "[]" "Inr ()" "Inl (plain_error ''denied'')"]
  show ?thesis by simp
qed

text \<open>
  A worker that is created has consistent options: its processed queues have distinct tasks, a crash
  is detected no sooner than after three missed heartbeats, and the delays of its restarts are
  ordered.
\<close>

theorem created_worker_consistent:
  assumes "create_worker queues handlers opts = Inr w"
  shows "distinct (registry_tasks queues) \<and> set (map nq_queue (wk_queues w)) \<subseteq> set queues \<and>
    (\<forall>rc. wk_recovery w = Some rc \<longrightarrow> 1 \<le> rc_interval rc \<and> 3 * rc_interval rc \<le> rc_stale_after rc) \<and>
    (\<forall>p. wk_restart w = Some p \<longrightarrow> 0 \<le> rp_delay p \<and> rp_delay p \<le> rp_max_delay p \<and> rp_max_delay p \<le> max_timer)"
proof -
  obtain normalized where norm: "normalize_worker_queues queues handlers = Inr normalized"
    and sel: "select_processed normalized (wo_process opts) = Inr (wk_queues w)"
    and rec: "resolve_crash_recovery (wo_crash_recovery opts) = Inr (wk_recovery w)"
    and res: "resolve_restart (wo_restart opts) = Inr (wk_restart w)"
    using assms unfolding create_worker_def res_simps by auto
  have "set (wk_queues w) \<subseteq> set normalized"
  proof (cases "wo_process opts")
    case (Some ns)
    with sel have "\<exists>xs. wk_queues w = filter (\<lambda>q. q_name (nq_queue q) \<in> set xs) normalized"
      by (simp add: select_processed_def res_simps split: if_splits) metis
    then show ?thesis by auto
  qed (use sel in \<open>simp add: select_processed_def\<close>)
  moreover have "map nq_queue normalized = queues"
    using normalize_worker_queues_Inr [OF norm] by blast
  ultimately have "set (map nq_queue (wk_queues w)) \<subseteq> set queues" by auto
  moreover have "1 \<le> rc_interval rc \<and> 3 * rc_interval rc \<le> rc_stale_after rc" if "wk_recovery w = Some rc" for rc
    using rec that by (auto simp: resolve_crash_recovery_def res_simps assert_integer_Inr split: recovery_option.splits)
  moreover have "0 \<le> rp_delay p \<and> rp_delay p \<le> rp_max_delay p \<and> rp_max_delay p \<le> max_timer"
    if "wk_restart w = Some p" for p
    by (rule resolve_restart_bounds [of "wo_restart opts"]) (use res that in simp)
  ultimately show ?thesis using normalize_worker_queues_Inr [OF norm] by blast
qed

end
