(* ===== verification/Runner.thy ===== *)
theory Runner
  imports Attempts
begin

text \<open>
  One Graphile worker pool with its maintenance, \<^verbatim>\<open>startRunner\<close> of
  \<^verbatim>\<open>src/src/worker.ts\<close>: the listeners on the pool's events, the maintenance that runs as
  long as the pool does, and the promise of the runner, as a state machine over the events between
  two awaits. The pool itself is Graphile's: what it does are events.
\<close>

section \<open>State\<close>

text \<open>
  Where the pool stands: \<open>run\<close> is awaited; it rejected, and the maintenance is being stopped
  before the error goes on; the pool is up; or its promise has settled.
\<close>

datatype pool_phase = RunAwaited | RunRejected js_error | PoolUp | PoolEnded "unit res"

datatype maintenance_phase = NoMaintenance | Maintaining string | MaintenanceStopped string

text \<open>
  \<open>rg_result\<close> is how \<open>startRunner\<close> rejected or the runner's promise settled; \<open>rg_stops\<close> counts
  the calls of \<open>stop\<close> that wait for it.
\<close>

record runner_machine =
  rg_pool :: pool_phase
  rg_on_create :: bool
  rg_listening :: bool
  rg_maintenance :: maintenance_phase
  rg_runner :: runner_state
  rg_result :: "unit res option"

definition start_runner :: runner_machine where
  "start_runner = \<lparr>rg_pool = RunAwaited, rg_on_create = True, rg_listening = True,
     rg_maintenance = NoMaintenance, rg_runner = new_runner, rg_result = None\<rparr>"

section \<open>Events\<close>

datatype runner_event =
    PoolCreated string
  | RunResolves
  | RunRejects js_error
  | PoolEvent pool_event
  | StopCalled
  | PoolSettles "unit res"
  | MaintenanceEnds

definition stop_maintenance_phase :: "maintenance_phase \<Rightarrow> maintenance_phase" where
  "stop_maintenance_phase m = (case m of Maintaining w \<Rightarrow> MaintenanceStopped w | _ \<Rightarrow> m)"

text \<open>
  \<open>maintained\<close> tells whether there is a maintenance to start; the emitter of the events is the
  runner's own, which tells of the pool's creation once. A fatal error or a shutdown of the
  pool is seen only while listening. \<open>MaintenanceEnds\<close> is the end of \<open>stopMaintenance\<close>, after
  the pool settled or failed to start; whether a stop was requested is read only then.
\<close>

fun runner_machine_step :: "bool \<Rightarrow> string option \<Rightarrow> runner_event \<Rightarrow> runner_machine \<Rightarrow> runner_machine option" where
  "runner_machine_step maintained name (PoolCreated w) s =
     (if rg_on_create s \<and> rg_maintenance s = NoMaintenance
      then Some (if maintained then s\<lparr>rg_maintenance := Maintaining w\<rparr> else s) else None)"
| "runner_machine_step maintained name RunResolves s =
     (if rg_pool s = RunAwaited then Some (s\<lparr>rg_pool := PoolUp, rg_on_create := False\<rparr>) else None)"
| "runner_machine_step maintained name (RunRejects e) s =
     (if rg_pool s = RunAwaited then Some (s\<lparr>rg_pool := RunRejected e, rg_listening := False\<rparr>) else None)"
| "runner_machine_step maintained name (PoolEvent ev) s =
     (if ev = StopRequested \<or> \<not> rg_listening s then None
      else Some (s\<lparr>rg_runner := runner_step ev (rg_runner s)\<rparr>))"
| "runner_machine_step maintained name StopCalled s =
     (case rg_pool s of
        RunAwaited \<Rightarrow> None
      | RunRejected _ \<Rightarrow> None
      | _ \<Rightarrow> Some (s\<lparr>rg_runner := runner_step StopRequested (rg_runner s)\<rparr>))"
| "runner_machine_step maintained name (PoolSettles r) s =
     (if rg_pool s = PoolUp then Some (s\<lparr>rg_pool := PoolEnded r, rg_listening := False\<rparr>) else None)"
| "runner_machine_step maintained name MaintenanceEnds s =
     (if rg_result s \<noteq> None then None
      else let s' = s\<lparr>rg_maintenance := stop_maintenance_phase (rg_maintenance s)\<rparr> in
      case rg_pool s of
        RunRejected e \<Rightarrow> Some (s'\<lparr>rg_on_create := False, rg_result := Some (Inl e)\<rparr>)
      | PoolEnded r \<Rightarrow> Some (s'\<lparr>rg_result := Some (bind_res r (\<lambda>_.
            if ru_requested (rg_runner s) then Inr ()
            else Inl (WorkerStoppedError name (ru_cause (rg_runner s)))))\<rparr>)
      | _ \<Rightarrow> None)"

inductive runner_reachable :: "bool \<Rightarrow> string option \<Rightarrow> runner_machine \<Rightarrow> bool" for maintained name where
  started: "runner_reachable maintained name start_runner"
| step: "runner_reachable maintained name s \<Longrightarrow> runner_machine_step maintained name ev s = Some s' \<Longrightarrow>
    runner_reachable maintained name s'"

section \<open>A runner cleans up\<close>

definition pool_over :: "pool_phase \<Rightarrow> bool" where
  "pool_over p \<longleftrightarrow> (case p of RunRejected _ \<Rightarrow> True | PoolEnded _ \<Rightarrow> True | _ \<Rightarrow> False)"

definition maintaining :: "maintenance_phase \<Rightarrow> bool" where
  "maintaining m \<longleftrightarrow> (case m of Maintaining _ \<Rightarrow> True | _ \<Rightarrow> False)"

definition runner_inv :: "runner_machine \<Rightarrow> bool" where
  "runner_inv s \<longleftrightarrow>
     (rg_listening s \<longleftrightarrow> \<not> pool_over (rg_pool s)) \<and>
     (rg_on_create s \<longrightarrow> rg_result s = None \<and> (rg_pool s = RunAwaited \<or> (\<exists>e. rg_pool s = RunRejected e))) \<and>
     (rg_result s \<noteq> None \<longrightarrow> pool_over (rg_pool s) \<and> \<not> maintaining (rg_maintenance s)) \<and>
     (case rg_maintenance s of MaintenanceStopped _ \<Rightarrow> rg_result s \<noteq> None | _ \<Rightarrow> True) \<and>
     (case rg_pool s of
        RunRejected e \<Rightarrow> rg_result s = None \<or> rg_result s = Some (Inl e)
      | PoolEnded (Inl e) \<Rightarrow> rg_result s = None \<or> rg_result s = Some (Inl e)
      | _ \<Rightarrow> True)"

lemma runner_inv_runner [simp]: "runner_inv (s\<lparr>rg_runner := x\<rparr>) = runner_inv s"
  by (simp add: runner_inv_def cong: pool_phase.case_cong sum.case_cong maintenance_phase.case_cong)

lemma runner_phase_inv:
  assumes "runner_inv s"
  shows "rg_pool s = RunAwaited \<Longrightarrow> runner_inv (s\<lparr>rg_pool := PoolUp, rg_on_create := False\<rparr>)"
    and "rg_pool s = RunAwaited \<Longrightarrow> runner_inv (s\<lparr>rg_pool := RunRejected e, rg_listening := False\<rparr>)"
    and "rg_pool s = PoolUp \<Longrightarrow> runner_inv (s\<lparr>rg_pool := PoolEnded r, rg_listening := False\<rparr>)"
  using assms
  by (auto simp: runner_inv_def pool_over_def split: maintenance_phase.splits sum.splits)

lemma maintenance_ends_inv:
  assumes "runner_inv s" "rg_result s = None"
    and "rg_pool s = RunRejected e \<and> s' = s\<lparr>rg_maintenance := stop_maintenance_phase (rg_maintenance s),
        rg_on_create := False, rg_result := Some (Inl e)\<rparr> \<or>
      rg_pool s = PoolEnded r \<and> s' = s\<lparr>rg_maintenance := stop_maintenance_phase (rg_maintenance s),
        rg_result := Some (bind_res r f)\<rparr>"
  shows "runner_inv s'"
  using assms(3)
proof
  have stopped: "\<not> maintaining (stop_maintenance_phase m)" for m
    by (cases m) (simp_all add: maintaining_def stop_maintenance_phase_def)
  {
    assume "rg_pool s = RunRejected e \<and> s' = s\<lparr>rg_maintenance := stop_maintenance_phase (rg_maintenance s),
        rg_on_create := False, rg_result := Some (Inl e)\<rparr>"
    then show ?thesis
      using assms(1,2) stopped by (simp add: runner_inv_def pool_over_def split: maintenance_phase.split)
  next
    assume a: "rg_pool s = PoolEnded r \<and> s' = s\<lparr>rg_maintenance := stop_maintenance_phase (rg_maintenance s),
        rg_result := Some (bind_res r f)\<rparr>"
    then show ?thesis
      using assms(1,2) stopped
      by (cases r) (simp_all add: runner_inv_def pool_over_def split: maintenance_phase.split)
  }
qed

lemma runner_machine_inv:
  assumes "runner_inv s" "runner_machine_step maintained name ev s = Some s'"
  shows "runner_inv s'"
proof (cases ev)
  case (PoolCreated w)
  with assms show ?thesis
    by (auto simp: runner_inv_def pool_over_def maintaining_def split: if_splits)
next
  case MaintenanceEnds
  with assms(2) have "rg_result s = None" by (simp split: if_splits)
  with assms MaintenanceEnds show ?thesis
    by (cases "rg_pool s") (auto simp: Let_def intro: maintenance_ends_inv)
qed (use assms runner_phase_inv in \<open>auto split: if_splits pool_phase.splits\<close>)

lemma runner_reachable_inv: "runner_reachable maintained name s \<Longrightarrow> runner_inv s"
proof (induction rule: runner_reachable.induct)
  case started
  then show ?case by (simp add: runner_inv_def start_runner_def pool_over_def)
qed (rule runner_machine_inv)

text \<open>
  A runner cleans up after itself: its maintenance lasts until its pool has ended or failed to start
  and no longer than its promise; once the promise has settled no listener is left and no
  maintenance runs; and as soon as the pool has ended, stopping the maintenance settles the
  promise, which resolves exactly when the pool ended well and a stop was requested by then.
\<close>

theorem runner_cleans_up:
  assumes "runner_reachable maintained name s"
  shows "(rg_result s \<noteq> None \<longrightarrow> \<not> rg_listening s \<and> \<not> rg_on_create s \<and> \<not> maintaining (rg_maintenance s)) \<and>
    (\<forall>w. rg_maintenance s = MaintenanceStopped w \<longrightarrow> pool_over (rg_pool s)) \<and>
    (pool_over (rg_pool s) \<and> rg_result s = None \<longrightarrow>
       (\<exists>s'. runner_machine_step maintained name MaintenanceEnds s = Some s' \<and>
          rg_result s' = Some (case rg_pool s of
            PoolEnded (Inr _) \<Rightarrow> if ru_requested (rg_runner s) then Inr ()
              else Inl (WorkerStoppedError name (ru_cause (rg_runner s)))
          | PoolEnded (Inl e) \<Rightarrow> Inl e
          | RunRejected e \<Rightarrow> Inl e)))"
proof -
  have inv: "runner_inv s" by (rule runner_reachable_inv [OF assms])
  have "\<not> rg_on_create s" if "rg_result s \<noteq> None" using inv that by (auto simp: runner_inv_def)
  moreover have "\<exists>s'. runner_machine_step maintained name MaintenanceEnds s = Some s' \<and>
      rg_result s' = Some (case rg_pool s of
        PoolEnded (Inr _) \<Rightarrow> if ru_requested (rg_runner s) then Inr ()
          else Inl (WorkerStoppedError name (ru_cause (rg_runner s)))
      | PoolEnded (Inl e) \<Rightarrow> Inl e
      | RunRejected e \<Rightarrow> Inl e)" if "pool_over (rg_pool s)" "rg_result s = None"
    using that by (auto simp: pool_over_def Let_def split: pool_phase.splits sum.splits)
  ultimately show ?thesis
    using inv by (auto simp: runner_inv_def)
qed

text \<open>A pool that shuts down on its own, with maintenance.\<close>

fun runner_events :: "bool \<Rightarrow> string option \<Rightarrow> runner_event list \<Rightarrow> runner_machine \<Rightarrow> runner_machine option" where
  "runner_events maintained name [] s = Some s"
| "runner_events maintained name (e # es) s =
     (case runner_machine_step maintained name e s of
        None \<Rightarrow> None | Some s' \<Rightarrow> runner_events maintained name es s')"

lemma runner_events_reachable:
  "runner_events maintained name es s = Some s' \<Longrightarrow> runner_reachable maintained name s \<Longrightarrow>
   runner_reachable maintained name s'"
  by (induction es s rule: runner_events.induct [where ?a0.0 = maintained and ?a1.0 = name])
     (auto split: option.splits intro: runner_reachable.step)

definition sample_ended_runner :: runner_machine where
  "sample_ended_runner = \<lparr>rg_pool = PoolEnded (Inr ()), rg_on_create = False, rg_listening = False,
     rg_maintenance = Maintaining ''w1'',
     rg_runner = \<lparr>ru_cause = Some (plain_error ''SIGTERM''), ru_requested = False\<rparr>, rg_result = None\<rparr>"

theorem runner_cleans_up_witness:
  "\<exists>s'. runner_machine_step True (Some ''fast'') MaintenanceEnds sample_ended_runner = Some s' \<and>
     rg_result s' = Some (Inl (WorkerStoppedError (Some ''fast'') (Some (plain_error ''SIGTERM''))))"
proof -
  have "runner_events True (Some ''fast'') [PoolCreated ''w1'', RunResolves, PoolEvent (PoolShutdown ''SIGTERM''),
      PoolSettles (Inr ())] start_runner = Some sample_ended_runner"
    by (simp add: start_runner_def new_runner_def sample_ended_runner_def)
  then have "runner_reachable True (Some ''fast'') sample_ended_runner"
    by (rule runner_events_reachable) (rule runner_reachable.started)
  from runner_cleans_up [OF this] show ?thesis
    by (simp add: sample_ended_runner_def pool_over_def)
qed

section \<open>Looking for jobs again\<close>

text \<open>
  \<open>secondLookListener\<close>: a notification on the jobs' channel nudges the pool one more time after
  the delay, if it is still active and not shutting down by then.
\<close>

definition second_look :: "int option \<Rightarrow> string \<Rightarrow> int option" where
  "second_look delay channel = (if channel \<noteq> ''jobs:insert'' then None else delay)"

definition second_look_nudges :: "bool \<Rightarrow> bool \<Rightarrow> nat" where
  "second_look_nudges active shutting_down = (if active \<and> \<not> shutting_down then 1 else 0)"

end
