(* ===== verification/Tracing.thy ===== *)
theory Tracing
  imports Payload
begin

text \<open>
  Spans around the program's work, \<^verbatim>\<open>src/src/otel.ts\<close>. The OpenTelemetry API is a
  third-party package: an adapter is any behaviour it may have, a tree of the calls it makes of its
  callback and of how it settles in the end, and the operations of its spans may fail. Spans act
  on an observer's world \<open>'o\<close>; the work under a span acts on it and on a part \<open>'x\<close> of its own.
\<close>

section \<open>Spans\<close>

text \<open>Attribute values; the numbers are the integers the program records.\<close>

datatype attr = AStr string | ANum int | ABool bool | ANull | AUndefined

type_synonym attributes = "(string \<times> attr) list"

definition compact_span_event_attributes :: "attributes option \<Rightarrow> attributes option" where
  "compact_span_event_attributes attributes =
     map_option (filter (\<lambda>(k, v). v \<noteq> ANull \<and> v \<noteq> AUndefined)) attributes"

datatype span_op =
    SetAttribute string attr
  | SetAttributes attributes
  | SetStatus int "string option"
  | AddEvent string "attributes option"
  | RecordException js_error
  | EndSpan

text \<open>An operation of the tracer's span may fail, at once or later; one of the job's span may not.\<close>

type_synonym 'w raw_span = "span_op \<Rightarrow> 'w \<Rightarrow> unit res \<times> 'w"
type_synonym 'w job_span = "span_op \<Rightarrow> 'w \<Rightarrow> 'w"

definition safe :: "('w \<Rightarrow> unit res \<times> 'w) \<Rightarrow> 'w \<Rightarrow> 'w" where
  "safe f w = snd (f w)"

definition create_noop_span :: "'w job_span" where
  "create_noop_span op w = w"

fun raw_operation :: "span_op \<Rightarrow> span_op" where
  "raw_operation (AddEvent name attributes) = AddEvent name (compact_span_event_attributes attributes)"
| "raw_operation op = op"

definition wrap_otel_span :: "'w raw_span \<Rightarrow> 'w job_span" where
  "wrap_otel_span raw op = safe (raw (raw_operation op))"

section \<open>Running under a span\<close>

text \<open>
  What \<open>startActiveSpan\<close> does with its callback: it settles, or it calls the callback with a span and
  goes on with what the callback's promise settles with.
\<close>

datatype ('o, 'v) trace_adapter =
    Settles "'v res"
  | Invokes "'o raw_span" "'v res \<Rightarrow> ('o, 'v) trace_adapter"

datatype span_kind = Internal | Consumer | Producer

type_synonym ('o, 'v) tracer = "string \<Rightarrow> string \<Rightarrow> span_kind \<Rightarrow> trace_context option \<Rightarrow> ('o, 'v) trace_adapter"
type_synonym ('x, 'o, 'v) work = "'o job_span \<Rightarrow> 'x \<times> 'o \<Rightarrow> 'v res \<times> 'x \<times> 'o"

definition end_span :: "'o job_span \<Rightarrow> 'x \<times> 'o \<Rightarrow> 'x \<times> 'o" where
  "end_span sp w = (fst w, sp EndSpan (snd w))"

text \<open>
  The callback runs the work at its first call only; \<open>execution\<close> is what that run settled with. An
  adapter that fails without having called it gets the work run without a span.
\<close>

primrec run_adapter ::
  "('o, 'v) trace_adapter \<Rightarrow> ('x, 'o, 'v) work \<Rightarrow> 'v res option \<Rightarrow> 'x \<times> 'o \<Rightarrow> 'v res \<times> 'x \<times> 'o" where
  "run_adapter (Settles r) fn execution w =
     (case r of
        Inr v \<Rightarrow> (Inr v, w)
      | Inl _ \<Rightarrow> (case execution of Some r' \<Rightarrow> (r', w) | None \<Rightarrow> fn create_noop_span w))"
| "run_adapter (Invokes raw goes_on) fn execution w =
     (case execution of
        Some r \<Rightarrow> run_adapter (goes_on r) fn execution w
      | None \<Rightarrow> (case fn (wrap_otel_span raw) w of
          (r, w1) \<Rightarrow> run_adapter (goes_on r) fn (Some r) (end_span (wrap_otel_span raw) w1)))"

text \<open>Without a tracer the work runs under a span that does nothing.\<close>

definition with_active_span ::
  "('o, 'v) tracer option \<Rightarrow> string \<Rightarrow> string \<Rightarrow> span_kind \<Rightarrow> trace_context option \<Rightarrow>
   ('x, 'o, 'v) work \<Rightarrow> 'x \<times> 'o \<Rightarrow> 'v res \<times> 'x \<times> 'o" where
  "with_active_span api tracer_name span_name kind link fn w =
     (case api of
        None \<Rightarrow> (case fn create_noop_span w of (r, w1) \<Rightarrow> (r, end_span create_noop_span w1))
      | Some tracer \<Rightarrow> run_adapter (tracer tracer_name span_name kind link) fn None w)"

text \<open>
  An adapter is honest when it resolves only with what the callback gave it; it may call the
  callback never or often, drop its result, and fail at any point.
\<close>

primrec honest :: "('o, 'v) trace_adapter \<Rightarrow> 'v res option \<Rightarrow> bool" where
  "honest (Settles r) execution \<longleftrightarrow> (\<exists>e. r = Inl e) \<or> execution = Some r"
| "honest (Invokes raw goes_on) execution \<longleftrightarrow>
     (\<forall>r. execution = None \<or> execution = Some r \<longrightarrow> honest (goes_on r) (Some r))"

definition honest_tracer :: "('o, 'v) tracer option \<Rightarrow> bool" where
  "honest_tracer api = (\<forall>tracer t n k l. api = Some tracer \<longrightarrow> honest (tracer t n k l) None)"

lemma run_adapter_executed:
  "honest a (Some r) \<Longrightarrow> run_adapter a fn (Some r) w = (r, w)"
  by (induction a) (auto split: sum.split)

text \<open>An adapter is quiet for a part of the observers' world when its spans leave that part alone.\<close>

primrec quiet_adapter :: "('o \<Rightarrow> 's) \<Rightarrow> ('o, 'v) trace_adapter \<Rightarrow> bool" where
  "quiet_adapter seen (Settles r) \<longleftrightarrow> True"
| "quiet_adapter seen (Invokes raw goes_on) \<longleftrightarrow>
     (\<forall>op w. seen (snd (raw op w)) = seen w) \<and> (\<forall>r. quiet_adapter seen (goes_on r))"

definition quiet_tracer :: "('o \<Rightarrow> 's) \<Rightarrow> ('o, 'v) tracer option \<Rightarrow> bool" where
  "quiet_tracer seen api = (\<forall>tracer t n k l. api = Some tracer \<longrightarrow> quiet_adapter seen (tracer t n k l))"

lemma traced_once:
  assumes "honest_tracer api"
  shows "\<exists>sp. (quiet_tracer seen api \<longrightarrow> (\<forall>op w. seen (sp op w) = seen w)) \<and>
    with_active_span api tracer_name span_name kind link fn w = (fst (fn sp w), end_span sp (snd (fn sp w)))"
proof (cases api)
  case None
  then show ?thesis
    by (intro exI [of _ create_noop_span])
       (simp add: with_active_span_def create_noop_span_def split: prod.split)
next
  case (Some tracer)
  let ?a = "tracer tracer_name span_name kind link"
  have honest: "honest ?a None" using assms Some by (simp add: honest_tracer_def)
  have "\<exists>sp. (quiet_adapter seen ?a \<longrightarrow> (\<forall>op w. seen (sp op w) = seen w)) \<and>
    run_adapter ?a fn None w = (fst (fn sp w), end_span sp (snd (fn sp w)))"
  proof (cases ?a)
    case (Settles r)
    with honest obtain e where "r = Inl e" by auto
    with Settles show ?thesis
      by (intro exI [of _ create_noop_span]) (simp add: create_noop_span_def end_span_def)
  next
    case (Invokes raw goes_on)
    with honest have "honest (goes_on r) (Some r)" for r by simp
    then show ?thesis
      by (intro exI [of _ "wrap_otel_span raw"])
         (simp add: Invokes run_adapter_executed wrap_otel_span_def safe_def split: prod.split)
  qed
  with Some show ?thesis by (auto simp: with_active_span_def quiet_tracer_def)
qed

text \<open>
  Tracing runs the work exactly once. Whatever an honest adapter does, call the callback never,
  once or often, or fail before, after or in between, the work is run exactly once, under some
  span, its result is the result, and nothing is done after it but ending that span.
\<close>

theorem traced_work_runs_once:
  assumes "honest_tracer api"
  shows "\<exists>sp. with_active_span api tracer_name span_name kind link fn w =
    (fst (fn sp w), end_span sp (snd (fn sp w)))"
  using traced_once [OF assms] by blast

text \<open>An adapter that calls its callback twice and then fails, over a counter and failing spans.\<close>

definition twice_then_fails :: "(nat, nat) tracer" where
  "twice_then_fails t n k l =
     (let raw = (\<lambda>op o'. (Inl (plain_error ''exporter''), o' + 1))
      in Invokes raw (\<lambda>_. Invokes raw (\<lambda>_. Settles (Inl (plain_error ''adapter'')))))"

theorem traced_work_runs_once_witness:
  "with_active_span (Some twice_then_fails) ''worker'' ''job'' Consumer None
     (\<lambda>sp (x :: nat, o'). (Inr (x + 7), x + 1, o')) (3, 0) = (Inr 10, 4, 1)"
proof -
  have "honest_tracer (Some twice_then_fails)"
    by (simp add: honest_tracer_def twice_then_fails_def Let_def)
  from traced_work_runs_once [OF this, of "''worker''" "''job''" Consumer None
      "\<lambda>sp (x :: nat, o'). (Inr (x + 7), x + 1, o')" "(3, 0)"]
  obtain sp :: "nat job_span" where
    "with_active_span (Some twice_then_fails) ''worker'' ''job'' Consumer None
       (\<lambda>sp (x :: nat, o'). (Inr (x + 7), x + 1, o')) (3, 0) = (Inr 10, 4, sp EndSpan 0)"
    by (auto simp: end_span_def)
  then show ?thesis
    by (simp add: with_active_span_def twice_then_fails_def Let_def wrap_otel_span_def safe_def end_span_def)
qed

section \<open>The active trace context\<close>

text \<open>
  What the program reads of the API: the context of the active span, its validity, the trace parent
  that the propagator, if any, puts into an empty carrier, and the status codes. Each may throw.
\<close>

record otel_api =
  oa_active_span :: "trace_context option res"
  oa_valid :: "trace_context \<Rightarrow> bool res"
  oa_propagated :: "string option res option"
  oa_status_codes :: "(int option \<times> int option) res"

definition get_active_trace_context :: "otel_api option \<Rightarrow> trace_context option res" where
  "get_active_trace_context api =
     (case api of
        None \<Rightarrow> Inr None
      | Some otel \<Rightarrow> bind_res (oa_active_span otel) (\<lambda>span.
          case span of
            None \<Rightarrow> Inr None
          | Some ctx \<Rightarrow> bind_res (oa_valid otel ctx) (\<lambda>valid. Inr (if valid then Some ctx else None))))"

definition get_active_traceparent :: "otel_api option \<Rightarrow> string option res" where
  "get_active_traceparent api =
     bind_res (case Option.bind api oa_propagated of None \<Rightarrow> Inr None | Some injected \<Rightarrow> injected) (\<lambda>tp.
       if tp \<noteq> None \<and> tp \<noteq> Some [] then Inr tp
       else bind_res (get_active_trace_context api) (\<lambda>ctx.
         Inr (map_option (\<lambda>(trace_id, span_id, flags). format_traceparent trace_id span_id flags) ctx)))"

definition otel_status_codes :: "otel_api option \<Rightarrow> int \<times> int" where
  "otel_status_codes api =
     (case api of
        None \<Rightarrow> (1, 2)
      | Some otel \<Rightarrow> (case oa_status_codes otel of
          Inl _ \<Rightarrow> (1, 2)
        | Inr (ok, err) \<Rightarrow> (nullish_else ok 1, nullish_else err 2)))"

lemma injected_link:
  "extract_producer_link (inject_trace_context data active) =
     Inr (case active of Inr (Some tp) \<Rightarrow> parse_traceparent tp | _ \<Rightarrow> None, data)"
  by (cases "case active of Inr (Some tp) \<Rightarrow> parse_traceparent tp | _ \<Rightarrow> None")
     (auto simp: extract_producer_link_def assert_payload_envelope_def inject_traceparent
      split: option.splits sum.splits)

text \<open>
  A job is linked to the span it was enqueued under: when the active span is valid and no propagator
  overrides it, the worker's reader finds the input and exactly that span's ids, with the low byte
  of its flags.
\<close>

theorem job_linked_to_producer:
  assumes "oa_active_span otel = Inr (Some (t, s, f))" and "oa_valid otel (t, s, f) = Inr True"
    and "oa_propagated otel = None" and "valid_trace_ids t s"
  shows "extract_producer_link (inject_trace_context data (get_active_traceparent (Some otel))) =
    Inr (Some (t, s, f mod 256), data)"
  using assms parse_format_traceparent [OF assms(4)]
  by (simp add: injected_link get_active_traceparent_def get_active_trace_context_def)

theorem job_linked_to_producer_witness:
  "extract_producer_link (inject_trace_context (Some JNull) (get_active_traceparent (Some
      \<lparr>oa_active_span = Inr (Some (replicate 32 (CHR ''a''), replicate 16 (CHR ''1''), 257)), oa_valid = (\<lambda>_. Inr True),
       oa_propagated = None, oa_status_codes = Inr (None, None)\<rparr>))) =
   Inr (Some (replicate 32 (CHR ''a''), replicate 16 (CHR ''1''), 1), Some JNull)"
proof -
  have "valid_trace_ids (replicate 32 (CHR ''a'')) (replicate 16 (CHR ''1''))" by code_simp
  from job_linked_to_producer [OF _ _ _ this, where f = 257 and data = "Some JNull" and
      otel = "\<lparr>oa_active_span = Inr (Some (replicate 32 (CHR ''a''), replicate 16 (CHR ''1''), 257)), oa_valid = (\<lambda>_. Inr True),
        oa_propagated = None, oa_status_codes = Inr (None, None)\<rparr>"]
  show ?thesis by simp
qed

end
