(* ===== verification/Observers.thy ===== *)
theory Observers
  imports Worker Tracing
begin

text \<open>
  What watches a worker: hooks (\<^verbatim>\<open>src/src/hooks.ts\<close>), guarded by
  \<^verbatim>\<open>src/src/observers.ts\<close>, the console logger (\<^verbatim>\<open>src/src/default-logger.ts\<close>) and
  the queue metrics (\<^verbatim>\<open>src/src/metrics.ts\<close>). Hooks, loggers and meters are the caller's:
  each call may fail and acts on a world \<open>'w\<close>. What the program makes of them has no failure left
  in its type.
\<close>

section \<open>Hooks and events\<close>

record job_finished =
  jf_queue :: string
  jf_duration :: int
  jf_job_id :: string
  jf_operation :: operation
  jf_attempt :: int
  jf_max_attempts :: int
  jf_outcome :: finished_event

record permanent_failure =
  pf_error :: js_error
  pf_queue :: string
  pf_job_id :: string
  pf_operation :: operation
  pf_attempts :: int
  pf_max_attempts :: int
  pf_payload :: "json option"

datatype log_level = LogDebug | LogInfo | LogWarn | LogError

type_synonym 'w raw_logger = "log_level \<Rightarrow> string \<Rightarrow> attributes option \<Rightarrow> 'w \<Rightarrow> unit res \<times> 'w"
type_synonym 'w job_logger = "log_level \<Rightarrow> string \<Rightarrow> attributes option \<Rightarrow> 'w \<Rightarrow> 'w"

record 'w hooks =
  hk_create_logger :: "(string \<Rightarrow> string \<Rightarrow> 'w \<Rightarrow> 'w raw_logger option res \<times> 'w) option"
  hk_job_finished :: "(job_finished \<Rightarrow> 'w \<Rightarrow> unit res \<times> 'w) option"
  hk_permanent_failure :: "(permanent_failure \<Rightarrow> 'w \<Rightarrow> unit res \<times> 'w) option"
  hk_enqueue_fail :: "(string \<times> js_error \<Rightarrow> 'w \<Rightarrow> unit res \<times> 'w) option"

text \<open>The console prints a line and, for the report of a failed observer, its error.\<close>

type_synonym 'w console = "log_level \<Rightarrow> string \<Rightarrow> js_error option \<Rightarrow> 'w \<Rightarrow> unit res \<times> 'w"

definition report :: "'w console \<Rightarrow> js_error \<Rightarrow> 'w \<Rightarrow> 'w" where
  "report console e = safe (console LogError ''better-graphile-worker observer failed'' (Some e))"

definition guarded :: "'w console \<Rightarrow> ('w \<Rightarrow> unit res \<times> 'w) \<Rightarrow> 'w \<Rightarrow> 'w" where
  "guarded console call w = (case call w of (Inr _, w') \<Rightarrow> w' | (Inl e, w') \<Rightarrow> report console e w')"

definition observe :: "'w console \<Rightarrow> ('e \<Rightarrow> 'w \<Rightarrow> unit res \<times> 'w) option \<Rightarrow> 'e \<Rightarrow> 'w \<Rightarrow> 'w" where
  "observe console callback event w =
     (case callback of None \<Rightarrow> w | Some f \<Rightarrow> guarded console (f event) w)"

definition safe_logger :: "'w console \<Rightarrow> 'w raw_logger \<Rightarrow> 'w job_logger" where
  "safe_logger console logger level message attributes =
     guarded console (logger level message attributes)"

section \<open>The console logger\<close>

text \<open>\<open>JSON.stringify\<close> of a flat record: undefined values are left out.\<close>

definition escape_char :: "char \<Rightarrow> string" where
  "escape_char c =
     (let n = (of_char c :: nat); backslash = CHR 0x5C in
      if c = CHR 0x22 \<or> c = backslash then [backslash, c]
      else if n = 8 then [backslash, CHR ''b'']
      else if n = 9 then [backslash, CHR ''t'']
      else if n = 10 then [backslash, CHR ''n'']
      else if n = 12 then [backslash, CHR ''f'']
      else if n = 13 then [backslash, CHR ''r'']
      else if n < 32 then backslash # ''u00'' @ pad_left 2 (show_hex_byte n)
      else [c])"

definition json_quote :: "string \<Rightarrow> string" where
  "json_quote s = dq @ concat (map escape_char s) @ dq"

fun attr_text :: "attr \<Rightarrow> string option" where
  "attr_text (AStr s) = Some (json_quote s)"
| "attr_text (ANum n) = Some (show_int n)"
| "attr_text (ABool b) = Some (if b then ''true'' else ''false'')"
| "attr_text ANull = Some ''null''"
| "attr_text AUndefined = None"

definition stringify_attributes :: "attributes \<Rightarrow> string" where
  "stringify_attributes kvs = ''{'' @ join_with '',''
     (List.map_filter (\<lambda>(k, v). map_option (\<lambda>t. json_quote k @ '':'' @ t) (attr_text v)) kvs) @ ''}''"

definition format_attributes :: "attributes option \<Rightarrow> string" where
  "format_attributes attributes =
     (case attributes of
        None \<Rightarrow> ''''
      | Some kvs \<Rightarrow> if kvs = [] then '''' else '' '' @ stringify_attributes kvs)"

definition create_console_logger :: "'w console \<Rightarrow> string \<Rightarrow> string \<Rightarrow> 'w raw_logger" where
  "create_console_logger console queue job_id level message attributes =
     console level (''['' @ queue @ '' '' @ job_id @ ''] '' @ message @ format_attributes attributes) None"

text \<open>The logger of a job: the hook's, or the console's when there is none or making it failed.\<close>

definition job_logger_of ::
  "'w console \<Rightarrow> 'w hooks \<Rightarrow> string \<Rightarrow> string \<Rightarrow> 'w \<Rightarrow> 'w job_logger \<times> 'w" where
  "job_logger_of console hooks queue job_id w =
     (let fallback = safe_logger console (create_console_logger console queue job_id) in
      case hk_create_logger hooks of
        None \<Rightarrow> (fallback, w)
      | Some create \<Rightarrow> (case create queue job_id w of
          (Inr (Some logger), w') \<Rightarrow> (safe_logger console logger, w')
        | (Inr None, w') \<Rightarrow> (fallback, w')
        | (Inl e, w') \<Rightarrow> (fallback, report console e w')))"

definition printable :: "string \<Rightarrow> bool" where
  "printable s = list_all (\<lambda>c. 32 \<le> (of_char c :: nat)) s"

lemma printable_simps [simp]:
  "printable []" "printable (c # s) \<longleftrightarrow> 32 \<le> (of_char c :: nat) \<and> printable s"
  "printable (s @ t) \<longleftrightarrow> printable s \<and> printable t"
  by (simp_all add: printable_def)

lemma printable_concat [simp]: "printable (concat ss) \<longleftrightarrow> list_all printable ss"
  by (induction ss) auto

lemma printable_join: "printable sep \<Longrightarrow> list_all printable ss \<Longrightarrow> printable (join_with sep ss)"
  by (induction sep ss rule: join_with.induct) auto

lemma printable_nat: "printable (show_nat n)"
proof -
  have "list_all is_digit (show_nat n)" using all_digits_show_nat [of n] by (simp add: all_digits_def)
  then show ?thesis by (auto simp: printable_def is_digit_def list_all_iff)
qed

lemma printable_escape: "printable (escape_char c)"
proof -
  have "printable (pad_left 2 (show_hex_byte n))" if "n < 256" for n
    unfolding hex_byte_padded [OF that] using that by (auto simp: hex_digit_def)
  then show ?thesis by (auto simp: escape_char_def Let_def)
qed

lemma printable_quote: "printable (json_quote s)"
  by (simp add: json_quote_def list_all_iff printable_escape)

text \<open>
  A log line cannot be forged through attributes: whatever their names and values, they add no
  line break or other control character to the printed line.
\<close>

theorem attributes_printable: "printable (format_attributes attributes)"
proof -
  have attr: "printable t" if "attr_text v = Some t" for v t
    using that printable_quote printable_nat by (cases v) (auto simp: show_int_def)
  have "printable (stringify_attributes kvs)" for kvs
    unfolding stringify_attributes_def
    using printable_quote attr by (auto intro!: printable_join simp: List.map_filter_def list_all_iff)
  then show ?thesis by (simp add: format_attributes_def split: option.split)
qed

section \<open>Queue metrics\<close>

datatype metric_kind = Counter | Histogram

record metric_definition =
  md_name :: string
  md_kind :: metric_kind
  md_unit :: "string option"
  md_description :: string
  md_attributes :: "(string \<times> string list option) list"

definition total_metric :: metric_definition where
  "total_metric = \<lparr>md_name = ''graphile_job_total'', md_kind = Counter, md_unit = None,
     md_description = ''Graphile Worker jobs finished by queue and status'',
     md_attributes = [(''queue'', None), (''status'', Some [''success'', ''failed''])]\<rparr>"

definition duration_metric :: metric_definition where
  "duration_metric = \<lparr>md_name = ''graphile_job_duration_ms'', md_kind = Histogram, md_unit = Some ''ms'',
     md_description = ''Graphile Worker job duration by queue and status'',
     md_attributes = [(''queue'', None), (''status'', Some [''success'', ''failed''])]\<rparr>"

definition permanent_metric :: metric_definition where
  "permanent_metric = \<lparr>md_name = ''graphile_job_permanently_failed_total'', md_kind = Counter, md_unit = None,
     md_description = ''Graphile Worker jobs that exhausted max attempts'',
     md_attributes = [(''queue'', None)]\<rparr>"

definition enqueue_fail_metric :: metric_definition where
  "enqueue_fail_metric = \<lparr>md_name = ''graphile_job_enqueue_fail_total'', md_kind = Counter, md_unit = None,
     md_description = ''Failed createJob / prepareJob enqueue attempts'',
     md_attributes = [(''queue'', None)]\<rparr>"

text \<open>A meter creates instruments; an instrument records a value under labels. Both may throw.\<close>

type_synonym labels = "(string \<times> string) list"
type_synonym 'w instrument = "int \<Rightarrow> labels \<Rightarrow> 'w \<Rightarrow> unit res \<times> 'w"
type_synonym 'w meter = "metric_kind \<Rightarrow> string \<Rightarrow> string \<Rightarrow> string option \<Rightarrow> 'w instrument res"

record 'w queue_metrics =
  qm_jobs :: "'w instrument"
  qm_duration :: "'w instrument"
  qm_permanently_failed :: "'w instrument"
  qm_enqueue_failed :: "'w instrument"

definition create_instrument :: "'w meter \<Rightarrow> metric_definition \<Rightarrow> 'w instrument res" where
  "create_instrument meter m = meter (md_kind m) (md_name m) (md_description m) (md_unit m)"

definition create_queue_metrics :: "'w meter option res \<Rightarrow> 'w queue_metrics option res" where
  "create_queue_metrics api =
     bind_res api (\<lambda>meter. case meter of
       None \<Rightarrow> Inr None
     | Some m \<Rightarrow>
         bind_res (create_instrument m total_metric) (\<lambda>jobs.
         bind_res (create_instrument m duration_metric) (\<lambda>duration.
         bind_res (create_instrument m permanent_metric) (\<lambda>permanent.
         bind_res (create_instrument m enqueue_fail_metric) (\<lambda>enqueue_fail.
         Inr (Some \<lparr>qm_jobs = jobs, qm_duration = duration, qm_permanently_failed = permanent,
           qm_enqueue_failed = enqueue_fail\<rparr>))))))"

text \<open>The calls of one recording: the first one to throw ends it, and what it threw is dropped.\<close>

fun call_all :: "('w \<Rightarrow> unit res \<times> 'w) list \<Rightarrow> 'w \<Rightarrow> unit res \<times> 'w" where
  "call_all [] w = (Inr (), w)"
| "call_all (f # fs) w = (case f w of (Inl e, w') \<Rightarrow> (Inl e, w') | (Inr _, w') \<Rightarrow> call_all fs w')"

fun status_text :: "job_status \<Rightarrow> string" where
  "status_text Success = ''success''"
| "status_text Failed = ''failed''"

definition finished_labels :: "job_finished \<Rightarrow> labels" where
  "finished_labels ev = [(''queue'', jf_queue ev), (''status'', status_text (fe_status (jf_outcome ev)))]"

definition record_finished :: "'w queue_metrics \<Rightarrow> job_finished \<Rightarrow> 'w \<Rightarrow> 'w" where
  "record_finished qm ev = safe (call_all
     ([qm_jobs qm 1 (finished_labels ev), qm_duration qm (jf_duration ev) (finished_labels ev)] @
      (if fe_permanently_failed (jf_outcome ev) then [qm_permanently_failed qm 1 [(''queue'', jf_queue ev)]] else [])))"

definition then_call :: "('w \<Rightarrow> 'w) \<Rightarrow> ('e \<Rightarrow> 'w \<Rightarrow> unit res \<times> 'w) option \<Rightarrow> 'e \<Rightarrow> 'w \<Rightarrow> unit res \<times> 'w" where
  "then_call first hook event w =
     (case hook of None \<Rightarrow> (Inr (), first w) | Some f \<Rightarrow> f event (first w))"

text \<open>\<open>api\<close> is \<open>None\<close> unless metrics are on; otherwise what its \<open>getMeter\<close> gives.\<close>

definition with_queue_metrics :: "'w hooks \<Rightarrow> 'w meter option res option \<Rightarrow> 'w hooks" where
  "with_queue_metrics hooks api =
     (case api of
        None \<Rightarrow> hooks
      | Some meter \<Rightarrow> (case create_queue_metrics meter of
          Inr (Some qm) \<Rightarrow> hooks
            \<lparr>hk_job_finished := Some (\<lambda>ev. then_call (record_finished qm ev) (hk_job_finished hooks) ev),
             hk_enqueue_fail := Some (\<lambda>ev. then_call
               (safe (qm_enqueue_failed qm 1 [(''queue'', fst ev)])) (hk_enqueue_fail hooks) ev)\<rparr>
        | _ \<Rightarrow> hooks))"

text \<open>
  A world of two parts: what a meter keeps, and what the caller's hooks act on. \<open>on_second\<close> runs a
  call on the second part; a call \<open>leaves_second\<close> when it acts on the first one only.
\<close>

definition on_second :: "('o \<Rightarrow> 'a \<times> 'o) \<Rightarrow> 'm \<times> 'o \<Rightarrow> 'a \<times> 'm \<times> 'o" where
  "on_second f w = (case f (snd w) of (r, u) \<Rightarrow> (r, fst w, u))"

definition leaves_second :: "('m \<times> 'o \<Rightarrow> 'a \<times> 'm \<times> 'o) \<Rightarrow> bool" where
  "leaves_second f \<longleftrightarrow> (\<forall>w. snd (snd (f w)) = snd w)"

definition quiet_meter :: "('m \<times> 'o) meter option res option \<Rightarrow> bool" where
  "quiet_meter api \<longleftrightarrow> (\<forall>meter kind name text unit i value ls.
     api = Some (Inr (Some meter)) \<longrightarrow> meter kind name text unit = Inr i \<longrightarrow> leaves_second (i value ls))"

definition fire :: "('e \<Rightarrow> 'w \<Rightarrow> unit res \<times> 'w) option \<Rightarrow> 'e \<Rightarrow> 'w \<Rightarrow> unit res \<times> 'w" where
  "fire hook event w = (case hook of None \<Rightarrow> (Inr (), w) | Some f \<Rightarrow> f event w)"

definition beside :: "'o hooks \<Rightarrow> ('m \<times> 'o) hooks" where
  "beside hooks = \<lparr>hk_create_logger = None,
     hk_job_finished = map_option (\<lambda>f ev. on_second (f ev)) (hk_job_finished hooks),
     hk_permanent_failure = map_option (\<lambda>f ev. on_second (f ev)) (hk_permanent_failure hooks),
     hk_enqueue_fail = map_option (\<lambda>f ev. on_second (f ev)) (hk_enqueue_fail hooks)\<rparr>"

lemma leaves_secondD: "leaves_second f \<Longrightarrow> snd (snd (f w)) = snd w"
  unfolding leaves_second_def by blast

lemma leaves_call_all: "list_all leaves_second fs \<Longrightarrow> leaves_second (call_all fs)"
proof (induction fs)
  case (Cons f fs)
  have "snd (snd (call_all (f # fs) w)) = snd w" for w
  proof (cases "f w")
    case (fields r m u)
    define w1 where "w1 = (m, u)"
    have Pair: "f w = (r, w1)" using fields by (simp add: w1_def)
    then have "snd w1 = snd w" using Cons.prems leaves_secondD [of f w] by simp
    with Pair Cons leaves_secondD [of "call_all fs" w1] show ?thesis by (simp split: sum.split)
  qed
  then show ?case by (simp add: leaves_second_def)
qed (simp add: leaves_second_def)

lemma leaves_safe: "leaves_second f \<Longrightarrow> snd (safe f w) = snd w"
  by (simp add: safe_def leaves_secondD)

lemma quiet_metrics:
  assumes "quiet_meter (Some api)" "create_queue_metrics api = Inr (Some qm)"
  shows "leaves_second (qm_jobs qm v ls)" "leaves_second (qm_duration qm v ls)"
    "leaves_second (qm_permanently_failed qm v ls)" "leaves_second (qm_enqueue_failed qm v ls)"
proof -
  obtain m where x: "api = Inr (Some m)"
    using assms(2) by (cases api) (auto simp: create_queue_metrics_def split: option.splits)
  with assms(2) have "create_instrument m total_metric = Inr (qm_jobs qm)"
      "create_instrument m duration_metric = Inr (qm_duration qm)"
      "create_instrument m permanent_metric = Inr (qm_permanently_failed qm)"
      "create_instrument m enqueue_fail_metric = Inr (qm_enqueue_failed qm)"
    by (auto simp: create_queue_metrics_def res_simps)
  with assms(1) show "leaves_second (qm_jobs qm v ls)" "leaves_second (qm_duration qm v ls)"
      "leaves_second (qm_permanently_failed qm v ls)" "leaves_second (qm_enqueue_failed qm v ls)"
    unfolding quiet_meter_def x create_instrument_def by blast+
qed

lemma quiet_finished:
  assumes "quiet_meter (Some api)" "create_queue_metrics api = Inr (Some qm)"
  shows "snd (record_finished qm ev w) = snd w"
  unfolding record_finished_def
  by (rule leaves_safe [OF leaves_call_all]) (simp add: quiet_metrics [OF assms])

lemma fire_beside:
  "snd (first w) = snd w \<Longrightarrow>
   map_prod id snd (then_call first (map_option (\<lambda>f ev. on_second (f ev)) hook) ev w) = fire hook ev (snd w)"
  by (auto simp: then_call_def fire_def on_second_def split: option.split prod.split)

text \<open>
  Metrics are invisible to the caller: with a meter that acts on its own state, whether it
  cannot be had, lacks instruments, or throws at any recording, every hook is called with the same
  event in the same state of the caller's world, once, and its result is the result.
\<close>

theorem metrics_invisible:
  assumes "quiet_meter api"
  shows "map_prod id snd (fire (hk_job_finished (with_queue_metrics (beside user) api)) ev w) =
      fire (hk_job_finished user) ev (snd w) \<and>
    map_prod id snd (fire (hk_enqueue_fail (with_queue_metrics (beside user) api)) failure w) =
      fire (hk_enqueue_fail user) failure (snd w)"
proof -
  have plain: "map_prod id snd (fire (map_option (\<lambda>f ev. on_second (f ev)) hook) ev w) = fire hook ev (snd w)"
    for hook :: "('e \<Rightarrow> 'b \<Rightarrow> unit res \<times> 'b) option" and ev
    by (auto simp: fire_def on_second_def split: option.split prod.split)
  show ?thesis
  proof (cases "\<exists>x qm. api = Some x \<and> create_queue_metrics x = Inr (Some qm)")
    case True
    then obtain x qm where x: "api = Some x" "create_queue_metrics x = Inr (Some qm)" by blast
    then have quiet: "quiet_meter (Some x)" using assms by simp
    have "snd (safe (qm_enqueue_failed qm 1 ls) w) = snd w" for ls
      by (rule leaves_safe [OF quiet_metrics(4) [OF quiet x(2)]])
    with x quiet_finished [OF quiet x(2)] show ?thesis
      by (simp add: with_queue_metrics_def fire_def [of "Some _"] beside_def fire_beside)
  next
    case False
    then have "with_queue_metrics (beside user) api = beside user"
      by (auto simp: with_queue_metrics_def split: option.split sum.split)
    then show ?thesis by (simp add: beside_def plain)
  qed
qed

text \<open>A meter that writes down what it records, and one whose every recording fails.\<close>

definition log_meter :: "((string \<times> int \<times> labels) list \<times> 'o) meter" where
  "log_meter kind name text unit = Inr (\<lambda>value ls w. (Inr (), fst w @ [(name, value, ls)], snd w))"

definition broken_meter :: "('m \<times> 'o) meter" where
  "broken_meter kind name text unit = Inr (\<lambda>value ls w. (Inl (plain_error ''exporter''), w))"

definition counting_hooks :: "nat hooks" where
  "counting_hooks = \<lparr>hk_create_logger = None, hk_job_finished = Some (\<lambda>ev n. (Inr (), n + 1)),
     hk_permanent_failure = None, hk_enqueue_fail = None\<rparr>"

definition sample_finished :: job_finished where
  "sample_finished = \<lparr>jf_queue = ''mail'', jf_duration = 12, jf_job_id = ''7'', jf_operation = Process,
     jf_attempt = 1, jf_max_attempts = 3, jf_outcome = tr_finished (failed_run None (plain_error ''no'') True None)\<rparr>"

theorem metrics_invisible_witness:
  "map_prod id snd (fire (hk_job_finished (with_queue_metrics (beside counting_hooks) (Some (Inr (Some broken_meter)))))
     sample_finished ((), 4)) = (Inr (), 5)"
proof -
  have "quiet_meter (Some (Inr (Some broken_meter)))"
    by (auto simp: quiet_meter_def broken_meter_def leaves_second_def)
  from metrics_invisible [OF this, of counting_hooks sample_finished "((), 4)" undefined]
  have "map_prod id snd (fire (hk_job_finished (with_queue_metrics (beside counting_hooks) (Some (Inr (Some broken_meter)))))
     sample_finished ((), 4)) = fire (hk_job_finished counting_hooks) sample_finished 4" by simp
  also have "\<dots> = (Inr (), 5)" by (simp add: fire_def counting_hooks_def)
  finally show ?thesis .
qed

section \<open>What the metrics count\<close>

text \<open>The sum of what was recorded under a name and labels.\<close>

definition recorded :: "(string \<times> int \<times> labels) list \<Rightarrow> string \<Rightarrow> labels \<Rightarrow> int" where
  "recorded kept name ls = (\<Sum>(n, v, l)\<leftarrow>kept. if n = name \<and> l = ls then v else 0)"

lemma recorded_simps [simp]:
  "recorded [] name ls = 0"
  "recorded ((n, v, l) # kept) name ls = (if n = name \<and> l = ls then v else 0) + recorded kept name ls"
  "recorded (xs @ ys) name ls = recorded xs name ls + recorded ys name ls"
  by (simp_all add: recorded_def)

definition finished_samples :: "job_finished \<Rightarrow> (string \<times> int \<times> labels) list" where
  "finished_samples ev =
     [(''graphile_job_total'', 1, finished_labels ev), (''graphile_job_duration_ms'', jf_duration ev, finished_labels ev)] @
     (if fe_permanently_failed (jf_outcome ev)
      then [(''graphile_job_permanently_failed_total'', 1, [(''queue'', jf_queue ev)])] else [])"

abbreviation metered :: "'o hooks \<Rightarrow> ((string \<times> int \<times> labels) list \<times> 'o) hooks" where
  "metered user \<equiv> with_queue_metrics (beside user) (Some (Inr (Some log_meter)))"

abbreviation console_beside :: "'o console \<Rightarrow> ('m \<times> 'o) console" where
  "console_beside console \<equiv> (\<lambda>level text e. on_second (console level text e))"

definition log_instrument :: "string \<Rightarrow> ((string \<times> int \<times> labels) list \<times> 'o) instrument" where
  "log_instrument name value ls w = (Inr (), fst w @ [(name, value, ls)], snd w)"

definition log_metrics :: "((string \<times> int \<times> labels) list \<times> 'o) queue_metrics" where
  "log_metrics = \<lparr>qm_jobs = log_instrument ''graphile_job_total'', qm_duration = log_instrument ''graphile_job_duration_ms'',
     qm_permanently_failed = log_instrument ''graphile_job_permanently_failed_total'',
     qm_enqueue_failed = log_instrument ''graphile_job_enqueue_fail_total''\<rparr>"

lemma log_metrics_created: "create_queue_metrics (Inr (Some log_meter)) = Inr (Some log_metrics)"
  by (simp add: create_queue_metrics_def create_instrument_def log_meter_def total_metric_def log_metrics_def
      duration_metric_def permanent_metric_def enqueue_fail_metric_def log_instrument_def [abs_def])

lemma record_log_metrics: "record_finished log_metrics ev (kept, u) = (kept @ finished_samples ev, u)"
  by (simp add: record_finished_def log_metrics_def log_instrument_def safe_def finished_samples_def)

lemma observe_metered:
  "observe (console_beside console) (hk_job_finished (metered user)) ev (kept, u) =
     (kept @ finished_samples ev, observe console (hk_job_finished user) ev u)"
proof -
  have "hk_job_finished (metered user) =
      Some (\<lambda>ev. then_call (record_finished log_metrics ev) (hk_job_finished (beside user)) ev)"
    by (simp add: with_queue_metrics_def log_metrics_created)
  then show ?thesis
    by (cases "hk_job_finished user")
       (auto simp: record_log_metrics observe_def guarded_def then_call_def beside_def on_second_def report_def safe_def
        split: prod.split sum.split)
qed

text \<open>
  The metrics tell what happened: after any sequence of finished attempts, the job counter of a
  queue and status is the number of its attempts that ended so, the durations add up to theirs, and
  the permanent failures are counted; and the caller's hooks saw what they see without metrics.
\<close>

theorem metrics_count_finished_jobs:
  "case fold (observe (console_beside console) (hk_job_finished (metered user))) events ([], u) of (kept, u') \<Rightarrow>
    u' = fold (observe console (hk_job_finished user)) events u \<and>
    recorded kept ''graphile_job_total'' [(''queue'', q), (''status'', status_text s)] =
      int (length (filter (\<lambda>ev. jf_queue ev = q \<and> fe_status (jf_outcome ev) = s) events)) \<and>
    recorded kept ''graphile_job_duration_ms'' [(''queue'', q), (''status'', status_text s)] =
      (\<Sum>ev\<leftarrow>filter (\<lambda>ev. jf_queue ev = q \<and> fe_status (jf_outcome ev) = s) events. jf_duration ev) \<and>
    recorded kept ''graphile_job_permanently_failed_total'' [(''queue'', q)] =
      int (length (filter (\<lambda>ev. jf_queue ev = q \<and> fe_permanently_failed (jf_outcome ev)) events))"
proof -
  have run: "fold (observe (console_beside console) (hk_job_finished (metered user))) events (kept, u) =
      (kept @ concat (map finished_samples events), fold (observe console (hk_job_finished user)) events u)" for kept u
    by (induction events arbitrary: kept u) (simp_all add: observe_metered)
  have status: "status_text a = status_text b \<longleftrightarrow> a = b" for a b
    by (cases a; cases b) simp_all
  have "recorded (concat (map finished_samples events)) ''graphile_job_total'' [(''queue'', q), (''status'', status_text s)] =
      int (length (filter (\<lambda>ev. jf_queue ev = q \<and> fe_status (jf_outcome ev) = s) events))"
    by (induction events) (auto simp: finished_samples_def finished_labels_def status)
  moreover have "recorded (concat (map finished_samples events)) ''graphile_job_duration_ms'' [(''queue'', q), (''status'', status_text s)] =
      (\<Sum>ev\<leftarrow>filter (\<lambda>ev. jf_queue ev = q \<and> fe_status (jf_outcome ev) = s) events. jf_duration ev)"
    by (induction events) (auto simp: finished_samples_def finished_labels_def status)
  moreover have "recorded (concat (map finished_samples events)) ''graphile_job_permanently_failed_total'' [(''queue'', q)] =
      int (length (filter (\<lambda>ev. jf_queue ev = q \<and> fe_permanently_failed (jf_outcome ev)) events))"
    by (induction events) (auto simp: finished_samples_def finished_labels_def status)
  ultimately show ?thesis by (simp add: run)
qed

end
