(* ===== verification/Observed.thy ===== *)
theory Observed
  imports Observers Attempts
begin

text \<open>
  An attempt with everything that watches it: \<open>executeTask\<close> of \<^verbatim>\<open>src/src/worker.ts\<close> with its
  span, its log lines and its hooks in the order of the code. The attempt acts on the database and
  the completed-jobs store; spans, loggers, hooks and the console act on an observers' world
  \<open>'o\<close>. The theorems relate it to \<open>execute_task\<close>, which has none of this.
\<close>

section \<open>What an attempt reports\<close>

record attempt_info =
  at_queue :: string
  at_operation :: operation
  at_extra :: attributes
  at_duration :: int
  at_finished :: int

record 'o telemetry =
  tl_console :: "'o console"
  tl_hooks :: "'o hooks"
  tl_tracer :: "('o, js_error option) tracer option"
  tl_codes :: "int \<times> int"

fun operation_text :: "operation \<Rightarrow> string" where
  "operation_text Process = ''process''"
| "operation_text Init = ''init''"

definition logged_error_limit :: nat where
  "logged_error_limit = 500"

text \<open>\<open>String(error)\<close>.\<close>

definition error_text :: "js_error \<Rightarrow> string" where
  "error_text e =
     (if is_error_object e then err_name e @ (if err_message e = [] then [] else '': '' @ err_message e)
      else err_message e)"

definition attempt_attributes :: "attempt_info \<Rightarrow> job_helpers \<Rightarrow> attributes" where
  "attempt_attributes info h =
     [(''messaging.system'', AStr ''graphile-worker''), (''messaging.destination.name'', AStr (at_queue info)),
      (''messaging.message.id'', AStr (job_id_text h)), (''messaging.operation'', AStr (operation_text (at_operation info))),
      (''graphile.queue'', AStr (at_queue info)), (''graphile.job_id'', AStr (job_id_text h)),
      (''graphile.task_identifier'', AStr (h_task h)), (''graphile.attempts'', ANum (h_attempts h)),
      (''graphile.max_attempts'', ANum (h_max_attempts h))] @ at_extra info"

definition start_span :: "attempt_info \<Rightarrow> job_helpers \<Rightarrow> trace_context option \<Rightarrow> 'o job_span \<Rightarrow> 'o \<Rightarrow> 'o" where
  "start_span info h link sp o0 =
     (let o1 = sp (SetAttributes (attempt_attributes info h)) o0 in
      case link of
        None \<Rightarrow> o1
      | Some (trace_id, span_id, flags) \<Rightarrow>
          sp (SetAttribute ''messaging.producer.span_id'' (AStr span_id))
            (sp (SetAttribute ''messaging.producer.trace_id'' (AStr trace_id)) o1))"

definition finished_event_of :: "attempt_info \<Rightarrow> job_helpers \<Rightarrow> task_run \<Rightarrow> job_finished" where
  "finished_event_of info h run =
     \<lparr>jf_queue = at_queue info, jf_duration = at_finished info, jf_job_id = job_id_text h,
      jf_operation = at_operation info, jf_attempt = h_attempts h, jf_max_attempts = h_max_attempts h,
      jf_outcome = tr_finished run\<rparr>"

text \<open>The line \<open>job.completed\<close>; optional attributes are there only when they have a value.\<close>

definition completed_attributes :: "attempt_info \<Rightarrow> job_helpers \<Rightarrow> task_run \<Rightarrow> attributes" where
  "completed_attributes info h run =
     (let ev = tr_finished run in
      [(''event'', AStr ''job.completed''), (''queue'', AStr (at_queue info)), (''job_id'', AStr (job_id_text h)),
       (''operation'', AStr (operation_text (at_operation info))), (''attempt'', ANum (h_attempts h)),
       (''max_attempts'', ANum (h_max_attempts h)), (''duration_ms'', ANum (at_finished info)),
       (''status'', AStr (status_text (fe_status ev)))] @
      (if fe_continued ev then [(''continued'', ABool True)] else []) @
      (if fe_waiting ev then [(''waiting'', ABool True)] else []) @
      (case fe_retry_at ev of None \<Rightarrow> [] | Some t \<Rightarrow> [(''retry_at'', AStr (iso_string (t div 1000)))]) @
      (case fe_error ev of
         None \<Rightarrow> []
       | Some (name, message) \<Rightarrow> (if name = [] then [] else [(''error_type'', AStr name)]) @
           [(''error_message'', AStr (take logged_error_limit message))]))"

text \<open>The \<open>finally\<close> block.\<close>

definition announce :: "'o telemetry \<Rightarrow> 'o job_logger \<Rightarrow> attempt_info \<Rightarrow> job_helpers \<Rightarrow> task_run \<Rightarrow> 'o \<Rightarrow> 'o" where
  "announce tel lg info h run o0 =
     lg (if fe_status (tr_finished run) = Success then LogInfo else LogError) ''job.completed''
       (Some (completed_attributes info h run))
       (observe (tl_console tel) (hk_job_finished (tl_hooks tel)) (finished_event_of info h run) o0)"

section \<open>The attempt\<close>

definition permanent_event :: "attempt_info \<Rightarrow> job_helpers \<Rightarrow> json option \<Rightarrow> js_error \<Rightarrow> permanent_failure" where
  "permanent_event info h clean e =
     \<lparr>pf_error = e, pf_queue = at_queue info, pf_job_id = job_id_text h, pf_operation = at_operation info,
      pf_attempts = h_attempts h, pf_max_attempts = h_max_attempts h, pf_payload = clean\<rparr>"

definition best_effort_failure ::
  "task_runtime \<Rightarrow> job_helpers \<Rightarrow> bool \<Rightarrow> js_error \<Rightarrow> db \<Rightarrow> js_error option" where
  "best_effort_failure rt h waited e d =
     (if is_permanent h e \<and> (is_non_retriable e \<longrightarrow> tk_discard rt)
      then (case task_settle rt h waited (ReportFailed (err_name (reported_error e)) (err_message (reported_error e)))
                (if is_non_retriable e then RowDelete else RowKeep) d of
              (Inl record_error, _) \<Rightarrow> Some record_error
            | _ \<Rightarrow> None)
      else None)"

text \<open>The \<open>catch\<close> block: the span and the permanent-failure hook before anything is scheduled or settled.\<close>

definition observed_fail ::
  "'o telemetry \<Rightarrow> 'o job_logger \<Rightarrow> 'o job_span \<Rightarrow> attempt_info \<Rightarrow> json option \<Rightarrow> task_runtime \<Rightarrow> job_helpers \<Rightarrow> bool \<Rightarrow>
   (bool \<Rightarrow> unit tx) \<Rightarrow> js_error \<Rightarrow> db \<Rightarrow> 'o \<Rightarrow> task_run \<times> db \<times> 'o" where
  "observed_fail tel lg sp info clean rt h waited close e d o0 =
     (case close True d of (flushed, d1) \<Rightarrow>
      let reported = reported_error e; permanent = is_permanent h e;
          o1 = (case flushed of
              Inl pe \<Rightarrow> lg LogWarn ''job.progress.write_failed'' (Some [(''event'', AStr ''job.progress.write_failed''),
                (''job_id'', AStr (job_id_text h)), (''error_message'', AStr (take logged_error_limit (error_text pe)))]) o0
            | Inr _ \<Rightarrow> o0);
          o2 = sp (SetStatus (snd (tl_codes tel)) (Some (err_message reported))) o1;
          o3 = sp (RecordException (if is_error_object reported then reported else plain_error (err_message reported))) o2;
          o4 = sp (SetAttributes [(''graphile.duration_ms'', ANum (at_duration info)), (''error.type'', AStr (err_name reported))]) o3;
          o5 = (if permanent
                then observe (tl_console tel) (hk_permanent_failure (tl_hooks tel)) (permanent_event info h clean reported) o4
                else o4)
      in case (if permanent then None else retry_instant e) of
           Some t \<Rightarrow>
             (case schedule_retry h t d1 of
                (Inl e', d2) \<Rightarrow> (failed_run (Some e') reported permanent None, d2, o5)
              | (Inr retry_at, d2) \<Rightarrow> (failed_run (Some e) reported permanent (Some retry_at), d2, o5))
         | None \<Rightarrow> (case settle_failure rt h waited e d1 of (thrown, d2) \<Rightarrow>
             (failed_run thrown reported permanent None, d2,
              case best_effort_failure rt h waited e d1 of
                None \<Rightarrow> o5
              | Some re \<Rightarrow> lg LogError ''job.outcome.failed'' (Some [(''queue'', AStr (at_queue info)),
                  (''job_id'', AStr (job_id_text h)), (''error'', AStr (error_text re))]) o5)))"

fun is_ending_or_race :: "js_error \<Rightarrow> bool" where
  "is_ending_or_race JobContinuedSignal = True"
| "is_ending_or_race (JobSuspendedSignal _) = True"
| "is_ending_or_race (JobTimeoutError _) = True"
| "is_ending_or_race _ = False"

text \<open>
  The \<open>try\<close> block. \<open>marks\<close> is what the handler itself did to the observers, through its span and
  its logger.
\<close>

definition observed_body ::
  "'o telemetry \<Rightarrow> 'o job_logger \<Rightarrow> 'o job_span \<Rightarrow> attempt_info \<Rightarrow> task_runtime \<Rightarrow> job_helpers \<Rightarrow> json \<Rightarrow>
   (bool \<Rightarrow> unit tx) \<Rightarrow> handler_run \<Rightarrow> ('o job_span \<Rightarrow> 'o job_logger \<Rightarrow> 'o \<Rightarrow> 'o) \<Rightarrow> db \<Rightarrow> 'o \<Rightarrow> task_run \<times> db \<times> 'o" where
  "observed_body tel lg sp info rt h payload close handler marks d o0 =
     (let waited = (is_payload_envelope payload \<and> json_get ''waited'' payload = Some (JBool True));
          clean = (if is_payload_envelope payload then clean_payload payload else None);
          ok = SetStatus (fst (tl_codes tel)) None;
          completed = (\<lambda>o'. sp ok (sp (SetAttributes [(''graphile.duration_ms'', ANum (at_duration info))]) o'));
          failed = observed_fail tel lg sp info clean rt h waited close
      in case assert_payload_envelope payload of
           Inl e \<Rightarrow> failed e d o0
         | Inr _ \<Rightarrow>
             (case handler d of (result, ended, d1) \<Rightarrow>
                let o1 = marks sp lg o0;
                    o2 = (case result of
                        Inl e \<Rightarrow> (if ended = None \<or> is_ending_or_race e then o1
                          else lg LogWarn ''job.error_after_ending'' (Some [(''event'', AStr ''job.error_after_ending''),
                            (''job_id'', AStr (job_id_text h)),
                            (''error_message'', AStr (take logged_error_limit (error_text e)))]) o1)
                      | Inr _ \<Rightarrow> o1)
                in case ended of
                     Some (Waiting w) \<Rightarrow> (success_run (Some (JobSuspendedSignal w)) False True, snd (close True d1),
                       sp ok (sp (SetAttributes [(''graphile.waiting'', ABool True)]) o2))
                   | Some (Continued _) \<Rightarrow> (success_run None True False, snd (close False d1), completed o2)
                   | None \<Rightarrow>
                       (case result of
                          Inl e \<Rightarrow> failed e d1 o2
                        | Inr output \<Rightarrow>
                            (case task_settle rt h waited (ReportOk output) RowDelete (snd (close False d1)) of
                               (Inl e, d2) \<Rightarrow> failed e d2 o2
                             | (Inr False, d2) \<Rightarrow> failed (StepPersistenceError (job_id_text h)) d2 o2
                             | (Inr True, d2) \<Rightarrow> (success_run None False False, d2, completed o2)))))"

text \<open>What the span's callback settles with: a suspension is a value, other endings throw or return.\<close>

definition callback_result :: "task_run \<Rightarrow> js_error option res" where
  "callback_result run =
     (if fe_waiting (tr_finished run) then Inr (tr_thrown run)
      else case tr_thrown run of None \<Rightarrow> Inr None | Some e \<Rightarrow> Inl e)"

type_synonym attempt_world = "db \<times> (job_status \<times> string option) list"

definition traced_attempt ::
  "'o telemetry \<Rightarrow> attempt_info \<Rightarrow> task_runtime \<Rightarrow> job_helpers \<Rightarrow> json \<Rightarrow> (bool \<Rightarrow> unit tx) \<Rightarrow> handler_run \<Rightarrow>
   ('o job_span \<Rightarrow> 'o job_logger \<Rightarrow> 'o \<Rightarrow> 'o) \<Rightarrow> trace_context option \<Rightarrow> (attempt_world, 'o, js_error option) work" where
  "traced_attempt tel info rt h payload close handler marks link sp w =
     (case w of ((d, stored), o0) \<Rightarrow>
      let o1 = start_span info h link sp o0 in
      case job_logger_of (tl_console tel) (tl_hooks tel) (at_queue info) (job_id_text h) o1 of (lg, o2) \<Rightarrow>
      case observed_body tel lg sp info rt h payload close handler marks d o2 of (run, d', o3) \<Rightarrow>
        (callback_result run,
         ((d', stored @ (case tr_completed run of None \<Rightarrow> [] | Some c \<Rightarrow> [c])), announce tel lg info h run o3)))"

text \<open>The task: what Graphile is thrown, if anything, and the world after it.\<close>

definition observed_task ::
  "'o telemetry \<Rightarrow> attempt_info \<Rightarrow> task_runtime \<Rightarrow> job_helpers \<Rightarrow> json \<Rightarrow> (bool \<Rightarrow> unit tx) \<Rightarrow> handler_run \<Rightarrow>
   ('o job_span \<Rightarrow> 'o job_logger \<Rightarrow> 'o \<Rightarrow> 'o) \<Rightarrow> attempt_world \<times> 'o \<Rightarrow> js_error option \<times> attempt_world \<times> 'o" where
  "observed_task tel info rt h payload close handler marks w =
     (let link = (case extract_producer_link payload of Inr (link, _) \<Rightarrow> link | Inl _ \<Rightarrow> None) in
      case with_active_span (tl_tracer tel) ''graphile-worker'' (''job: '' @ at_queue info) Consumer link
          (traced_attempt tel info rt h payload close handler marks link) w of (settled, w') \<Rightarrow>
        (case settled of Inl e \<Rightarrow> Some e | Inr suspended \<Rightarrow> suspended, w'))"

section \<open>Nothing that watches changes the attempt\<close>

lemma observed_fail_run:
  "\<exists>o'. observed_fail tel lg sp info clean rt h waited close e d o0 =
     (fst (fail_task rt h waited close e d), snd (fail_task rt h waited close e d), o')"
  by (auto simp: observed_fail_def fail_task_def Let_def split: prod.split sum.split option.split)

lemma observed_body_run:
  "\<exists>o'. observed_body tel lg sp info rt h payload close handler marks d o0 =
     (fst (execute_task rt h payload close handler d), snd (execute_task rt h payload close handler d), o')"
  unfolding observed_body_def execute_task_def Let_def
  using observed_fail_run
  by (auto split: prod.split sum.split option.split ending.split bool.split)

lemma callback_thrown:
  "(case callback_result (fst (execute_task rt h payload close handler d)) of Inl e \<Rightarrow> Some e | Inr s \<Rightarrow> s) =
   tr_thrown (fst (execute_task rt h payload close handler d))"
  by (simp add: callback_result_def split: option.split)

lemma traced_attempt_run:
  "\<exists>o'. traced_attempt tel info rt h payload close handler marks link sp ((d, stored), o0) =
     (let (run, d') = execute_task rt h payload close handler d in
      (callback_result run, ((d', stored @ (case tr_completed run of None \<Rightarrow> [] | Some c \<Rightarrow> [c])), o')))"
proof -
  let ?o1 = "start_span info h link sp o0"
  obtain lg o2 where lg: "job_logger_of (tl_console tel) (tl_hooks tel) (at_queue info) (job_id_text h) ?o1 = (lg, o2)"
    by (cases "job_logger_of (tl_console tel) (tl_hooks tel) (at_queue info) (job_id_text h) ?o1")
  obtain o3 where "observed_body tel lg sp info rt h payload close handler marks d o2 =
      (fst (execute_task rt h payload close handler d), snd (execute_task rt h payload close handler d), o3)"
    using observed_body_run [of tel lg sp info rt h payload close handler marks d o2] by blast
  with lg show ?thesis
    by (cases "execute_task rt h payload close handler d") (simp add: traced_attempt_def Let_def)
qed

text \<open>
  C20 Nothing that watches an attempt changes it: whatever hooks, loggers, the console, spans and an
  honest tracer do or throw, Graphile is thrown the same error or none, the database is the same,
  and the completed-jobs store gets the same entry, as without any of them.
\<close>

theorem telemetry_changes_nothing:
  assumes "honest_tracer (tl_tracer tel)"
  shows "\<exists>o'. observed_task tel info rt h payload close handler marks ((d, stored), o0) =
    (let (run, d') = execute_task rt h payload close handler d in
     (tr_thrown run, ((d', stored @ (case tr_completed run of None \<Rightarrow> [] | Some c \<Rightarrow> [c])), o')))"
proof -
  let ?link = "case extract_producer_link payload of Inr (link, _) \<Rightarrow> link | Inl _ \<Rightarrow> None"
  let ?fn = "traced_attempt tel info rt h payload close handler marks ?link"
  obtain sp where sp: "with_active_span (tl_tracer tel) ''graphile-worker'' (''job: '' @ at_queue info) Consumer ?link ?fn ((d, stored), o0) =
      (fst (?fn sp ((d, stored), o0)), end_span sp (snd (?fn sp ((d, stored), o0))))"
    using traced_once [OF assms] by blast
  from traced_attempt_run [of tel info rt h payload close handler marks ?link sp d stored o0] show ?thesis
    unfolding observed_task_def Let_def sp
    using callback_thrown [of rt h payload close handler d]
    by (auto simp: end_span_def Let_def split: prod.split)
qed

text \<open>A tracer that fails after the run, hooks that throw, and a console that throws too.\<close>

definition failing_telemetry :: "nat telemetry" where
  "failing_telemetry = \<lparr>tl_console = (\<lambda>level text e n. (Inl (plain_error ''console''), n + 1)),
     tl_hooks = \<lparr>hk_create_logger = Some (\<lambda>q j n. (Inl (plain_error ''logger''), n + 1)),
       hk_job_finished = Some (\<lambda>ev n. (Inl (plain_error ''hook''), n + 1)),
       hk_permanent_failure = Some (\<lambda>ev n. (Inl (plain_error ''hook''), n + 1)), hk_enqueue_fail = None\<rparr>,
     tl_tracer = Some (\<lambda>t n k l. Invokes (\<lambda>op n. (Inl (plain_error ''span''), n + 1)) (\<lambda>_. Settles (Inl (plain_error ''late'')))),
     tl_codes = (1, 2)\<rparr>"

definition sample_info :: attempt_info where
  "sample_info = \<lparr>at_queue = ''mail'', at_operation = Process, at_extra = [], at_duration = 5, at_finished = 6\<rparr>"

theorem telemetry_changes_nothing_witness:
  "\<exists>d' o'. observed_task failing_telemetry sample_info plain_runtime (helpers_of waited_job) (jr_payload waited_job)
      (\<lambda>_. tx_return ()) (\<lambda>d. (Inr (Some JNull), None, d)) (\<lambda>sp lg n. n) ((waited_db, []), 0) =
    (None, ((d', [(Success, None)]), o')) \<and> map jr_id (db_jobs d') = []"
proof -
  have honest: "honest_tracer (tl_tracer failing_telemetry)"
    by (auto simp: honest_tracer_def failing_telemetry_def)
  let ?e = "execute_task plain_runtime (helpers_of waited_job) (jr_payload waited_job)
      (\<lambda>_. tx_return ()) (\<lambda>d. (Inr (Some JNull), None, d)) waited_db"
  have "tr_thrown (fst ?e) = None" "tr_completed (fst ?e) = Some (Success, None)" "map jr_id (db_jobs (snd ?e)) = []"
    by (code_simp+)
  with telemetry_changes_nothing [OF honest, of sample_info plain_runtime "helpers_of waited_job" "jr_payload waited_job"
      "\<lambda>_. tx_return ()" "\<lambda>d. (Inr (Some JNull), None, d)" "\<lambda>sp lg n. n" waited_db "[]" 0]
  show ?thesis by (auto simp: Let_def case_prod_beta)
qed

section \<open>Every attempt is reported once\<close>

text \<open>A handler's own spans and log lines leave what is seen alone.\<close>

definition marks_quiet :: "('o \<Rightarrow> 's) \<Rightarrow> ('o job_span \<Rightarrow> 'o job_logger \<Rightarrow> 'o \<Rightarrow> 'o) \<Rightarrow> bool" where
  "marks_quiet seen marks \<longleftrightarrow> (\<forall>sp lg w. (\<forall>op v. seen (sp op v) = seen v) \<longrightarrow>
     (\<forall>l t a v. seen (lg l t a v) = seen v) \<longrightarrow> seen (marks sp lg w) = seen w)"

text \<open>
  What a watcher of finished attempts needs: a part \<open>seen\<close> of the observers' world that only the
  finished hook changes, by \<open>note\<close>, even when it fails in the end.
\<close>

locale finished_watch =
  fixes seen :: "'o \<Rightarrow> 's"
    and note_event :: "job_finished \<Rightarrow> 's \<Rightarrow> 's"
    and console :: "'o console"
    and hooks :: "'o hooks"
  assumes console_quiet: "seen (snd (console level text e w)) = seen w"
    and logger_quiet: "hk_create_logger hooks = Some create \<Longrightarrow> create q j w = (r, w') \<Longrightarrow>
      seen w' = seen w \<and> (\<forall>logger level text attributes v. r = Inr (Some logger) \<longrightarrow>
        seen (snd (logger level text attributes v)) = seen v)"
    and permanent_quiet: "hk_permanent_failure hooks = Some f \<Longrightarrow> seen (snd (f failure w)) = seen w"
    and finished_noted: "\<exists>f. hk_job_finished hooks = Some f \<and> (\<forall>ev w. seen (snd (f ev w)) = note_event ev (seen w))"
begin

lemma report_quiet: "seen (report console e w) = seen w"
  by (simp add: report_def safe_def console_quiet)

lemma guarded_seen: "seen (guarded console call w) = seen (snd (call w))"
  by (simp add: guarded_def report_quiet split: prod.split sum.split)

lemma observe_permanent: "seen (observe console (hk_permanent_failure hooks) failure w) = seen w"
  by (simp add: observe_def guarded_seen permanent_quiet split: option.split)

lemma observe_finished: "seen (observe console (hk_job_finished hooks) ev w) = note_event ev (seen w)"
  using finished_noted by (auto simp: observe_def guarded_seen)

lemma job_logger_quiet:
  assumes "job_logger_of console hooks q j w = (lg, w')"
  shows "seen w' = seen w" "seen (lg level text attributes v) = seen v"
proof -
  have fallback: "seen (safe_logger console (create_console_logger console q j) l t a u) = seen u" for l t a u
    by (simp add: safe_logger_def guarded_seen create_console_logger_def console_quiet)
  show "seen w' = seen w" "seen (lg level text attributes v) = seen v"
    using assms fallback logger_quiet
    by (auto simp: job_logger_of_def Let_def report_quiet safe_logger_def guarded_seen
        split: option.splits prod.splits sum.splits)
qed

lemma start_span_quiet:
  "(\<And>op w. seen (sp op w) = seen w) \<Longrightarrow> seen (start_span info h link sp o0) = seen o0"
  by (simp add: start_span_def Let_def split: option.split prod.split)

lemma observed_fail_quiet:
  assumes "\<And>op w. seen (sp op w) = seen w" "\<And>l t a w. seen (lg l t a w) = seen w"
    and "tl_console tel = console" "tl_hooks tel = hooks"
  shows "seen (snd (snd (observed_fail tel lg sp info clean rt h waited close e d o0))) = seen o0"
  using assms
  by (simp add: observed_fail_def Let_def observe_permanent split: prod.split sum.split option.split)

lemma observed_body_quiet:
  assumes "\<And>op w. seen (sp op w) = seen w" "\<And>l t a w. seen (lg l t a w) = seen w"
    and "tl_console tel = console" "tl_hooks tel = hooks" "\<And>w. seen (marks sp lg w) = seen w"
  shows "seen (snd (snd (observed_body tel lg sp info rt h payload close handler marks d o0))) = seen o0"
proof -
  have fail: "seen (snd (snd (observed_fail tel lg sp info clean rt h waited close e d w))) = seen w"
    for clean waited e d w
    by (rule observed_fail_quiet) (use assms in simp_all)
  obtain result ended d1 where run: "handler d = (result, ended, d1)" by (cases "handler d")
  let ?waited = "is_payload_envelope payload \<and> json_get ''waited'' payload = Some (JBool True)"
  show ?thesis
  proof (cases "assert_payload_envelope payload")
    case Inl
    then show ?thesis by (simp add: observed_body_def Let_def fail)
  next
    case Inr
    then show ?thesis
    proof (cases ended)
      case None
      show ?thesis
      proof (cases result)
        case Inl
        with Inr None show ?thesis by (simp add: observed_body_def Let_def run fail assms(5))
      next
        case out: (Inr v)
        obtain ok d2 where settle: "task_settle rt h ?waited (ReportOk v) RowDelete (snd (close False d1)) = (ok, d2)"
          by (cases "task_settle rt h ?waited (ReportOk v) RowDelete (snd (close False d1))")
        show ?thesis
        proof (cases ok)
          case Inl
          with Inr None out settle show ?thesis by (simp add: observed_body_def Let_def run fail assms(5))
        next
          case (Inr recorded)
          with \<open>assert_payload_envelope payload = Inr _\<close> None out settle show ?thesis
            by (cases recorded) (simp_all add: observed_body_def Let_def run fail assms(1,5))
        qed
      qed
    next
      case (Some e)
      then show ?thesis
        using Inr by (cases e; cases result) (simp_all add: observed_body_def Let_def run assms(1,2,5))
    qed
  qed
qed

lemma traced_attempt_noted:
  assumes sp: "\<And>op w. seen (sp op w) = seen w" and tel: "tl_console tel = console" "tl_hooks tel = hooks"
    and marks: "marks_quiet seen marks"
  shows "seen (snd (snd (traced_attempt tel info rt h payload close handler marks link sp ((d, stored), o0)))) =
    note_event (finished_event_of info h (fst (execute_task rt h payload close handler d))) (seen o0)"
proof -
  let ?o1 = "start_span info h link sp o0" and ?run = "execute_task rt h payload close handler d"
  obtain lg o2 where lg: "job_logger_of console hooks (at_queue info) (job_id_text h) ?o1 = (lg, o2)"
    by (cases "job_logger_of console hooks (at_queue info) (job_id_text h) ?o1")
  obtain o3 where o3: "observed_body tel lg sp info rt h payload close handler marks d o2 = (fst ?run, snd ?run, o3)"
    using observed_body_run [of tel lg sp info rt h payload close handler marks d o2] by blast
  have "seen (marks sp lg w) = seen w" for w
    using marks sp job_logger_quiet(2) [OF lg] by (simp add: marks_quiet_def)
  then have "seen (snd (snd (observed_body tel lg sp info rt h payload close handler marks d o2))) = seen o2"
    by (intro observed_body_quiet sp tel job_logger_quiet(2) [OF lg])
  then have "seen o3 = seen o0"
    using job_logger_quiet(1) [OF lg] start_span_quiet [OF sp] by (simp add: o3)
  then show ?thesis
    using tel lg o3 job_logger_quiet(2) [OF lg]
    by (simp add: traced_attempt_def Let_def announce_def observe_finished)
qed

lemma attempt_noted_once:
  assumes "honest_tracer (tl_tracer tel)" and quiet: "quiet_tracer seen (tl_tracer tel)"
    and tel: "tl_console tel = console" "tl_hooks tel = hooks" and marks: "marks_quiet seen marks"
  shows "seen (snd (snd (observed_task tel info rt h payload close handler marks ((d, stored), o0)))) =
    note_event (finished_event_of info h (fst (execute_task rt h payload close handler d))) (seen o0)"
proof -
  let ?link = "case extract_producer_link payload of Inr (link, _) \<Rightarrow> link | Inl _ \<Rightarrow> None"
  let ?fn = "traced_attempt tel info rt h payload close handler marks ?link"
  obtain sp where sp: "\<forall>op w. seen (sp op w) = seen w"
    and run: "with_active_span (tl_tracer tel) ''graphile-worker'' (''job: '' @ at_queue info) Consumer ?link ?fn ((d, stored), o0) =
      (fst (?fn sp ((d, stored), o0)), end_span sp (snd (?fn sp ((d, stored), o0))))"
    using traced_once [OF assms(1), of seen "''graphile-worker''" "''job: '' @ at_queue info" Consumer ?link ?fn "((d, stored), o0)"]
      quiet by blast
  have "seen (snd (snd (?fn sp ((d, stored), o0)))) =
      note_event (finished_event_of info h (fst (execute_task rt h payload close handler d))) (seen o0)"
    by (rule traced_attempt_noted [OF _ tel marks]) (use sp in simp)
  then show ?thesis
    unfolding observed_task_def Let_def run by (simp add: end_span_def sp)
qed

end

text \<open>The hooks with metrics are such a watcher, over whatever hooks the caller has.\<close>

interpretation metered: finished_watch fst "\<lambda>ev kept. kept @ finished_samples ev" "console_beside console" "metered user"
  for console :: "'o console" and user :: "'o hooks"
proof
  show "fst (snd (on_second (console level msg e) w)) = fst w" for level msg e w
    by (simp add: on_second_def split: prod.split)
  have hooks: "hk_create_logger (metered user) = None"
      "hk_permanent_failure (metered user) = hk_permanent_failure (beside user)"
      "hk_job_finished (metered user) = Some (\<lambda>ev. then_call (record_finished log_metrics ev) (hk_job_finished (beside user)) ev)"
    by (simp_all add: with_queue_metrics_def log_metrics_created beside_def)
  show "fst w' = fst w \<and> (\<forall>logger level text attributes v. r = Inr (Some logger) \<longrightarrow>
        fst (snd (logger level text attributes v)) = fst v)"
    if "hk_create_logger (metered user) = Some create" "create q j w = (r, w')" for create q j w r w'
    using that hooks by simp
  show "fst (snd (f failure w)) = fst w" if "hk_permanent_failure (metered user) = Some f" for f failure w
    using that unfolding hooks by (auto simp: beside_def on_second_def split: prod.split)
  have "fst (snd (then_call (record_finished log_metrics ev) (hk_job_finished (beside user)) ev w)) =
      fst w @ finished_samples ev" for ev w
    by (cases w) (auto simp: then_call_def record_log_metrics beside_def on_second_def split: option.split prod.split)
  then show "\<exists>f. hk_job_finished (metered user) = Some f \<and>
      (\<forall>ev w. fst (snd (f ev w)) = fst w @ finished_samples ev)"
    by (simp add: hooks)
qed

text \<open>
  The metrics count every attempt once: whatever the caller's hooks and the console do or throw,
  an attempt adds exactly one to the job counter of its queue under the status with which it ended, its
  duration under the same labels, and one to the permanent failures exactly when it failed for good;
  and nothing else.
\<close>

theorem attempt_counted_once:
  assumes "tl_console tel = console_beside console" and "tl_hooks tel = metered user"
    and "honest_tracer (tl_tracer tel)" and "quiet_tracer fst (tl_tracer tel)"
    and "marks_quiet fst marks"
  shows "let ev = finished_event_of info h (fst (execute_task rt h payload close handler d)) in
    fst (snd (snd (observed_task tel info rt h payload close handler marks ((d, stored), (kept, u))))) =
      kept @ [(''graphile_job_total'', 1, [(''queue'', at_queue info), (''status'', status_text (fe_status (jf_outcome ev)))]),
              (''graphile_job_duration_ms'', at_finished info,
                 [(''queue'', at_queue info), (''status'', status_text (fe_status (jf_outcome ev)))])] @
        (if fe_permanently_failed (jf_outcome ev)
         then [(''graphile_job_permanently_failed_total'', 1, [(''queue'', at_queue info)])] else [])"
  using metered.attempt_noted_once [OF assms(3,4,1,2,5), of info rt h payload close handler d stored "(kept, u)"]
  by (simp add: Let_def finished_samples_def finished_labels_def finished_event_of_def)

definition metered_telemetry :: "((string \<times> int \<times> labels) list \<times> nat) telemetry" where
  "metered_telemetry = \<lparr>tl_console = console_beside (tl_console failing_telemetry),
     tl_hooks = metered (tl_hooks failing_telemetry),
     tl_tracer = Some (\<lambda>t n k l. Settles (Inl (plain_error ''no tracer''))), tl_codes = (1, 2)\<rparr>"

theorem attempt_counted_once_witness:
  "\<exists>u'. snd (snd (observed_task metered_telemetry sample_info plain_runtime (helpers_of waited_job) (jr_payload waited_job)
      (\<lambda>_. tx_return ()) (\<lambda>d. (Inr (Some JNull), None, d)) (\<lambda>sp lg w. w) ((waited_db, []), ([], 0)))) =
    ([(''graphile_job_total'', 1, [(''queue'', ''mail''), (''status'', ''success'')]),
      (''graphile_job_duration_ms'', 6, [(''queue'', ''mail''), (''status'', ''success'')])], u')"
proof -
  let ?run = "fst (execute_task plain_runtime (helpers_of waited_job) (jr_payload waited_job)
      (\<lambda>_. tx_return ()) (\<lambda>d. (Inr (Some JNull), None, d)) waited_db)"
  have run: "fe_status (tr_finished ?run) = Success" "fe_permanently_failed (tr_finished ?run) = False"
    by (code_simp+)
  have tel: "tl_console metered_telemetry = console_beside (tl_console failing_telemetry)"
      "tl_hooks metered_telemetry = metered (tl_hooks failing_telemetry)"
      "honest_tracer (tl_tracer metered_telemetry)" "quiet_tracer fst (tl_tracer metered_telemetry)"
    by (auto simp: metered_telemetry_def honest_tracer_def quiet_tracer_def)
  have "marks_quiet fst (\<lambda>sp lg w :: (string \<times> int \<times> labels) list \<times> nat. w)"
    by (simp add: marks_quiet_def)
  from attempt_counted_once [OF tel this, where info = sample_info and rt = plain_runtime and h = "helpers_of waited_job"
      and payload = "jr_payload waited_job" and close = "\<lambda>_. tx_return ()" and handler = "\<lambda>d. (Inr (Some JNull), None, d)"
      and d = waited_db and stored = "[]" and kept = "[]" and u = 0]
  show ?thesis
    by (intro exI prod_eqI) (simp_all add: Let_def run finished_event_of_def sample_info_def)
qed

end
