(* ===== verification/Producing.thy ===== *)
theory Producing
  imports Observed
begin

text \<open>
  Enqueueing with everything that watches it: \<open>observed\<close> and \<open>producerSpan\<close> of
  \<^verbatim>\<open>src/src/create-job.ts\<close> around \<open>createJob\<close>, \<open>createJobs\<close> and their prepared forms. The theorems
  relate them to \<open>enqueue_one\<close> and its companions, which have no span and no hook.
\<close>

section \<open>Guards around an enqueue\<close>

record ('o, 'v) producer =
  pd_console :: "'o console"
  pd_hooks :: "'o hooks"
  pd_tracer :: "('o, 'v) tracer option"
  pd_codes :: "int \<times> int"

text \<open>A failed operation is told to the hook and fails with the same error.\<close>

definition observed ::
  "('o, 'v) producer \<Rightarrow> string \<Rightarrow> ('x \<times> 'o \<Rightarrow> 'v res \<times> 'x \<times> 'o) \<Rightarrow> 'x \<times> 'o \<Rightarrow> 'v res \<times> 'x \<times> 'o" where
  "observed pd name operation w =
     (case operation w of
        (Inr v, w') \<Rightarrow> (Inr v, w')
      | (Inl e, (x, o')) \<Rightarrow> (Inl e, (x, observe (pd_console pd) (hk_enqueue_fail (pd_hooks pd)) (name, e) o')))"

definition producer_work :: "('o, 'v) producer \<Rightarrow> ('x, 'o, 'v) work \<Rightarrow> ('x, 'o, 'v) work" where
  "producer_work pd fn sp w =
     (case fn sp w of
        (Inr v, (x, o')) \<Rightarrow> (Inr v, (x, sp (SetStatus (fst (pd_codes pd)) None) o'))
      | (Inl e, (x, o')) \<Rightarrow>
          (let message = (if is_error_object e then err_message e else error_text e) in
           (Inl e, (x, sp (RecordException (if is_error_object e then e else plain_error message))
              (sp (SetStatus (snd (pd_codes pd)) (Some message)) o')))))"

definition producer_span ::
  "('o, 'v) producer \<Rightarrow> string \<Rightarrow> ('x, 'o, 'v) work \<Rightarrow> 'x \<times> 'o \<Rightarrow> 'v res \<times> 'x \<times> 'o" where
  "producer_span pd span_name fn w =
     with_active_span (pd_tracer pd) ''worker'' span_name Producer None (producer_work pd fn) w"

section \<open>The four enqueue functions\<close>

definition id_attr :: "nat option \<Rightarrow> attr" where
  "id_attr i = (case i of None \<Rightarrow> ANull | Some n \<Rightarrow> AStr (show_nat n))"

text \<open>The enqueue of one job under its span: the statement, and the attributes around it.\<close>

definition enqueue_one_work ::
  "'h settings \<Rightarrow> adapter \<Rightarrow> string \<Rightarrow> json option \<Rightarrow> enqueue_spec \<Rightarrow> (db, 'o, nat option) work" where
  "enqueue_one_work st ad task payload s sp w =
     (let o1 = sp (SetAttributes [(''job.queue'', AStr task), (''job.batch'', ABool False),
            (''job.max_attempts'', ANum (es_max_attempts s))]) (snd w);
          spec = spec_of task (inject_trace_context payload (cs_active st)) s
      in if es_idem_key s \<noteq> None
         then (case enqueue_idempotent ad [spec] (fst w) of
                 (Inl e, d') \<Rightarrow> (Inl e, (d', o1))
               | (Inr [], d') \<Rightarrow> (Inl (plain_error ''Idempotent enqueue returned no job''), (d', o1))
               | (Inr ((i, deduplicated) # _), d') \<Rightarrow>
                   (Inr i, (d', sp (SetAttributes [(''job.id'', id_attr i), (''job.deduplicated'', ABool deduplicated)]) o1)))
         else (case ad_add_job ad spec (fst w) of
                 (Inl e, d') \<Rightarrow> (Inl e, (d', o1))
               | (Inr i, d') \<Rightarrow> (Inr (Some i), (d', sp (SetAttribute ''job.id'' (id_attr (Some i))) o1))))"

definition observed_enqueue_one ::
  "('o, nat option) producer \<Rightarrow> 'h settings \<Rightarrow> adapter \<Rightarrow> string \<Rightarrow> jsv \<Rightarrow> job_options option \<Rightarrow> bool \<Rightarrow>
   db \<times> 'o \<Rightarrow> nat option res \<times> db \<times> 'o" where
  "observed_enqueue_one pd st ad name data opts cron =
     observed pd name (\<lambda>w.
       if cs_skip st then (Inr None, w)
       else case resolve_one st name data opts cron None of
         Inl e \<Rightarrow> (Inl e, w)
       | Inr (task, payload, s) \<Rightarrow>
           producer_span pd (''createJob: '' @ task) (enqueue_one_work st ad task payload s) w)"

text \<open>The ids of a batch are listed on the span when they are at most fifty.\<close>

definition mark_created :: "nat option list \<Rightarrow> 'o job_span \<Rightarrow> 'o \<Rightarrow> 'o" where
  "mark_created ids sp o0 =
     (let o1 = sp (SetAttribute ''job.created_count'' (ANum (int (length ids)))) o0 in
      if length ids \<le> 50
      then sp (SetAttribute ''job.ids'' (AStr (join_with '',''
             (map (\<lambda>i. case i of None \<Rightarrow> [] | Some n \<Rightarrow> show_nat n) ids)))) o1
      else o1)"

definition enqueue_many_work ::
  "'h settings \<Rightarrow> adapter \<Rightarrow> string \<Rightarrow> nat \<Rightarrow> (json option \<times> enqueue_spec) list \<Rightarrow> bool \<Rightarrow> bool \<Rightarrow>
   (db, 'o, nat option list) work" where
  "enqueue_many_work st ad name n specs preserve idempotent sp w =
     (let o1 = sp (SetAttributes [(''job.queue'', AStr name), (''job.batch'', ABool True),
            (''job.batch_size'', ANum (int n))]) (snd w);
          traced = traced_specs st name specs
      in if specs = [] then (Inr [], (fst w, o1))
         else if idempotent
         then (case enqueue_idempotent ad (with_batch_key_mode preserve traced) (fst w) of
                 (Inl e, d') \<Rightarrow> (Inl e, (d', o1))
               | (Inr jobs, d') \<Rightarrow>
                   (Inr (map fst jobs), (d', mark_created (map fst jobs) sp
                      (sp (SetAttribute ''job.deduplicated_count'' (ANum (int (length (filter snd jobs))))) o1))))
         else (case ad_add_jobs ad traced preserve (fst w) of
                 (Inl e, d') \<Rightarrow> (Inl e, (d', o1))
               | (Inr ids, d') \<Rightarrow> (Inr (map Some ids), (d', mark_created (map Some ids) sp o1))))"

definition observed_enqueue_many ::
  "('o, nat option list) producer \<Rightarrow> 'h settings \<Rightarrow> adapter \<Rightarrow> string \<Rightarrow> jsv list \<Rightarrow> job_options option \<Rightarrow>
   db \<times> 'o \<Rightarrow> nat option list res \<times> db \<times> 'o" where
  "observed_enqueue_many pd st ad name data opts =
     observed pd name (\<lambda>w.
       if cs_skip st then (Inr [], w)
       else case resolve_many st name data opts of
         Inl e \<Rightarrow> (Inl e, w)
       | Inr (specs, preserve, idempotent) \<Rightarrow>
           producer_span pd (''createJobs: '' @ name)
             (enqueue_many_work st ad name (length data) specs preserve idempotent) w)"

text \<open>
  Preparing reads no database: its part of the world is \<open>unit\<close>. What \<open>prepare_one\<close> does after its
  queue and options are resolved happens under the span.
\<close>

definition prepared_one :: "'h settings \<Rightarrow> string \<Rightarrow> json option \<Rightarrow> enqueue_spec \<Rightarrow> prepared_job res" where
  "prepared_one st task payload s =
     (let spec = spec_of task (inject_trace_context payload (cs_active st)) s in
      bind_res (if es_idem_key s = None then add_job_sql (cs_schema st) spec
                else add_idempotent_jobs_sql (cs_schema st) [spec]) (\<lambda>stmt.
      Inr \<lparr>pj_queue = task, pj_statement = stmt, pj_count = 1, pj_skipped = False\<rparr>))"

definition prepare_one_work ::
  "'h settings \<Rightarrow> string \<Rightarrow> json option \<Rightarrow> enqueue_spec \<Rightarrow> (unit, 'o, prepared_job) work" where
  "prepare_one_work st task payload s sp w =
     (prepared_one st task payload s,
      (fst w, sp (SetAttributes [(''job.queue'', AStr task), (''job.batch'', ABool False)]) (snd w)))"

definition observed_prepare_one ::
  "('o, prepared_job) producer \<Rightarrow> 'h settings \<Rightarrow> string \<Rightarrow> jsv \<Rightarrow> job_options option \<Rightarrow> job_key_mode option \<Rightarrow>
   unit \<times> 'o \<Rightarrow> prepared_job res \<times> unit \<times> 'o" where
  "observed_prepare_one pd st name data opts default_mode =
     observed pd name (\<lambda>w.
       if cs_skip st then (Inr (skipped_job name), w)
       else case resolve_one st name data opts False default_mode of
         Inl e \<Rightarrow> (Inl e, w)
       | Inr (task, payload, s) \<Rightarrow> producer_span pd (''prepareJob: '' @ task) (prepare_one_work st task payload s) w)"

definition prepared_many ::
  "'h settings \<Rightarrow> string \<Rightarrow> (json option \<times> enqueue_spec) list \<Rightarrow> bool \<Rightarrow> bool \<Rightarrow> prepared_job res" where
  "prepared_many st name specs preserve idempotent =
     (let traced = traced_specs st name specs in
      bind_res (if idempotent
                then add_idempotent_jobs_sql (cs_schema st) (with_batch_key_mode preserve traced)
                else add_jobs_sql (cs_schema st) traced preserve) (\<lambda>stmt.
      Inr \<lparr>pj_queue = name, pj_statement = stmt, pj_count = length specs, pj_skipped = False\<rparr>))"

definition prepare_many_work ::
  "'h settings \<Rightarrow> string \<Rightarrow> nat \<Rightarrow> (json option \<times> enqueue_spec) list \<Rightarrow> bool \<Rightarrow> bool \<Rightarrow> (unit, 'o, prepared_job) work" where
  "prepare_many_work st name n specs preserve idempotent sp w =
     (prepared_many st name specs preserve idempotent,
      (fst w, sp (SetAttributes [(''job.queue'', AStr name), (''job.batch'', ABool True), (''job.batch_size'', ANum (int n))]) (snd w)))"

definition observed_prepare_many ::
  "('o, prepared_job) producer \<Rightarrow> 'h settings \<Rightarrow> string \<Rightarrow> jsv list \<Rightarrow> job_options option \<Rightarrow>
   unit \<times> 'o \<Rightarrow> prepared_job res \<times> unit \<times> 'o" where
  "observed_prepare_many pd st name data opts =
     observed pd name (\<lambda>w.
       if cs_skip st then (Inr (skipped_job name), w)
       else case resolve_many st name data opts of
         Inl e \<Rightarrow> (Inl e, w)
       | Inr (specs, preserve, idempotent) \<Rightarrow>
           if specs = [] then (Inr (skipped_job name\<lparr>pj_skipped := False\<rparr>), w)
           else producer_span pd (''prepareJobs: '' @ name)
             (prepare_many_work st name (length data) specs preserve idempotent) w)"

text \<open>The same without a span: what the enqueue functions do once queue and options are resolved.\<close>

definition resolved_one :: "'h settings \<Rightarrow> adapter \<Rightarrow> string \<Rightarrow> json option \<Rightarrow> enqueue_spec \<Rightarrow> nat option tx" where
  "resolved_one st ad task payload s =
     (let spec = spec_of task (inject_trace_context payload (cs_active st)) s in
      if es_idem_key s \<noteq> None
      then tx_bind (enqueue_idempotent ad [spec]) (\<lambda>jobs.
             case jobs of
               [] \<Rightarrow> tx_throw (plain_error ''Idempotent enqueue returned no job'')
             | (i, _) # _ \<Rightarrow> tx_return i)
      else tx_bind (ad_add_job ad spec) (\<lambda>i. tx_return (Some i)))"

definition resolved_many ::
  "'h settings \<Rightarrow> adapter \<Rightarrow> string \<Rightarrow> (json option \<times> enqueue_spec) list \<Rightarrow> bool \<Rightarrow> bool \<Rightarrow> nat option list tx" where
  "resolved_many st ad name specs preserve idempotent =
     (let traced = traced_specs st name specs in
      if specs = [] then tx_return []
      else if idempotent
      then tx_bind (enqueue_idempotent ad (with_batch_key_mode preserve traced)) (\<lambda>jobs. tx_return (map fst jobs))
      else tx_bind (ad_add_jobs ad traced preserve) (\<lambda>ids. tx_return (map Some ids)))"

lemma enqueue_resolved:
  "enqueue_one st ad name data opts cron d =
     (if cs_skip st then (Inr None, d)
      else case resolve_one st name data opts cron None of
        Inl e \<Rightarrow> (Inl e, d)
      | Inr (task, payload, s) \<Rightarrow> resolved_one st ad task payload s d)"
  "enqueue_many st ad name items opts d =
     (if cs_skip st then (Inr [], d)
      else case resolve_many st name items opts of
        Inl e \<Rightarrow> (Inl e, d)
      | Inr (specs, preserve, idempotent) \<Rightarrow> resolved_many st ad name specs preserve idempotent d)"
  "prepare_one st name data opts mode =
     (if cs_skip st then Inr (skipped_job name)
      else case resolve_one st name data opts False mode of
        Inl e \<Rightarrow> Inl e
      | Inr (task, payload, s) \<Rightarrow> prepared_one st task payload s)"
  "prepare_many st name items opts =
     (if cs_skip st then Inr (skipped_job name)
      else case resolve_many st name items opts of
        Inl e \<Rightarrow> Inl e
      | Inr (specs, preserve, idempotent) \<Rightarrow>
          if specs = [] then Inr (skipped_job name\<lparr>pj_skipped := False\<rparr>)
          else prepared_many st name specs preserve idempotent)"
  by (simp_all add: enqueue_one_def enqueue_many_def prepare_one_def prepare_many_def
      prepared_one_def prepared_many_def bind_res_def resolved_one_def resolved_many_def tx_return_def tx_throw_def
      tx_bind_def tx_lift_def Let_def split: sum.split prod.split)

section \<open>What is seen of an enqueue\<close>

text \<open>
  A watcher of failed enqueues: a part \<open>seen\<close> of the observers' world that only the failure hook
  changes. A \<open>faithful\<close> work does, whatever its span, what a plain function does to its own part of
  the world, and leaves what is seen alone.
\<close>

locale failure_watch =
  fixes seen :: "'o \<Rightarrow> 's"
    and note_failure :: "string \<times> js_error \<Rightarrow> 's \<Rightarrow> 's"
    and console :: "'o console"
    and hooks :: "'o hooks"
  assumes failure_console_quiet: "seen (snd (console level text e w)) = seen w"
    and failure_noted: "\<exists>f. hk_enqueue_fail hooks = Some f \<and> (\<forall>ev w. seen (snd (f ev w)) = note_failure ev (seen w))"
begin

definition does :: "('x \<times> 'o \<Rightarrow> 'v res \<times> 'x \<times> 'o) \<Rightarrow> ('x \<Rightarrow> 'v res \<times> 'x) \<Rightarrow> bool" where
  "does f g \<longleftrightarrow> (\<forall>x w. fst (f (x, w)) = fst (g x) \<and> fst (snd (f (x, w))) = snd (g x) \<and> seen (snd (snd (f (x, w)))) = seen w)"

lemma observe_failure: "seen (observe console (hk_enqueue_fail hooks) ev w) = note_failure ev (seen w)"
proof -
  obtain f where f: "hk_enqueue_fail hooks = Some f" "seen (snd (f ev w)) = note_failure ev (seen w)"
    using failure_noted by blast
  then show ?thesis
    by (cases "f ev w"; cases "fst (f ev w)")
       (auto simp: observe_def guarded_def report_def safe_def failure_console_quiet)
qed

lemma observed_noted:
  assumes "does f g" "pd_console pd = console" "pd_hooks pd = hooks"
  shows "fst (observed pd name f (x, w)) = fst (g x) \<and> fst (snd (observed pd name f (x, w))) = snd (g x) \<and>
    seen (snd (snd (observed pd name f (x, w)))) =
      (case fst (g x) of Inl e \<Rightarrow> note_failure (name, e) (seen w) | Inr _ \<Rightarrow> seen w)"
proof -
  have f: "fst (f (x, w)) = fst (g x)" "fst (snd (f (x, w))) = snd (g x)" "seen (snd (snd (f (x, w)))) = seen w"
    using assms(1) unfolding does_def by blast+
  obtain r x' w' where r: "f (x, w) = (r, (x', w'))" by (cases "f (x, w)")
  have g: "g x = (r, x')" and w': "seen w' = seen w" using f by (simp_all add: r prod_eq_iff)
  show ?thesis
    using w' by (cases r) (simp_all add: observed_def r g assms(2,3) observe_failure)
qed

lemma does_producer_span:
  assumes "honest_tracer (pd_tracer pd)" "quiet_tracer seen (pd_tracer pd)"
    and fn: "\<And>sp. (\<And>op w. seen (sp op w) = seen w) \<Longrightarrow> does (fn sp) g"
  shows "does (producer_span pd span_name fn) g"
  unfolding does_def
proof (intro allI)
  fix x w
  obtain sp where sp: "\<forall>op w. seen (sp op w) = seen w"
    and run: "producer_span pd span_name fn (x, w) =
      (fst (producer_work pd fn sp (x, w)), end_span sp (snd (producer_work pd fn sp (x, w))))"
    using traced_once [OF assms(1), of seen "''worker''" span_name Producer None "producer_work pd fn" "(x, w)"] assms(2)
    unfolding producer_span_def by blast
  have f: "fst (fn sp (x, w)) = fst (g x)" "fst (snd (fn sp (x, w))) = snd (g x)" "seen (snd (snd (fn sp (x, w)))) = seen w"
    using fn sp unfolding does_def by blast+
  obtain r x' w' where r: "fn sp (x, w) = (r, (x', w'))" by (cases "fn sp (x, w)")
  show "fst (producer_span pd span_name fn (x, w)) = fst (g x) \<and>
      fst (snd (producer_span pd span_name fn (x, w))) = snd (g x) \<and>
      seen (snd (snd (producer_span pd span_name fn (x, w)))) = seen w"
  proof -
    have g: "g x = (r, x')" and w': "seen w' = seen w" using f by (simp_all add: r prod_eq_iff)
    show ?thesis
      unfolding run using w' sp by (cases r) (simp_all add: producer_work_def r g end_span_def Let_def)
  qed
qed

lemma does_result: "does (\<lambda>w. (r, w)) (\<lambda>x. (r, x))"
  by (simp add: does_def)

lemma does_enqueue_one:
  assumes sp: "\<And>op w. seen (sp op w) = seen w"
  shows "does (enqueue_one_work st ad task payload s sp) (resolved_one st ad task payload s)"
  unfolding does_def enqueue_one_work_def resolved_one_def Let_def
  by (auto simp: tx_bind_def tx_throw_def tx_return_def sp split: prod.split sum.split list.split)

lemma mark_created_quiet:
  "(\<And>op w. seen (sp op w) = seen w) \<Longrightarrow> seen (mark_created ids sp w) = seen w"
  by (simp add: mark_created_def Let_def)

lemma does_enqueue_many:
  assumes sp: "\<And>op w. seen (sp op w) = seen w"
  shows "does (enqueue_many_work st ad name n specs preserve idempotent sp) (resolved_many st ad name specs preserve idempotent)"
  unfolding does_def enqueue_many_work_def resolved_many_def Let_def
  by (auto simp: tx_bind_def tx_return_def sp mark_created_quiet [OF sp] split: prod.split sum.split)

lemma does_prepare:
  assumes sp: "\<And>op w. seen (sp op w) = seen w"
  shows "does (prepare_one_work st task payload s sp) (\<lambda>x. (prepared_one st task payload s, x))"
    and "does (prepare_many_work st name n specs preserve idempotent sp)
      (\<lambda>x. (prepared_many st name specs preserve idempotent, x))"
  by (simp_all add: does_def prepare_one_work_def prepare_many_work_def sp)

text \<open>Before the span: nothing is enqueued when the hook says to skip or the job does not resolve.\<close>

lemma does_resolved:
  assumes "\<And>v. r = Inr v \<Longrightarrow> does (f v) (g v)"
  shows "does (\<lambda>w. if skip then (Inr nothing, w) else case r of Inl e \<Rightarrow> (Inl e, w) | Inr v \<Rightarrow> f v w)
    (\<lambda>x. if skip then (Inr nothing, x) else case r of Inl e \<Rightarrow> (Inl e, x) | Inr v \<Rightarrow> g v x)"
  using assms by (cases skip; cases r) (simp_all add: does_result)

definition watched :: "('o, 'v) producer \<Rightarrow> bool" where
  "watched pd \<longleftrightarrow> honest_tracer (pd_tracer pd) \<and> quiet_tracer seen (pd_tracer pd) \<and>
     pd_console pd = console \<and> pd_hooks pd = hooks"

lemma observed_resolved:
  fixes name skip nothing title x w
  assumes "watched pd"
    and "\<And>v sp. r = Inr v \<Longrightarrow> (\<And>op w. seen (sp op w) = seen w) \<Longrightarrow> does (fn v sp) (g v)"
  defines "run \<equiv> observed pd name (\<lambda>w. if skip then (Inr nothing, w)
      else case r of Inl e \<Rightarrow> (Inl e, w) | Inr v \<Rightarrow> producer_span pd (title v) (fn v) w) (x, w)"
    and "plain \<equiv> if skip then (Inr nothing, x) else case r of Inl e \<Rightarrow> (Inl e, x) | Inr v \<Rightarrow> g v x"
  shows "fst run = fst plain \<and> fst (snd run) = snd plain \<and>
    seen (snd (snd run)) = (case fst plain of Inl e \<Rightarrow> note_failure (name, e) (seen w) | Inr _ \<Rightarrow> seen w)"
proof -
  have "does (\<lambda>w. if skip then (Inr nothing, w) else case r of Inl e \<Rightarrow> (Inl e, w) | Inr v \<Rightarrow> producer_span pd (title v) (fn v) w)
      (\<lambda>x. if skip then (Inr nothing, x) else case r of Inl e \<Rightarrow> (Inl e, x) | Inr v \<Rightarrow> g v x)"
    using assms(1) by (intro does_resolved does_producer_span assms(2)) (simp_all add: watched_def)
  from observed_noted [OF this] assms(1) show ?thesis unfolding run_def plain_def watched_def by blast
qed

lemma observed_one:
  assumes "watched pd"
  shows "fst (observed_enqueue_one pd st ad name data opts cron (d, w)) = fst (enqueue_one st ad name data opts cron d) \<and>
    fst (snd (observed_enqueue_one pd st ad name data opts cron (d, w))) = snd (enqueue_one st ad name data opts cron d) \<and>
    seen (snd (snd (observed_enqueue_one pd st ad name data opts cron (d, w)))) =
      (case fst (enqueue_one st ad name data opts cron d) of Inl e \<Rightarrow> note_failure (name, e) (seen w) | Inr _ \<Rightarrow> seen w)"
proof -
  have work: "does ((\<lambda>(task, payload, s). enqueue_one_work st ad task payload s) v sp) ((\<lambda>(task, payload, s). resolved_one st ad task payload s) v)"
    if "\<And>op w. seen (sp op w) = seen w" for v and sp :: "'o job_span"
    using does_enqueue_one [OF that] by (cases v) simp
  show ?thesis
    unfolding observed_enqueue_one_def enqueue_resolved case_prod_unfold
    using observed_resolved [OF assms work, where r = "resolve_one st name data opts cron None" and name = name
        and skip = "cs_skip st" and nothing = None and title = "\<lambda>(task, payload, s). ''createJob: '' @ task" and x = d and w = w]
    unfolding case_prod_unfold by simp
qed

lemma observed_many:
  assumes "watched pd"
  shows "fst (observed_enqueue_many pd st ad name data opts (d, w)) = fst (enqueue_many st ad name data opts d) \<and>
    fst (snd (observed_enqueue_many pd st ad name data opts (d, w))) = snd (enqueue_many st ad name data opts d) \<and>
    seen (snd (snd (observed_enqueue_many pd st ad name data opts (d, w)))) =
      (case fst (enqueue_many st ad name data opts d) of Inl e \<Rightarrow> note_failure (name, e) (seen w) | Inr _ \<Rightarrow> seen w)"
proof -
  have work: "does ((\<lambda>(specs, preserve, idempotent). enqueue_many_work st ad name (length data) specs preserve idempotent) v sp)
      ((\<lambda>(specs, preserve, idempotent). resolved_many st ad name specs preserve idempotent) v)"
    if "\<And>op w. seen (sp op w) = seen w" for v and sp :: "'o job_span"
    using does_enqueue_many [OF that] by (cases v) simp
  show ?thesis
    unfolding observed_enqueue_many_def enqueue_resolved case_prod_unfold
    using observed_resolved [OF assms work, where r = "resolve_many st name data opts" and name = name
        and skip = "cs_skip st" and nothing = "[]" and title = "\<lambda>_. ''createJobs: '' @ name" and x = d and w = w]
    unfolding case_prod_unfold by simp
qed

lemma observed_prepared:
  assumes "watched pd"
  shows "fst (observed_prepare_one pd st name data opts mode ((), w)) = prepare_one st name data opts mode \<and>
    seen (snd (snd (observed_prepare_one pd st name data opts mode ((), w)))) =
      (case prepare_one st name data opts mode of Inl e \<Rightarrow> note_failure (name, e) (seen w) | Inr _ \<Rightarrow> seen w)"
proof -
  have work: "does ((\<lambda>(task, payload, s). prepare_one_work st task payload s) v sp)
      ((\<lambda>(task, payload, s) x. (prepared_one st task payload s, x)) v)"
    if "\<And>op w. seen (sp op w) = seen w" for v and sp :: "'o job_span"
    using does_prepare(1) [OF that] by (cases v) simp
  let ?r = "resolve_one st name data opts False mode"
  have plain: "(if cs_skip st then (Inr (skipped_job name), x) else case ?r of Inl e \<Rightarrow> (Inl e, x)
      | Inr v \<Rightarrow> (\<lambda>(task, payload, s) x. (prepared_one st task payload s, x)) v x) = (prepare_one st name data opts mode, x)" for x
    by (simp add: enqueue_resolved split: sum.split prod.split)
  from observed_resolved [where r = ?r and name = name and skip = "cs_skip st"
      and fn = "\<lambda>(task, payload, s). prepare_one_work st task payload s"
      and g = "\<lambda>(task, payload, s) x. (prepared_one st task payload s, x)" and nothing = "skipped_job name" and title = "\<lambda>(task, payload, s). ''prepareJob: '' @ task" and x = "()" and w = w,
      OF assms work]
  show ?thesis unfolding plain unfolding observed_prepare_one_def case_prod_unfold by simp
qed

end

text \<open>The hooks with metrics watch failed enqueues too.\<close>

interpretation metered: failure_watch fst
    "\<lambda>(name, e) kept. kept @ [(''graphile_job_enqueue_fail_total'', 1, [(''queue'', name)])]" "console_beside console" "metered user"
  for console :: "'o console" and user :: "'o hooks"
proof
  show "fst (snd (on_second (console level msg e) w)) = fst w" for level msg e w
    by (simp add: on_second_def split: prod.split)
  let ?hook = "\<lambda>ev. then_call (safe (qm_enqueue_failed log_metrics 1 [(''queue'', fst ev)])) (hk_enqueue_fail (beside user)) ev"
  have "hk_enqueue_fail (metered user) = Some ?hook"
    by (simp add: with_queue_metrics_def log_metrics_created)
  then show "\<exists>f. hk_enqueue_fail (metered user) = Some f \<and> (\<forall>ev w. fst (snd (f ev w)) =
      (case ev of (name, e) \<Rightarrow> \<lambda>kept. kept @ [(''graphile_job_enqueue_fail_total'', 1, [(''queue'', name)])]) (fst w))"
    by (auto simp: then_call_def safe_def log_metrics_def log_instrument_def beside_def on_second_def
        split: option.split prod.split)
qed

text \<open>
  A failed enqueue is counted once and changes nothing else: with metrics on, and whatever the
  caller's hook, the console and an honest tracer do or throw, \<open>createJob\<close> gives the id or the error,
  and leaves the database, that it gives and leaves without any of them; and the counter of failed
  enqueues of its queue goes up by one exactly when it fails.
\<close>

theorem enqueue_failures_counted:
  assumes "pd_console pd = console_beside console" and "pd_hooks pd = metered user"
    and "honest_tracer (pd_tracer pd)" and "quiet_tracer fst (pd_tracer pd)"
  shows "\<exists>u'. observed_enqueue_one pd st ad name data opts cron (d, (kept, u)) =
    (let (result, d') = enqueue_one st ad name data opts cron d in
     (result, (d', (kept @ (case result of
          Inl _ \<Rightarrow> [(''graphile_job_enqueue_fail_total'', 1, [(''queue'', name)])]
        | Inr _ \<Rightarrow> []), u'))))"
proof -
  have "failure_watch.watched fst (console_beside console) (metered user) pd"
    by (simp add: metered.watched_def assms)
  from metered.observed_one [OF this, of st ad name data opts cron d "(kept, u)"] show ?thesis
    by (intro exI [of _ "snd (snd (snd (observed_enqueue_one pd st ad name data opts cron (d, (kept, u)))))"] prod_eqI)
       (auto simp: Let_def case_prod_beta split: sum.split)
qed

definition metered_producer :: "((string \<times> int \<times> labels) list \<times> nat, nat option) producer" where
  "metered_producer = \<lparr>pd_console = console_beside (tl_console failing_telemetry),
     pd_hooks = metered counting_hooks, pd_tracer = None, pd_codes = (1, 2)\<rparr>"

theorem enqueue_failures_counted_witness:
  "\<exists>e u'. observed_enqueue_one metered_producer sample_settings (client_adapter sample_backend ''graphile_worker'')
      ''unknown'' ([], GNull) None False (sample_db, ([], 0)) =
    (Inl e, (sample_db, ([(''graphile_job_enqueue_fail_total'', 1, [(''queue'', ''unknown'')])], u')))"
proof -
  let ?r = "enqueue_one sample_settings (client_adapter sample_backend ''graphile_worker'') ''unknown'' ([], GNull) None False sample_db"
  have "case fst ?r of Inl _ \<Rightarrow> True | Inr _ \<Rightarrow> False" by code_simp
  then obtain e where e: "fst ?r = Inl e" by (cases "fst ?r") auto
  have "snd ?r = sample_db" by code_simp
  with e have r: "?r = (Inl e, sample_db)" by (simp add: prod_eq_iff)
  have pd: "pd_console metered_producer = console_beside (tl_console failing_telemetry)"
      "pd_hooks metered_producer = metered counting_hooks" "honest_tracer (pd_tracer metered_producer)"
      "quiet_tracer fst (pd_tracer metered_producer)"
    by (simp_all add: metered_producer_def honest_tracer_def quiet_tracer_def)
  from enqueue_failures_counted [OF pd, of sample_settings "client_adapter sample_backend ''graphile_worker''"
      "''unknown''" "([], GNull)" None False sample_db "[]" 0]
  show ?thesis unfolding r by auto
qed

end
