(* ===== verification/Wiring.thy ===== *)
theory Wiring
  imports Facade Runner Producing
begin

text \<open>
  How the parts are put together: the operations of a job client (\<^verbatim>\<open>src/src/job-client.ts\<close>)
  and of a worker (\<^verbatim>\<open>src/src/create-better-worker.ts\<close>) as calls of the components, what a
  worker starts Graphile with, and what its supervision tells the outside.
\<close>

section \<open>The producer of a client or worker\<close>

record 'h producer_options =
  po_queues :: "'h queue list"
  po_schema :: "string option"
  po_validate :: "bool option"
  po_default_max :: "jsnum option"
  po_payload_mode :: "payload_mode option"
  po_tx_mode :: "job_key_mode option"

definition default_graphile_worker_schema :: string where
  "default_graphile_worker_schema = ''graphile_worker''"

text \<open>
  What \<open>bindCreateJob\<close> works with; \<open>api\<close> is the OpenTelemetry API, \<open>skip\<close> the answer of the
  \<open>shouldSkipEnqueue\<close> hook.
\<close>

definition client_settings ::
  "'h producer_options \<Rightarrow> otel_api option \<Rightarrow> bool \<Rightarrow> (string \<Rightarrow> int option) \<Rightarrow> 'h settings" where
  "client_settings po api skip parse_date =
     \<lparr>cs_queues = po_queues po, cs_default_max = nullish_else (po_default_max po) (int_num default_graphile_job_max_attempts),
      cs_schema = nullish_else (po_schema po) default_graphile_worker_schema,
      cs_payload_mode = nullish_else (po_payload_mode po) Strict, cs_validate = po_validate po,
      cs_tx_mode = po_tx_mode po, cs_skip = skip, cs_active = get_active_traceparent api,
      cs_parse_date = parse_date\<rparr>"

text \<open>\<open>createJobClient\<close>: the names, the client's schema, then the producer's checks.\<close>

definition create_job_client ::
  "'h producer_options \<Rightarrow> otel_api option \<Rightarrow> bool \<Rightarrow> (string \<Rightarrow> int option) \<Rightarrow> 'h settings res" where
  "create_job_client po api skip parse_date =
     bind_res (assert_unique_queue_names (po_queues po)) (\<lambda>_.
     let st = client_settings po api skip parse_date in
     bind_res (assert_valid_schema_name (cs_schema st)) (\<lambda>_.
     bind_res (bind_create_job st) (\<lambda>_. Inr st)))"

text \<open>\<open>createJob\<close> of a client, through its own adapter; and \<open>createJobsApi\<close>: one function per queue.\<close>

definition create_job :: "backend \<Rightarrow> 'h settings \<Rightarrow> string \<Rightarrow> jsv \<Rightarrow> job_options option \<Rightarrow> nat option tx" where
  "create_job b st name data opts = enqueue_one st (client_adapter b (cs_schema st)) name data opts False"

definition create_jobs_api ::
  "(string \<Rightarrow> jsv \<Rightarrow> job_options option \<Rightarrow> nat option tx) \<Rightarrow> 'h queue list \<Rightarrow>
   (string \<times> (jsv \<Rightarrow> job_options option \<Rightarrow> nat option tx)) list" where
  "create_jobs_api enqueue queues = map (\<lambda>q. (q_name q, enqueue (q_name q))) queues"

definition trigger_cron :: "backend \<Rightarrow> 'h settings \<Rightarrow> string \<Rightarrow> job_options option \<Rightarrow> nat option tx" where
  "trigger_cron b st name opts = enqueue_one st (client_adapter b (cs_schema st)) name ([], GUndef) opts True"

text \<open>
  \<open>prepareJob\<close> takes a queue name, or one request object with a text \<open>task\<close>, a payload and options.
\<close>

datatype prepare_first =
    NameFirst string
  | RequestFirst "string option" jsv "job_options option"
  | OtherFirst

definition prepare_job ::
  "'h settings \<Rightarrow> prepare_first \<Rightarrow> jsv \<Rightarrow> job_options option \<Rightarrow> prepared_job res" where
  "prepare_job st first data opts =
     (case first of
        NameFirst name \<Rightarrow> prepare_one st name data opts None
      | RequestFirst (Some task) payload request_opts \<Rightarrow> prepare_one st task payload request_opts None
      | _ \<Rightarrow> Inl (PlainTypeError ''prepareJob takes a queue name or a { task } request''))"

text \<open>\<open>failJobs\<close>: Graphile's \<open>permanentlyFailJobs\<close> gives the failed rows.\<close>

definition fail_jobs :: "unit res \<Rightarrow> (string list \<Rightarrow> string option \<Rightarrow> nat list res) \<Rightarrow> string list \<Rightarrow> string option \<Rightarrow> string list res" where
  "fail_jobs utils permanently_fail ids reason =
     bind_res utils (\<lambda>_. bind_res (permanently_fail ids reason) (\<lambda>jobs. Inr (map show_nat jobs)))"

section \<open>What a worker starts\<close>

text \<open>
  A worker's preset comes first, so the caller's settings override it: completions are batched,
  with no delay, because batches are flushed on shutdown.
\<close>

record worker_preset =
  wp_complete_delay :: "int option"
  wp_fail_delay :: "int option"
  wp_local_queue :: "int option"

definition with_durable_completion :: "'u option \<Rightarrow> int option \<Rightarrow> (worker_preset + 'u) list" where
  "with_durable_completion user local_size =
     Inl \<lparr>wp_complete_delay = Some 0, wp_fail_delay = Some 0, wp_local_queue = local_size\<rparr> #
     (case user of None \<Rightarrow> [] | Some u \<Rightarrow> [Inr u])"

record 'h start_plan =
  sp_tasks :: "(string \<times> 'h task_def) list"
  sp_cron :: "cron_item list"
  sp_concurrency :: jsnum
  sp_poll_interval :: jsnum
  sp_second_look :: "jsnum option"
  sp_prefetch :: "jsnum option"
  sp_maintained :: bool

text \<open>The start of the lifecycle: the tables first, then the options of \<open>startRunner\<close>.\<close>

definition plan_start ::
  "(string \<Rightarrow> int option) \<Rightarrow> jsnum option \<Rightarrow> worker_options \<Rightarrow> 'h normalized list \<Rightarrow> bool res \<Rightarrow> 'h start_plan res" where
  "plan_start parse_date default_max opts queues prepared =
     bind_res prepared (\<lambda>maintained.
     bind_res (build_cron_items parse_date (nullish_else default_max (int_num default_graphile_job_max_attempts))
       (map nq_queue queues)) (\<lambda>items.
     Inr \<lparr>sp_tasks = build_task_list (wo_default_timeout opts) queues, sp_cron = items,
          sp_concurrency = nullish_else (wo_concurrency opts) (int_num default_concurrency),
          sp_poll_interval = nullish_else (wo_poll_interval opts) (int_num default_poll_interval),
          sp_second_look = wo_second_look opts, sp_prefetch = wo_prefetch opts, sp_maintained = maintained\<rparr>))"

text \<open>\<open>logRegisteredQueues\<close>: a line per task, with its name and what it is.\<close>

definition queue_lines :: "'h queue \<Rightarrow> (string \<times> string) list" where
  "queue_lines q =
     (let schedule = (case format_cron_schedule (q_cron q) of None \<Rightarrow> ''null'' | Some s \<Rightarrow> s) in
      case get_queue_type q of
        CronInit \<Rightarrow> [(q_name q @ cron_init_suffix, ''cron-init: '' @ schedule), (q_name q, ''processor'')]
      | Cron \<Rightarrow> [(q_name q, ''cron: '' @ schedule)]
      | Regular \<Rightarrow> [(q_name q, ''regular'')])"

definition log_registered_queues :: "'h queue list \<Rightarrow> string list" where
  "log_registered_queues queues =
     (if queues = [] then [''No queues registered'']
      else ''Registered queues:'' # map (\<lambda>(name, what). ''  - '' @ name @ '' ('' @ what @ '')'') (concat (map queue_lines queues)))"

section \<open>What the supervision tells\<close>

record runner_stopped =
  st_runner :: "string option"
  st_error :: js_error
  st_restart_attempt :: nat
  st_restart_in_ms :: int

definition runner_attr :: "string option \<Rightarrow> attr" where
  "runner_attr runner = (case runner of None \<Rightarrow> AUndefined | Some r \<Rightarrow> AStr r)"

definition restart_attributes :: "string option \<Rightarrow> js_error \<Rightarrow> nat \<Rightarrow> int \<Rightarrow> attributes" where
  "restart_attributes runner e attempt delay =
     [(''runner'', runner_attr runner), (''error'', AStr (error_text e)),
      (''restart_attempt'', ANum (int attempt)), (''restart_in_ms'', ANum delay)]"

definition on_stopped ::
  "'o console \<Rightarrow> 'o job_logger \<Rightarrow> (runner_stopped \<Rightarrow> 'o \<Rightarrow> unit res \<times> 'o) option \<Rightarrow> string option \<Rightarrow>
   js_error \<Rightarrow> nat \<Rightarrow> int \<Rightarrow> 'o \<Rightarrow> 'o" where
  "on_stopped console lg hook runner e attempt delay o0 =
     observe console hook \<lparr>st_runner = runner, st_error = e, st_restart_attempt = attempt, st_restart_in_ms = delay\<rparr>
       (lg LogError ''worker.runner.stopped'' (Some (restart_attributes runner e attempt delay)) o0)"

definition on_restart_failed :: "'o job_logger \<Rightarrow> string option \<Rightarrow> js_error \<Rightarrow> nat \<Rightarrow> int \<Rightarrow> 'o \<Rightarrow> 'o" where
  "on_restart_failed lg runner e attempt delay =
     lg LogWarn ''worker.runner.restart_failed'' (Some (restart_attributes runner e attempt delay))"

definition on_restarted :: "'o job_logger \<Rightarrow> string option \<Rightarrow> nat \<Rightarrow> 'o \<Rightarrow> 'o" where
  "on_restarted lg runner attempt =
     lg LogInfo ''worker.runner.restarted'' (Some [(''runner'', runner_attr runner), (''restart_attempt'', ANum (int attempt))])"

section \<open>Every accepted job has a handler\<close>

lemma distinct_concat_filter:
  "distinct (concat (map f xs)) \<Longrightarrow> distinct (concat (map f (filter p xs)))"
  by (induction xs) auto

lemma created_worker_tasks:
  assumes "create_worker queues handlers opts = Inr w"
  shows "distinct (map fst (build_task_list t (wk_queues w)))"
    and "\<And>n. n \<in> set (wk_queues w) \<Longrightarrow> nq_queue n \<in> set queues \<and> (nq_init n \<noteq> None \<longleftrightarrow> get_queue_type (nq_queue n) = CronInit)"
    and "distinct (map q_name queues)"
proof -
  obtain normalized where norm: "normalize_worker_queues queues handlers = Inr normalized"
    and sel: "select_processed normalized (wo_process opts) = Inr (wk_queues w)"
    using assms unfolding create_worker_def res_simps by auto
  note facts = normalize_worker_queues_Inr [OF norm]
  obtain p where p: "wk_queues w = filter p normalized"
  proof (cases "wo_process opts")
    case None
    with sel have "wk_queues w = filter (\<lambda>_. True) normalized" by (simp add: select_processed_def)
    then show ?thesis by (rule that)
  next
    case (Some ns)
    with sel show ?thesis using that by (auto simp: select_processed_spec)
  qed
  have i: "list_all (\<lambda>n. nq_init n \<noteq> None \<longleftrightarrow> get_queue_type (nq_queue n) = CronInit) normalized"
    and q: "map nq_queue normalized = queues" and d: "distinct (registry_tasks queues)"
    using facts by blast+
  have "mset (map fst (build_task_list t normalized)) = mset (registry_tasks (map nq_queue normalized))"
    using i by (induction normalized) (simp_all add: build_task_list_def queue_tasks_names [simplified])
  with q d have "distinct (map fst (build_task_list t normalized))" by (metis mset_eq_imp_distinct_iff)
  then have "distinct (concat (map (\<lambda>n. map fst (queue_tasks t n)) normalized))"
    by (simp add: build_task_list_def map_concat o_def)
  from distinct_concat_filter [OF this, of p]
  show "distinct (map fst (build_task_list t (wk_queues w)))"
    by (simp add: build_task_list_def map_concat p o_def)
  show "nq_queue n \<in> set queues \<and> (nq_init n \<noteq> None \<longleftrightarrow> get_queue_type (nq_queue n) = CronInit)"
    if "n \<in> set (wk_queues w)" for n
    using that i q unfolding p by (auto simp: list_all_iff)
  show "distinct (map q_name queues)"
    using d by (induction queues) (auto simp: task_identifiers_simp registry_tasks_def)
qed

lemma cron_items_registered:
  assumes "build_cron_items pd dm qs = Inr items"
  shows "list_all (\<lambda>i. ci_task i \<in> set (registry_tasks qs) \<and> extract_producer_link (ci_payload i) = Inr (None, None)) items"
proof -
  from assms obtain itemss where m: "list_all2 (\<lambda>q is. queue_cron_items pd dm q = Inr is) qs itemss"
    and items: "items = concat itemss"
    by (auto simp: build_cron_items_def res_simps map_res_Inr_iff)
  have "ci_task i \<in> set (registry_tasks qs) \<and> ci_payload i = inject_trace_context None (Inr None)"
    if "i \<in> set items" for i
    using m that unfolding items
    by (induction rule: list_all2_induct) (auto dest: queue_cron_items_tasks)
  then show ?thesis by (simp add: list_all_iff injected_link)
qed

lemma task_of_queue:
  assumes "create_worker queues handlers opts = Inr w" and "n \<in> set (wk_queues w)"
    and "i \<in> set (task_identifiers (nq_queue n))"
  shows "\<exists>td. map_of (build_task_list t (wk_queues w)) i = Some td \<and> td_queue td = nq_queue n \<and>
    (td_operation td = Init \<longleftrightarrow> i \<noteq> q_name (nq_queue n)) \<and>
    td_timeout td = nullish (q_timeout (nq_queue n)) t"
proof -
  have init: "nq_init n \<noteq> None \<longleftrightarrow> get_queue_type (nq_queue n) = CronInit"
    using created_worker_tasks(2) [OF assms(1,2)] by blast
  have suffix: "cron_init_suffix \<noteq> []" by (simp add: cron_init_suffix_def)
  let ?q = "nq_queue n" and ?timeout = "nullish (q_timeout (nq_queue n)) t"
  have "\<exists>td. (i, td) \<in> set (queue_tasks t n) \<and> td_queue td = ?q \<and>
      (td_operation td = Init \<longleftrightarrow> i \<noteq> q_name ?q) \<and> td_timeout td = ?timeout"
  proof (cases "i = q_name ?q")
    case True
    then show ?thesis
      by (intro exI [of _ "\<lparr>td_queue = ?q, td_operation = Process, td_handler = nq_process n, td_timeout = ?timeout\<rparr>"])
         (simp add: queue_tasks_def Let_def split: option.split)
  next
    case False
    with assms(3) have "get_queue_type ?q = CronInit" "i = q_name ?q @ cron_init_suffix"
      by (auto simp: task_identifiers_def split: if_splits)
    moreover with init obtain f where "nq_init n = Some f" by auto
    ultimately show ?thesis
      using suffix
      by (intro exI [of _ "\<lparr>td_queue = ?q, td_operation = Init, td_handler = f, td_timeout = ?timeout\<rparr>"])
         (simp add: queue_tasks_def Let_def)
  qed
  then obtain td where td: "(i, td) \<in> set (queue_tasks t n)" "td_queue td = ?q"
      "td_operation td = Init \<longleftrightarrow> i \<noteq> q_name ?q" "td_timeout td = ?timeout" by blast
  then have "(i, td) \<in> set (build_task_list t (wk_queues w))"
    using assms(2) by (auto simp: build_task_list_def)
  with created_worker_tasks(1) [OF assms(1)] have "map_of (build_task_list t (wk_queues w)) i = Some td" by simp
  with td show ?thesis by blast
qed

text \<open>
  C28 What is accepted has a handler: a job that a producer of the same queues accepts for a queue the
  worker processes is enqueued under a task that the worker has a handler for, of that queue, the
  initializer exactly for a triggered initializing queue, under the queue's timeout or the
  worker's; the handler's reader finds the input as the producer snapshot it; and so does every
  schedule of the worker's cron items, which is read as the undefined input.
\<close>

theorem accepted_job_has_handler:
  assumes "create_worker queues handlers opts = Inr w" and "cs_queues st = queues"
    and "plan_start pd dm opts (wk_queues w) prepared = Inr plan"
    and "resolve_one st name data jo cron mode = Inr (task, payload, s)"
    and "name \<in> q_name ` nq_queue ` set (wk_queues w)"
  shows "(\<exists>td. map_of (sp_tasks plan) task = Some td \<and> q_name (td_queue td) = name \<and> td_queue td \<in> set queues \<and>
      (td_operation td = Init \<longleftrightarrow> cron \<and> get_queue_type (td_queue td) = CronInit) \<and>
      td_timeout td = nullish (q_timeout (td_queue td)) (wo_default_timeout opts)) \<and>
    (\<exists>link. extract_producer_link (inject_trace_context payload (cs_active st)) = Inr (link, payload)) \<and>
    list_all (\<lambda>i. map_of (sp_tasks plan) (ci_task i) \<noteq> None \<and>
      extract_producer_link (ci_payload i) = Inr (None, None)) (sp_cron plan)"
proof (intro conjI)
  obtain items where items: "build_cron_items pd (nullish_else dm (int_num default_graphile_job_max_attempts))
      (map nq_queue (wk_queues w)) = Inr items"
    and plan: "sp_tasks plan = build_task_list (wo_default_timeout opts) (wk_queues w)" "sp_cron plan = items"
    using assms(3) by (auto simp: plan_start_def res_simps)
  obtain n where n: "n \<in> set (wk_queues w)" "q_name (nq_queue n) = name" using assms(5) by auto
  obtain q where q: "find_queue st name = Inr q"
    and task: "task = (if cron \<and> get_queue_type q = CronInit then name @ cron_init_suffix else name)"
    using assms(4) unfolding resolve_one_def Let_def res_simps by blast
  have "q \<in> set queues" "q_name q = name"
    using q assms(2) by (auto simp: find_queue_def split: option.splits dest: find_row_Some)
  moreover have "nq_queue n \<in> set queues" using created_worker_tasks(2) [OF assms(1) n(1)] by blast
  ultimately have qn: "q = nq_queue n"
    using created_worker_tasks(3) [OF assms(1)] n(2) by (auto simp: distinct_map inj_on_def)
  have "task \<in> set (task_identifiers (nq_queue n))"
    using task qn n(2) by (simp add: task_identifiers_def)
  from task_of_queue [OF assms(1) n(1) this, of "wo_default_timeout opts"] task qn n(2) \<open>q \<in> set queues\<close>
  show "\<exists>td. map_of (sp_tasks plan) task = Some td \<and> q_name (td_queue td) = name \<and> td_queue td \<in> set queues \<and>
      (td_operation td = Init \<longleftrightarrow> cron \<and> get_queue_type (td_queue td) = CronInit) \<and>
      td_timeout td = nullish (q_timeout (td_queue td)) (wo_default_timeout opts)"
    by (auto simp: plan cron_init_suffix_def)
  show "\<exists>link. extract_producer_link (inject_trace_context payload (cs_active st)) = Inr (link, payload)"
    by (simp add: injected_link)
  have "map_of (build_task_list (wo_default_timeout opts) (wk_queues w)) (ci_task i) \<noteq> None \<and>
      extract_producer_link (ci_payload i) = Inr (None, None)" if "i \<in> set items" for i
  proof -
    have i: "ci_task i \<in> set (registry_tasks (map nq_queue (wk_queues w)))"
        "extract_producer_link (ci_payload i) = Inr (None, None)"
      using cron_items_registered [OF items] that by (simp_all add: list_all_iff)
    then obtain n' where "n' \<in> set (wk_queues w)" "ci_task i \<in> set (task_identifiers (nq_queue n'))"
      by (auto simp: registry_tasks_def)
    from task_of_queue [OF assms(1) this, of "wo_default_timeout opts"] i(2) show ?thesis by auto
  qed
  then show "list_all (\<lambda>i. map_of (sp_tasks plan) (ci_task i) \<noteq> None \<and>
      extract_producer_link (ci_payload i) = Inr (None, None)) (sp_cron plan)"
    by (simp add: plan list_all_iff)
qed

definition nightly_settings :: "nat settings" where
  "nightly_settings = client_settings \<lparr>po_queues = [nightly_queue], po_schema = None, po_validate = None,
     po_default_max = None, po_payload_mode = None, po_tx_mode = None\<rparr> None False (\<lambda>_. None)"

definition plain_options :: worker_options where
  "plain_options = \<lparr>wo_process = Some [''nightly''], wo_concurrency = None, wo_poll_interval = None,
     wo_default_timeout = Some (Num 9), wo_prefetch = None, wo_second_look = None,
     wo_crash_recovery = RecoveryDefault, wo_restart = RestartDefault\<rparr>"

theorem accepted_job_has_handler_witness:
  "\<exists>w plan td. create_worker [nightly_queue] None plain_options = Inr w \<and>
    plan_start (\<lambda>_. None) None plain_options (wk_queues w) (Inr True) = Inr plan \<and>
    map_of (sp_tasks plan) ''nightly_cron-init'' = Some td \<and> td_operation td = Init \<and> td_timeout td = Some (Num 9)"
proof -
  let ?w = "create_worker [nightly_queue] None plain_options"
  have "case ?w of Inl _ \<Rightarrow> False | Inr w \<Rightarrow> map (q_name \<circ> nq_queue) (wk_queues w) = [''nightly''] \<and>
      (case plan_start (\<lambda>_. None) None plain_options (wk_queues w) (Inr True) of Inl _ \<Rightarrow> False | Inr _ \<Rightarrow> True)"
    by code_simp
  then obtain w where w: "?w = Inr w" and names: "map (q_name \<circ> nq_queue) (wk_queues w) = [''nightly'']"
    and "case plan_start (\<lambda>_. None) None plain_options (wk_queues w) (Inr True) of Inl _ \<Rightarrow> False | Inr _ \<Rightarrow> True"
    by (cases ?w) auto
  then obtain plan where plan: "plan_start (\<lambda>_. None) None plain_options (wk_queues w) (Inr True) = Inr plan"
    by (auto split: sum.splits)
  have qs: "cs_queues nightly_settings = [nightly_queue]" by (simp add: nightly_settings_def client_settings_def)
  let ?r = "resolve_one nightly_settings ''nightly'' ([], GUndef) None True None"
  have "case ?r of Inl _ \<Rightarrow> False | Inr (task, payload, s) \<Rightarrow> task = ''nightly_cron-init''" by code_simp
  then obtain payload s where r: "?r = Inr (''nightly_cron-init'', payload, s)" by (auto split: sum.splits)
  have "set (map (q_name \<circ> nq_queue) (wk_queues w)) = {''nightly''}" by (simp add: names)
  then have "''nightly'' \<in> q_name ` nq_queue ` set (wk_queues w)" by (auto simp: image_image)
  note main = accepted_job_has_handler [OF w qs plan r this]
  then obtain td where td: "map_of (sp_tasks plan) ''nightly_cron-init'' = Some td" "td_queue td = nightly_queue"
      "td_operation td = Init \<longleftrightarrow> get_queue_type (td_queue td) = CronInit"
      "td_timeout td = nullish (q_timeout (td_queue td)) (wo_default_timeout plain_options)" by auto
  moreover have "get_queue_type nightly_queue = CronInit" "q_timeout nightly_queue = None"
      "wo_default_timeout plain_options = Some (Num 9)" by (code_simp+)
  ultimately show ?thesis using w plan by auto
qed

end
