(* ===== verification/Assembly.thy ===== *)
theory Assembly
  imports Wiring
begin

text \<open>
  A worker pool from its parts: \<open>createBetterWorkerPool\<close> of \<^verbatim>\<open>src/src/worker-pool.ts\<close>. Each
  runner with queues becomes a worker over the whole registry that processes only its own queues;
  all of them share the registry, the handlers, the history and the shared options.
\<close>

section \<open>The workers of a pool\<close>

text \<open>
  A runner's own options. A \<open>prefetch\<close> that the runner names, if only as undefined, replaces the
  shared one.
\<close>

record runner_options =
  ro_concurrency :: "jsnum option"
  ro_poll_interval :: "jsnum option"
  ro_second_look :: "jsnum option"
  ro_prefetch :: "jsnum option option"

record 'h pool_options =
  bp_queues :: "'h queue list"
  bp_handlers :: "'h handlers_arg option"
  bp_runners :: "(string \<times> runner_options) list"
  bp_default_runner :: "string option"
  bp_prefetch :: "jsnum option"
  bp_default_timeout :: "jsnum option"
  bp_crash_recovery :: recovery_option
  bp_restart :: restart_option
  bp_completed :: completed_jobs_option

definition runner_worker_options ::
  "'h pool_options \<Rightarrow> runner_options option \<Rightarrow> string list option \<Rightarrow> worker_options" where
  "runner_worker_options po ro queues =
     \<lparr>wo_process = queues, wo_concurrency = Option.bind ro ro_concurrency,
      wo_poll_interval = Option.bind ro ro_poll_interval, wo_default_timeout = bp_default_timeout po,
      wo_prefetch = nullish_else (Option.bind ro ro_prefetch) (bp_prefetch po),
      wo_second_look = Option.bind ro ro_second_look, wo_crash_recovery = bp_crash_recovery po,
      wo_restart = bp_restart po\<rparr>"

text \<open>\<open>assignQueues\<close> and \<open>pgPoolSize\<close> read the options' runners; a concurrency counts by its value.\<close>

definition runners_of :: "'h pool_options \<Rightarrow> runners" where
  "runners_of po = map (\<lambda>(r, ro). (r, map_option floor (Option.bind (ro_concurrency ro) num_val))) (bp_runners po)"

definition assignment_of :: "'h pool_options \<Rightarrow> runner_assignment" where
  "assignment_of po = \<lparr>ra_queues = map (\<lambda>q. (q_name q, q_runner q)) (bp_queues po), ra_default = bp_default_runner po\<rparr>"

record 'h pool_runner =
  pr_name :: string
  pr_options :: worker_options
  pr_worker :: "'h worker"

definition create_runner :: "'h pool_options \<Rightarrow> string \<times> string list \<Rightarrow> 'h pool_runner res" where
  "create_runner po assigned =
     (let opts = runner_worker_options po (map_of (bp_runners po) (fst assigned)) (Some (snd assigned)) in
      bind_res (create_worker (bp_queues po) (bp_handlers po) opts) (\<lambda>w.
      Inr \<lparr>pr_name = fst assigned, pr_options = opts, pr_worker = w\<rparr>))"

text \<open>
  The pool: its runners, the worker that answers for it (the first one, or without queues one that is
  never started), and the history they share.
\<close>

record ('h, 'p) worker_pool =
  wp_runners :: "'h pool_runner list"
  wp_primary :: "'h worker"
  wp_history :: "'p completed_store"

definition create_better_worker_pool :: "'h pool_options \<Rightarrow> ('h, 'p) worker_pool res" where
  "create_better_worker_pool po =
     bind_res (assign_queues (runners_of po) (assignment_of po)) (\<lambda>assigned.
     bind_res (resolve_completed_jobs_store (bp_completed po)) (\<lambda>store.
     bind_res (map_res (create_runner po) assigned) (\<lambda>workers.
     bind_res (case workers of
         w # _ \<Rightarrow> Inr (pr_worker w)
       | [] \<Rightarrow> create_worker (bp_queues po) (bp_handlers po) (runner_worker_options po None None)) (\<lambda>primary.
     Inr \<lparr>wp_runners = workers, wp_primary = primary, wp_history = store\<rparr>))))"

text \<open>The tasks a runner gives to Graphile, and how many connections it uses.\<close>

definition runner_tasks :: "'h pool_runner \<Rightarrow> (string \<times> 'h task_def) list" where
  "runner_tasks r = build_task_list (wo_default_timeout (pr_options r)) (wk_queues (pr_worker r))"

definition runner_concurrency :: "'h pool_runner \<Rightarrow> jsnum" where
  "runner_concurrency r = nullish_else (wo_concurrency (pr_options r)) (int_num default_concurrency)"

section \<open>The tasks of a pool\<close>

lemma created_worker_parts:
  assumes "create_worker queues handlers opts = Inr w"
  shows "\<exists>ns c. normalize_worker_queues queues handlers = Inr ns \<and>
    select_processed ns (wo_process opts) = Inr (wk_queues w) \<and>
    assert_integer (nullish_else (wo_concurrency opts) (int_num default_concurrency)) ''concurrency'' 1 max_safe_integer = Inr c"
  using assms unfolding create_worker_def res_simps by auto

lemma created_runner:
  assumes "create_runner po (name, queues) = Inr r" and "queues \<noteq> []"
  obtains normalized where "normalize_worker_queues (bp_queues po) (bp_handlers po) = Inr normalized"
    and "wk_queues (pr_worker r) = filter (\<lambda>n. q_name (nq_queue n) \<in> set queues) normalized"
    and "pr_name r = name" and "wo_default_timeout (pr_options r) = bp_default_timeout po"
    and "wo_concurrency (pr_options r) = Option.bind (map_of (bp_runners po) name) ro_concurrency"
    and "\<exists>c. safe_integer (runner_concurrency r) = Some c \<and> 1 \<le> c"
proof -
  let ?opts = "runner_worker_options po (map_of (bp_runners po) name) (Some queues)"
  have w: "create_worker (bp_queues po) (bp_handlers po) ?opts = Inr (pr_worker r)"
    and r: "pr_name r = name" "pr_options r = ?opts"
    using assms(1) by (auto simp: create_runner_def Let_def res_simps)
  obtain normalized c where norm: "normalize_worker_queues (bp_queues po) (bp_handlers po) = Inr normalized"
    and sel: "select_processed normalized (wo_process ?opts) = Inr (wk_queues (pr_worker r))"
    and conc: "assert_integer (nullish_else (wo_concurrency ?opts) (int_num default_concurrency))
       ''concurrency'' 1 max_safe_integer = Inr c"
    using created_worker_parts [OF w] by blast
  show ?thesis
    by (rule that [OF norm _ r(1)])
       (use sel conc r(2) in \<open>auto simp: select_processed_def res_simps select_names_Inr runner_worker_options_def
          runner_concurrency_def assert_integer_Inr split: if_splits\<close>)
qed

lemma created_runner_connections:
  assumes "create_runner po (name, queues) = Inr r" and "queues \<noteq> []"
  shows "runner_connections (map_of (runners_of po) name) = the (safe_integer (runner_concurrency r)) + 2"
proof -
  obtain c where c: "safe_integer (runner_concurrency r) = Some c"
    and given: "wo_concurrency (pr_options r) = Option.bind (map_of (bp_runners po) name) ro_concurrency"
    using created_runner [OF assms] by metis
  have runners: "map_of (runners_of po) name =
      map_option (\<lambda>ro. map_option floor (Option.bind (ro_concurrency ro) num_val)) (map_of (bp_runners po) name)"
    unfolding runners_of_def map_of_map by simp
  show ?thesis
  proof (cases "wo_concurrency (pr_options r)")
    case None
    have "safe_integer (int_num default_concurrency) = Some default_concurrency"
      by (rule safe_integer_int) (simp add: default_concurrency_def max_safe_integer_def)
    with None c have "c = default_concurrency" by (simp add: runner_concurrency_def)
    with None c given show ?thesis
      by (auto simp: runners runner_connections_def split: option.splits)
  next
    case (Some n)
    then have "map_option floor (num_val n) = Some c"
      using c by (auto simp: runner_concurrency_def safe_integer_def split: option.splits if_splits)
    with Some c given show ?thesis
      by (auto simp: runners runner_connections_def split: option.splits bind_splits)
  qed
qed

lemma mset_filter_disjoint:
  "(\<And>x. \<not> (P x \<and> Q x)) \<Longrightarrow> mset (filter P xs) + mset (filter Q xs) = mset (filter (\<lambda>x. P x \<or> Q x) xs)"
  by (induction xs) auto

lemma mset_filter_classes:
  assumes "distinct (concat (map snd assigned))"
  shows "mset (concat (map (\<lambda>a. filter (\<lambda>n. f n \<in> set (snd a)) ns) assigned)) =
    mset (filter (\<lambda>n. f n \<in> set (concat (map snd assigned))) ns)"
  using assms
proof (induction assigned)
  case (Cons a as)
  then have "\<not> (f n \<in> set (snd a) \<and> f n \<in> set (concat (map snd as)))" for n by auto
  from mset_filter_disjoint [where P = "\<lambda>n. f n \<in> set (snd a)" and Q = "\<lambda>n. f n \<in> set (concat (map snd as))", OF this]
  show ?case using Cons by simp
qed simp

lemma mset_concat_map: "mset (concat (map g xs)) = (\<Sum>x\<in>#mset xs. mset (g x))"
  by (induction xs) auto

lemma pool_parts:
  assumes runners: "list_all2 (\<lambda>a r. create_runner po a = Inr r) assigned rs"
    and full: "\<forall>b\<in>set assigned. snd b \<noteq> []"
    and norm: "normalize_worker_queues (bp_queues po) (bp_handlers po) = Inr ns"
  shows "map (wk_queues \<circ> pr_worker) rs = map (\<lambda>b. filter (\<lambda>n. q_name (nq_queue n) \<in> set (snd b)) ns) assigned"
    and "map (\<lambda>b. runner_connections (map_of (runners_of po) (fst b))) assigned =
      map (\<lambda>r. the (safe_integer (runner_concurrency r)) + 2) rs"
    and "map runner_tasks rs = map (build_task_list (bp_default_timeout po) \<circ> wk_queues \<circ> pr_worker) rs"
    and "map pr_name rs = map fst assigned"
    and "\<forall>r\<in>set rs. \<exists>b\<in>set assigned. pr_name r = fst b \<and>
      runner_tasks r = build_task_list (bp_default_timeout po) (filter (\<lambda>n. q_name (nq_queue n) \<in> set (snd b)) ns)"
proof -
  have "wk_queues (pr_worker r) = filter (\<lambda>n. q_name (nq_queue n) \<in> set (snd b)) ns \<and>
      wo_default_timeout (pr_options r) = bp_default_timeout po \<and> pr_name r = fst b \<and>
      runner_connections (map_of (runners_of po) (fst b)) = the (safe_integer (runner_concurrency r)) + 2"
    if "create_runner po b = Inr r" "snd b \<noteq> []" for b r
    using created_runner [of po "fst b" "snd b" r] created_runner_connections [of po "fst b" "snd b" r] that norm
    by (metis prod.collapse sum.inject(2))
  with runners full show "map (wk_queues \<circ> pr_worker) rs = map (\<lambda>b. filter (\<lambda>n. q_name (nq_queue n) \<in> set (snd b)) ns) assigned"
    and "map (\<lambda>b. runner_connections (map_of (runners_of po) (fst b))) assigned =
      map (\<lambda>r. the (safe_integer (runner_concurrency r)) + 2) rs"
    and "map runner_tasks rs = map (build_task_list (bp_default_timeout po) \<circ> wk_queues \<circ> pr_worker) rs"
    and "map pr_name rs = map fst assigned"
    and "\<forall>r\<in>set rs. \<exists>b\<in>set assigned. pr_name r = fst b \<and>
      runner_tasks r = build_task_list (bp_default_timeout po) (filter (\<lambda>n. q_name (nq_queue n) \<in> set (snd b)) ns)"
    by (induction rule: list_all2_induct) (simp_all add: runner_tasks_def)
qed

lemma distinct_registry_names: "distinct (registry_tasks queues) \<Longrightarrow> distinct (map q_name queues)"
  by (induction queues) (auto simp: task_identifiers_simp registry_tasks_def)

lemma concat_classes:
  "concat (map (\<lambda>xs. concat (map g xs)) xss) = concat (map g (concat xss))"
  by (induction xss) simp_all

lemma pool_tasks_mset:
  assumes "distinct (concat (map snd assigned))"
    and "\<forall>n\<in>set ns. q_name (nq_queue n) \<in> set (concat (map snd assigned))"
  shows "mset (concat (map (\<lambda>b. map fst (build_task_list t (filter (\<lambda>n. q_name (nq_queue n) \<in> set (snd b)) ns))) assigned)) =
    mset (map fst (build_task_list t ns))"
proof -
  let ?g = "\<lambda>n. map fst (queue_tasks t n)"
  have names: "map fst (build_task_list t ms) = concat (map ?g ms)" for ms
    by (simp add: build_task_list_def map_concat o_def)
  have "filter (\<lambda>n. q_name (nq_queue n) \<in> set (concat (map snd assigned))) ns = ns"
    using assms(2) by (simp add: filter_id_conv)
  with mset_filter_classes [OF assms(1), of "q_name \<circ> nq_queue" ns]
  have all: "mset (concat (map (\<lambda>b. filter (\<lambda>n. q_name (nq_queue n) \<in> set (snd b)) ns) assigned)) = mset ns"
    by (simp del: set_concat)
  have "concat (map (\<lambda>b. concat (map ?g (filter (\<lambda>n. q_name (nq_queue n) \<in> set (snd b)) ns))) assigned) =
      concat (map ?g (concat (map (\<lambda>b. filter (\<lambda>n. q_name (nq_queue n) \<in> set (snd b)) ns) assigned)))"
    using concat_classes [of ?g "map (\<lambda>b. filter (\<lambda>n. q_name (nq_queue n) \<in> set (snd b)) ns) assigned"]
    by (simp add: o_def)
  then show ?thesis unfolding names by (simp only: mset_concat_map [of ?g] all)
qed

text \<open>A task of a runner belongs to a queue placed with it.\<close>

lemma runner_task_placed:
  assumes "(i, td) \<in> set (build_task_list t (filter (\<lambda>n. q_name (nq_queue n) \<in> set qs) ns))"
    and "qs = map fst (filter (\<lambda>q. nullish (snd q) dflt = Some r) (map (\<lambda>q. (q_name q, q_runner q)) (map nq_queue ns)))"
    and "distinct (map q_name (map nq_queue ns))"
  shows "td_queue td \<in> set (map nq_queue ns) \<and> nullish (q_runner (td_queue td)) dflt = Some r"
proof -
  obtain n where n: "n \<in> set ns" "q_name (nq_queue n) \<in> set qs" "td_queue td = nq_queue n"
    using assms(1) by (auto simp: build_task_list_def queue_tasks_def Let_def split: option.splits)
  then obtain m where "m \<in> set ns" "q_name (nq_queue m) = q_name (nq_queue n)"
      "nullish (q_runner (nq_queue m)) dflt = Some r"
    unfolding assms(2) by auto
  with n assms(3) show ?thesis by (auto simp: distinct_map inj_on_def)
qed

lemma runner_tasks_placed:
  assumes "\<forall>r\<in>set rs. \<exists>b\<in>set assigned. pr_name r = fst b \<and>
      runner_tasks r = build_task_list t (filter (\<lambda>n. q_name (nq_queue n) \<in> set (snd b)) ns)"
    and "\<forall>b\<in>set assigned. snd b = map fst (filter (\<lambda>q. nullish (snd q) dflt = Some (fst b))
      (map (\<lambda>q. (q_name q, q_runner q)) (map nq_queue ns)))"
    and "distinct (map q_name (map nq_queue ns))"
  shows "list_all (\<lambda>r. list_all (\<lambda>(i, td). td_queue td \<in> set (map nq_queue ns) \<and>
    nullish (q_runner (td_queue td)) dflt = Some (pr_name r)) (runner_tasks r)) rs"
proof -
  have "td_queue td \<in> set (map nq_queue ns) \<and> nullish (q_runner (td_queue td)) dflt = Some (pr_name r)"
    if "r \<in> set rs" "(i, td) \<in> set (runner_tasks r)" for r i td
  proof -
    from bspec [OF assms(1) that(1)] obtain b where b: "b \<in> set assigned" "pr_name r = fst b"
      and tasks: "runner_tasks r = build_task_list t (filter (\<lambda>n. q_name (nq_queue n) \<in> set (snd b)) ns)" by blast
    from runner_task_placed [OF that(2)[unfolded tasks] bspec [OF assms(2) b(1)] assms(3)] b(2) show ?thesis by simp
  qed
  then show ?thesis by (auto simp: list_all_iff)
qed

text \<open>
  C29 A pool runs every task exactly once: in a pool that could be created, each task of the registry is
  given to Graphile by exactly one runner, the one its queue names or else the default one, and
  no runner has another task; and the size computed for the connection pool is what these runners
  use, their concurrency and two connections each.
\<close>

theorem pool_covers_registry:
  assumes "create_better_worker_pool po = Inr p"
  shows "mset (concat (map (map fst \<circ> runner_tasks) (wp_runners p))) = mset (registry_tasks (bp_queues po)) \<and>
    distinct (registry_tasks (bp_queues po)) \<and> distinct (map pr_name (wp_runners p)) \<and>
    list_all (\<lambda>r. list_all (\<lambda>(i, td). td_queue td \<in> set (bp_queues po) \<and>
      nullish (q_runner (td_queue td)) (bp_default_runner po) = Some (pr_name r)) (runner_tasks r)) (wp_runners p) \<and>
    pg_pool_size (runners_of po) (Some (assignment_of po)) =
      Inr (\<Sum>r\<leftarrow>wp_runners p. the (safe_integer (runner_concurrency r)) + 2)"
proof -
  obtain assigned where assigned: "assign_queues (runners_of po) (assignment_of po) = Inr assigned"
    and runners: "list_all2 (\<lambda>a r. create_runner po a = Inr r) assigned (wp_runners p)"
    using assms by (auto simp: create_better_worker_pool_def res_simps map_res_Inr_iff)
  note placed = every_queue_one_runner [OF assigned]
  have every: "mset (concat (map snd assigned)) = mset (map q_name (bp_queues po))"
    using placed by (simp add: assignment_of_def o_def)
  show ?thesis
  proof (cases assigned)
    case Nil
    with every runners placed show ?thesis by (simp add: registry_tasks_def)
  next
    case (Cons a as)
    have full: "\<forall>b\<in>set assigned. snd b \<noteq> []" using placed by (auto simp: list_all_iff)
    obtain r where "create_runner po a = Inr r" "snd a \<noteq> []"
      using runners Cons full by (auto simp: list_all2_Cons1)
    then obtain ns where norm: "normalize_worker_queues (bp_queues po) (bp_handlers po) = Inr ns"
      using created_runner [of po "fst a" "snd a" r] by (metis prod.collapse)
    note parts = pool_parts [OF runners full norm]
    have q: "map nq_queue ns = bp_queues po" and tasks: "distinct (registry_tasks (bp_queues po))"
      using normalize_worker_queues_Inr [OF norm] by blast+
    have names: "distinct (map q_name (bp_queues po))"
      by (rule distinct_registry_names [OF tasks])
    have given: "distinct (concat (map snd assigned))" "set (concat (map snd assigned)) = q_name ` nq_queue ` set ns"
      using names every mset_eq_imp_distinct_iff [OF every] mset_eq_setD [OF every] by (auto simp: q [symmetric])
    let ?t = "bp_default_timeout po"
    have "map (map fst \<circ> runner_tasks) (wp_runners p) =
        map (\<lambda>b. map fst (build_task_list ?t (filter (\<lambda>n. q_name (nq_queue n) \<in> set (snd b)) ns))) assigned"
      using arg_cong [OF parts(1), of "map (map fst \<circ> build_task_list ?t)"]
        arg_cong [OF parts(3), of "map (map fst)"] by (simp add: o_def)
    moreover have "mset (concat \<dots>) = mset (map fst (build_task_list ?t ns))"
      by (rule pool_tasks_mset) (use given in auto)
    ultimately have "mset (concat (map (map fst \<circ> runner_tasks) (wp_runners p))) = mset (registry_tasks (bp_queues po))"
      using task_list_covers_registry [OF norm, of ?t] by simp
    moreover have "\<forall>b\<in>set assigned. snd b = map fst (filter (\<lambda>q. nullish (snd q) (bp_default_runner po) = Some (fst b))
        (map (\<lambda>q. (q_name q, q_runner q)) (map nq_queue ns)))"
      using placed by (auto simp: list_all_iff assignment_of_def q)
    ultimately show ?thesis
      using runner_tasks_placed [OF parts(5)] names tasks placed parts(2,4) by (simp add: o_def q)
  qed
qed

definition two_runners :: "nat pool_options" where
  "two_runners = \<lparr>bp_queues = [nightly_queue\<lparr>q_runner := Some ''slow''\<rparr>, nightly_queue\<lparr>q_name := ''daily''\<rparr>],
     bp_handlers = None,
     bp_runners = [(''fast'', \<lparr>ro_concurrency = Some (Num 20), ro_poll_interval = None, ro_second_look = None, ro_prefetch = None\<rparr>),
       (''slow'', \<lparr>ro_concurrency = None, ro_poll_interval = None, ro_second_look = None, ro_prefetch = Some None\<rparr>),
       (''spare'', \<lparr>ro_concurrency = None, ro_poll_interval = None, ro_second_look = None, ro_prefetch = None\<rparr>)],
     bp_default_runner = Some ''fast'', bp_prefetch = Some (Num 1), bp_default_timeout = None,
     bp_crash_recovery = RecoveryDefault, bp_restart = RestartDefault, bp_completed = HistoryOff\<rparr>"

theorem pool_covers_registry_witness:
  "\<exists>p :: (nat, json) worker_pool. create_better_worker_pool two_runners = Inr p \<and>
    mset (concat (map (map fst \<circ> runner_tasks) (wp_runners p))) =
      mset [''nightly'', ''nightly_cron-init'', ''daily'', ''daily_cron-init''] \<and>
    pg_pool_size (runners_of two_runners) (Some (assignment_of two_runners)) = Inr 34"
proof -
  let ?p = "create_better_worker_pool two_runners :: (nat, json) worker_pool res"
  have "case ?p of Inl _ \<Rightarrow> False | Inr _ \<Rightarrow> True" by code_simp
  then obtain p where p: "?p = Inr p" by (cases ?p) auto
  have "registry_tasks (bp_queues two_runners) = [''nightly'', ''nightly_cron-init'', ''daily'', ''daily_cron-init'']"
    "pg_pool_size (runners_of two_runners) (Some (assignment_of two_runners)) = Inr 34"
    by (code_simp+)
  with pool_covers_registry [OF p] p show ?thesis by auto
qed

end
