(* ===== verification/Cli.thy ===== *)
theory Cli
  imports Admin
begin

text \<open>
  The command line, \<^verbatim>\<open>src/src/cli.ts\<close>: reading the arguments as \<open>parseArgs\<close> of
  Node does for the options the command line declares, and the command they ask for, as a value.
  Printing is left out. \<open>JSON.parse\<close> and the reading of dates are parameters.
\<close>

section \<open>Arguments\<close>

text \<open>An option with its value; a flag has none. The last occurrence counts.\<close>

type_synonym cli_values = "(string \<times> string option) list"

definition flag_options :: "string list" where
  "flag_options = [''help'', ''json'']"

definition string_options :: "string list" where
  "string_options = [''priority'', ''run-at'', ''max-attempts'', ''job-key'', ''queue'', ''state'',
     ''limit'', ''offset'']"

definition looks_like_option :: "string \<Rightarrow> bool" where
  "looks_like_option s \<longleftrightarrow> 1 < length s \<and> hd s = CHR ''-''"

definition parse_error :: "string \<Rightarrow> js_error" where
  "parse_error s = PlainTypeError (''Cannot parse the argument '' @ quoted s)"

text \<open>\<open>--name=value\<close>: the name ends at the first equals sign.\<close>

definition split_option :: "string \<Rightarrow> string \<times> string option" where
  "split_option s =
     (let name = takeWhile (\<lambda>c. c \<noteq> CHR ''='') s in
      (name, if name = s then None else Some (drop (length name + 1) s)))"

fun parse_args :: "string list \<Rightarrow> cli_values \<Rightarrow> string list \<Rightarrow> (cli_values \<times> string list) res" where
  "parse_args [] values positionals = Inr (values, positionals)"
| "parse_args (arg # rest) values positionals =
     (if arg = ''--'' then Inr (values, positionals @ rest)
      else if take 2 arg = ''--'' then
        (let (name, given) = split_option (drop 2 arg) in
         if name \<in> set flag_options then
           (if given = None then parse_args rest ((name, None) # values) positionals else Inl (parse_error arg))
         else if name \<in> set string_options then
           (case given of
              Some v \<Rightarrow> parse_args rest ((name, Some v) # values) positionals
            | None \<Rightarrow>
                (case rest of
                   [] \<Rightarrow> Inl (parse_error arg)
                 | v # rest' \<Rightarrow>
                     if looks_like_option v then Inl (parse_error arg)
                     else parse_args rest' ((name, Some v) # values) positionals))
         else Inl (parse_error arg))
      else if looks_like_option arg then
        (if list_all (\<lambda>c. c = CHR ''h'') (tl arg) then parse_args rest ((''help'', None) # values) positionals
         else Inl (parse_error arg))
      else parse_args rest values (positionals @ [arg]))"

definition value_given :: "string \<Rightarrow> cli_values \<Rightarrow> string option" where
  "value_given name values = Option.bind (map_of values name) id"

definition flag_given :: "string \<Rightarrow> cli_values \<Rightarrow> bool" where
  "flag_given name values \<longleftrightarrow> map_of values name \<noteq> None"

section \<open>Commands\<close>

text \<open>\<open>number\<close>: decimal digits with an optional minus, within its range.\<close>

definition number_text :: "string \<Rightarrow> int option" where
  "number_text s =
     (if all_digits s then Some (int (read_nat s))
      else if s \<noteq> [] \<and> hd s = CHR ''-'' \<and> all_digits (tl s) then Some (- int (read_nat (tl s)))
      else None)"

definition cli_number :: "string option \<Rightarrow> string \<Rightarrow> int \<Rightarrow> int \<Rightarrow> int option res" where
  "cli_number value label lo hi =
     (case value of
        None \<Rightarrow> Inr None
      | Some s \<Rightarrow>
          (case number_text s of
             None \<Rightarrow> Inl (PlainRangeError (''Invalid '' @ label @ '': '' @ s))
           | Some i \<Rightarrow> bind_res (assert_integer (int_num i) label lo hi) (\<lambda>n. Inr (Some n))))"

definition required :: "string list \<Rightarrow> string \<Rightarrow> string res" where
  "required args label =
     (case args of
        [] \<Rightarrow> Inl (plain_error (label @ '' required''))
      | a # _ \<Rightarrow> if a = [] then Inl (plain_error (label @ '' required'')) else Inr a)"

datatype cli_action =
    ShowHelp
  | ListQueues
  | ShowSchema string
  | EnqueueJob string "json option" job_options
  | ShowStats
  | ListJobs list_options
  | ShowJob string
  | RetryJob string
  | FailJob string "string option"
  | RunOnce

definition database_commands :: "string list" where
  "database_commands = [''create-job'', ''stats'', ''list-jobs'', ''get-job'', ''retry'', ''fail'', ''run-once'']"

definition known_queue :: "string list \<Rightarrow> string \<Rightarrow> unit res" where
  "known_queue queues name =
     guard_res (name \<in> set queues) (plain_error (''Queue '' @ quoted name @ '' not found''))"

definition run_at_option :: "(string \<Rightarrow> int option) \<Rightarrow> string option \<Rightarrow> date_arg option res" where
  "run_at_option parse_date value =
     (case value of
        None \<Rightarrow> Inr None
      | Some s \<Rightarrow> (case parse_date s of
          None \<Rightarrow> Inl (PlainRangeError ''Invalid run-at timestamp'')
        | Some t \<Rightarrow> Inr (Some (DateValue (Some t)))))"

definition create_job_action ::
  "(string \<Rightarrow> json res) \<Rightarrow> (string \<Rightarrow> int option) \<Rightarrow> string list \<Rightarrow> cli_values \<Rightarrow> string list \<Rightarrow> cli_action res" where
  "create_job_action parse_json parse_date queues values args =
     bind_res (required args ''Queue name'') (\<lambda>name.
     bind_res (known_queue queues name) (\<lambda>_.
     bind_res (cli_number (value_given ''priority'' values) ''priority'' (-32768) 32767) (\<lambda>priority.
     bind_res (cli_number (value_given ''max-attempts'' values) ''max-attempts'' 1 32767) (\<lambda>max_attempts.
     bind_res (run_at_option parse_date (value_given ''run-at'' values)) (\<lambda>run_at.
     bind_res (case tl args of [] \<Rightarrow> Inr None | p # _ \<Rightarrow> map_sum id Some (parse_json p)) (\<lambda>payload.
     Inr (EnqueueJob name payload (no_options\<lparr>
       jo_priority := map_option (\<lambda>p. Number (int_num p)) priority,
       jo_max_attempts := map_option (\<lambda>m. Number (int_num m)) max_attempts,
       jo_job_key := value_given ''job-key'' values, jo_run_at := run_at\<rparr>))))))))"

definition list_jobs_action :: "cli_values \<Rightarrow> cli_action res" where
  "list_jobs_action values =
     bind_res (guard_res (case value_given ''state'' values of None \<Rightarrow> True
         | Some st \<Rightarrow> st \<in> set [''pending'', ''running'', ''failed''])
       (plain_error ''--state must be pending, running, or failed'')) (\<lambda>_.
     bind_res (cli_number (value_given ''limit'' values) ''limit'' 0 1000) (\<lambda>limit.
     bind_res (cli_number (value_given ''offset'' values) ''offset'' 0 max_safe_integer) (\<lambda>offset.
     Inr (ListJobs \<lparr>lo_limit = map_option int_num limit, lo_offset = map_option int_num offset,
       lo_queue = value_given ''queue'' values, lo_state = value_given ''state'' values,
       lo_payload = False, lo_before = None\<rparr>))))"

definition cli_command ::
  "(string \<Rightarrow> json res) \<Rightarrow> (string \<Rightarrow> int option) \<Rightarrow> string list \<Rightarrow> cli_values \<Rightarrow> string \<Rightarrow> string list \<Rightarrow>
   cli_action res" where
  "cli_command parse_json parse_date queues values command args =
     (if command = ''list-queues'' then Inr ListQueues
      else if command = ''schema'' then
        bind_res (required args ''Queue name'') (\<lambda>name.
        bind_res (known_queue queues name) (\<lambda>_. Inr (ShowSchema name)))
      else if command = ''create-job'' then create_job_action parse_json parse_date queues values args
      else if command = ''stats'' then Inr ShowStats
      else if command = ''list-jobs'' then list_jobs_action values
      else if command = ''get-job'' then bind_res (required args ''Job id'') (Inr \<circ> ShowJob)
      else if command = ''retry'' then bind_res (required args ''Job id'') (Inr \<circ> RetryJob)
      else if command = ''fail'' then
        bind_res (required args ''Job id'') (\<lambda>i.
          let reason = join_with '' '' (tl args) in Inr (FailJob i (if reason = [] then None else Some reason)))
      else if command = ''run-once'' then Inr RunOnce
      else Inl (plain_error (''Unknown command: '' @ command)))"

text \<open>Whether to migrate first, and the command; an error before either ends with exit code 1.\<close>

definition cli_plan ::
  "(string \<Rightarrow> json res) \<Rightarrow> (string \<Rightarrow> int option) \<Rightarrow> string list \<Rightarrow> bool \<Rightarrow> string list \<Rightarrow> (bool \<times> cli_action res) res" where
  "cli_plan parse_json parse_date queues migrate argv =
     bind_res (parse_args argv [] []) (\<lambda>(values, positionals).
       case positionals of
         [] \<Rightarrow> Inr (False, Inr ShowHelp)
       | command # args \<Rightarrow>
           if flag_given ''help'' values \<or> command = [] then Inr (False, Inr ShowHelp)
           else Inr (migrate \<and> command \<in> set database_commands,
                     cli_command parse_json parse_date queues values command args))"

section \<open>The library accepts what the command line accepts\<close>

lemma cli_number_Inr:
  "cli_number v l lo hi = Inr (Some i) \<Longrightarrow> safe_integer (int_num i) = Some i \<and> lo \<le> i \<and> i \<le> hi"
proof -
  assume "cli_number v l lo hi = Inr (Some i)"
  then obtain k where k: "safe_integer (int_num k) = Some i" "lo \<le> i" "i \<le> hi"
    by (auto simp: cli_number_def res_simps assert_integer_Inr split: option.splits)
  moreover from k(1) have "k = i" by (auto simp: safe_integer_def split: if_splits)
  ultimately show ?thesis by simp
qed

lemma required_Inr: "required args l = Inr a \<Longrightarrow> a \<noteq> [] \<and> hd args = a"
  by (auto simp: required_def split: list.splits if_splits)

lemma create_job_action_Inr:
  assumes "create_job_action pj pd queues values args = Inr act"
  obtains name payload opts where "act = EnqueueJob name payload opts" "name \<in> set queues"
    "case jo_priority opts of None \<Rightarrow> True | Some v \<Rightarrow> \<exists>i. v = Number (int_num i) \<and> safe_integer (int_num i) = Some i \<and> - 32768 \<le> i \<and> i \<le> 32767"
    "case jo_max_attempts opts of None \<Rightarrow> True | Some v \<Rightarrow> \<exists>i. v = Number (int_num i) \<and> safe_integer (int_num i) = Some i \<and> 1 \<le> i \<and> i \<le> 32767"
    "jo_run_at opts = None \<or> (\<exists>t. jo_run_at opts = Some (DateValue (Some t)))"
    "jo_idem_key opts = None" "jo_idem_ttl opts = None"
proof -
  obtain name priority max_attempts run_at payload where
    name: "name \<in> set queues"
    and p: "cli_number (value_given ''priority'' values) ''priority'' (-32768) 32767 = Inr priority"
    and m: "cli_number (value_given ''max-attempts'' values) ''max-attempts'' 1 32767 = Inr max_attempts"
    and t: "run_at_option pd (value_given ''run-at'' values) = Inr run_at"
    and act: "act = EnqueueJob name payload (no_options\<lparr>
       jo_priority := map_option (\<lambda>p. Number (int_num p)) priority,
       jo_max_attempts := map_option (\<lambda>m. Number (int_num m)) max_attempts,
       jo_job_key := value_given ''job-key'' values, jo_run_at := run_at\<rparr>)"
    using assms
    by (auto simp: create_job_action_def known_queue_def res_simps)
  have "run_at = None \<or> (\<exists>t. run_at = Some (DateValue (Some t)))"
    using t by (auto simp: run_at_option_def split: option.splits)
  with p m have
    "case map_option (\<lambda>p. Number (int_num p)) priority of None \<Rightarrow> True | Some v \<Rightarrow> \<exists>i. v = Number (int_num i) \<and> safe_integer (int_num i) = Some i \<and> - 32768 \<le> i \<and> i \<le> 32767"
    "case map_option (\<lambda>m. Number (int_num m)) max_attempts of None \<Rightarrow> True | Some v \<Rightarrow> \<exists>i. v = Number (int_num i) \<and> safe_integer (int_num i) = Some i \<and> 1 \<le> i \<and> i \<le> 32767"
    "run_at = None \<or> (\<exists>t. run_at = Some (DateValue (Some t)))"
    by (auto split: option.split dest: cli_number_Inr)
  then show ?thesis
    by (intro that [OF act name]) (simp_all add: no_options_def)
qed

lemma resolve_given:
  assumes "resolve_enqueue_spec pd q None dm False None = Inr s0"
    and "case jo_priority opts of None \<Rightarrow> True | Some v \<Rightarrow> \<exists>i. v = Number (int_num i) \<and> safe_integer (int_num i) = Some i \<and> - 32768 \<le> i \<and> i \<le> 32767"
    and "case jo_max_attempts opts of None \<Rightarrow> True | Some v \<Rightarrow> \<exists>i. v = Number (int_num i) \<and> safe_integer (int_num i) = Some i \<and> 1 \<le> i \<and> i \<le> 32767"
    and "jo_run_at opts = None \<or> (\<exists>t. jo_run_at opts = Some (DateValue (Some t)))"
    and "jo_idem_key opts = None" "jo_idem_ttl opts = None"
  shows "is_ok (resolve_enqueue_spec pd q (Some opts) dm False None)"
proof -
  have m0: "\<exists>m. assert_integer (nullish_else (q_max_attempts q) dm) ''maxAttempts'' 1 32767 = Inr m"
    and p0: "case q_priority q of None \<Rightarrow> True | Some p \<Rightarrow> \<exists>i. assert_integer p ''priority'' (-32768) 32767 = Inr i"
    using assms(1)
    by (auto simp: resolve_enqueue_spec_def effective_def no_options_def cron_defaults_def defined_def
        Let_def res_simps map_sum_Inr split: option.splits)
  have m: "\<exists>m. assert_integer (nullish_else (nullish (defined (jo_max_attempts opts)) (q_max_attempts q)) dm) ''maxAttempts'' 1 32767 = Inr m"
    using m0 assms(3) by (auto simp: defined_def assert_integer_Inr split: option.splits)
  have p: "is_ok (case nullish (defined (jo_priority opts)) (q_priority q) of
      None \<Rightarrow> Inr None | Some p \<Rightarrow> map_sum id Some (assert_integer p ''priority'' (-32768) 32767))"
    using p0 assms(2) by (auto simp: defined_def is_ok_iff map_sum_Inr assert_integer_Inr split: option.splits)
  have t: "check_run_at pd (jo_run_at opts) = Inr ()"
    using assms(4) by (auto simp: check_run_at_def)
  show ?thesis
    using m p assms(5,6)
    by (auto simp: resolve_enqueue_spec_def effective_def cron_defaults_def Let_def t is_ok_iff)
qed

lemma list_jobs_action_ok:
  assumes "list_jobs_action values = Inr (ListJobs opts)"
  shows "is_ok (query_recent_jobs parse_date pg_time opts d)"
proof -
  obtain limit offset where l: "cli_number (value_given ''limit'' values) ''limit'' 0 1000 = Inr limit"
    and o': "cli_number (value_given ''offset'' values) ''offset'' 0 max_safe_integer = Inr offset"
    and st: "case value_given ''state'' values of None \<Rightarrow> True | Some st \<Rightarrow> st \<in> set [''pending'', ''running'', ''failed'']"
    and opts: "opts = \<lparr>lo_limit = map_option int_num limit, lo_offset = map_option int_num offset,
       lo_queue = value_given ''queue'' values, lo_state = value_given ''state'' values,
       lo_payload = False, lo_before = None\<rparr>"
    using assms by (auto simp: list_jobs_action_def res_simps simp del: list.set)
  have rows: "map_res (list_row False) xs = Inr (map (listed (Some JNull)) xs)" for xs
    by (induction xs) (simp_all add: list_row_def)
  have lim: "\<exists>i. assert_integer (nullish_else (map_option int_num limit) (int_num default_list_limit)) ''limit'' 0 max_list_limit = Inr i"
  proof (cases limit)
    case None
    have "safe_integer (int_num 100) = Some 100" by (rule safe_integer_int) (simp add: max_safe_integer_def)
    with None show ?thesis
      by (simp only: assert_integer_Inr default_list_limit_def max_list_limit_def) simp
  next
    case (Some i)
    with cli_number_Inr [OF l[unfolded Some]] show ?thesis
      by (auto simp: assert_integer_Inr max_list_limit_def)
  qed
  have off: "\<exists>i. assert_integer (nullish_else (map_option int_num offset) (int_num 0)) ''offset'' 0 max_safe_integer = Inr i"
  proof (cases offset)
    case None
    have "safe_integer (int_num 0) = Some 0" by (rule safe_integer_int) (simp add: max_safe_integer_def)
    with None show ?thesis by (simp only: assert_integer_Inr) (simp add: max_safe_integer_def)
  next
    case (Some i)
    with cli_number_Inr [OF o'[unfolded Some]] show ?thesis by (auto simp: assert_integer_Inr)
  qed
  show ?thesis
    using lim off st unfolding query_recent_jobs_def opts
    by (auto simp: is_ok_iff cast_cursor_def rows simp del: list.set)
qed

text \<open>
  What the command line accepts, the library accepts: a listing it asks for passes every check of
  the listing, and a job it enqueues names a registered queue and passes every check of the
  options that the queue's own defaults pass; and it migrates only before a command that uses the
  database.
\<close>

theorem cli_accepts_valid_requests:
  assumes "cli_plan parse_json parse_date (map q_name queues) migrate argv = Inr (migrates, Inr act)"
  shows "(case act of
      ListJobs opts \<Rightarrow> is_ok (query_recent_jobs parse_date' pg_time opts d)
    | EnqueueJob name payload opts \<Rightarrow> name \<in> set (map q_name queues) \<and>
        (\<forall>q s0. resolve_enqueue_spec parse_date q None default_max False None = Inr s0 \<longrightarrow>
           is_ok (resolve_enqueue_spec parse_date q (Some opts) default_max False None))
    | _ \<Rightarrow> True) \<and>
    (migrates \<longrightarrow> migrate \<and> act \<notin> {ShowHelp, ListQueues} \<and> (\<forall>name. act \<noteq> ShowSchema name))"
proof -
  have shows_help: ?thesis if "act = ShowHelp" "\<not> migrates" using that by simp
  obtain vals ps where args: "parse_args argv [] [] = Inr (vals, ps)"
    using assms by (auto simp: cli_plan_def res_simps)
  consider (shown) "act = ShowHelp" "\<not> migrates"
    | (cmd) c args where "migrates = (migrate \<and> c \<in> set database_commands)"
        "cli_command parse_json parse_date (map q_name queues) vals c args = Inr act"
    using assms by (cases ps) (auto simp: cli_plan_def args split: if_splits)
  then show ?thesis
  proof cases
    case cmd
    note act = cmd(2)[unfolded cli_command_def]
    have only: "\<not> migrates \<or> act \<notin> {ShowHelp, ListQueues} \<and> (\<forall>name. act \<noteq> ShowSchema name)"
      using act cmd(1)
      by (auto simp: database_commands_def res_simps list_jobs_action_def Let_def split: if_splits
          elim!: create_job_action_Inr)
    show ?thesis
    proof (cases act)
      case (ListJobs opts)
      then have "list_jobs_action vals = Inr (ListJobs opts)"
        using act by (auto simp: res_simps Let_def split: if_splits elim!: create_job_action_Inr)
      with only cmd(1) ListJobs show ?thesis using list_jobs_action_ok by auto
    next
      case (EnqueueJob name payload opts)
      then have "create_job_action parse_json parse_date (map q_name queues) vals args = Inr act"
        using act by (auto simp: res_simps list_jobs_action_def Let_def split: if_splits)
      then show ?thesis
        by (rule create_job_action_Inr)
           (use only cmd(1) EnqueueJob in \<open>auto intro: resolve_given\<close>)
    qed (use only cmd(1) in auto)
  qed (rule shows_help)
qed

theorem cli_accepts_valid_requests_witness:
  "cli_plan (\<lambda>_. Inr JNull) (\<lambda>_. None) (map q_name [bare_queue ''mail'' :: unit queue]) True
     [''create-job'', ''mail'', ''--priority=-5''] =
   Inr (True, Inr (EnqueueJob ''mail'' None (no_options\<lparr>jo_priority := Some (Number (int_num (-5)))\<rparr>))) \<and>
   is_ok (resolve_enqueue_spec (\<lambda>_. None) (bare_queue ''mail'' :: unit queue)
     (Some (no_options\<lparr>jo_priority := Some (Number (int_num (-5)))\<rparr>)) (int_num 4) False None)"
proof -
  let ?q = "bare_queue ''mail'' :: unit queue"
  let ?opts = "no_options\<lparr>jo_priority := Some (Number (int_num (-5)))\<rparr>"
  have plan: "cli_plan (\<lambda>_. Inr JNull) (\<lambda>_. None) (map q_name [?q]) True [''create-job'', ''mail'', ''--priority=-5''] =
      Inr (True, Inr (EnqueueJob ''mail'' None ?opts))"
    by code_simp
  have "is_ok (resolve_enqueue_spec (\<lambda>_. None) ?q None (int_num 4) False None)"
    by code_simp
  then obtain s0 where "resolve_enqueue_spec (\<lambda>_. None) ?q None (int_num 4) False None = Inr s0"
    by (auto simp: is_ok_iff)
  with cli_accepts_valid_requests [OF plan, where default_max = "int_num 4"] plan
  show ?thesis by auto
qed

end
