(* ===== verification/CliRun.thy ===== *)
theory CliRun
  imports Cli Wiring
begin

text \<open>
  What the command line does with its command, \<^verbatim>\<open>src/src/cli.ts\<close>: migrating, the call of the
  worker, the line it prints, and the exit code. The worker is an argument of \<open>createCli\<close>: a
  record of its operations on a world \<open>'w\<close>. The text \<open>JSON.stringify\<close> makes of a value is
  represented by the value and whether it is indented.
\<close>

section \<open>A run\<close>

datatype cli_value =
    QueueList "(queue_definition \<times> json option) list"
  | QueueSchema string queue_type "string option" "json option"
  | JobId "string option"
  | JobStats "stats_row list"
  | JobList "listed_job list"
  | JobDetail job_state
  | Retried "string list"
  | FailedJobs "string list"
  | Finished
  | ErrorValue string

datatype cli_line = HelpText | PrintedValue bool cli_value | ErrorLine string

record 'w cli_worker =
  cw_queues :: "string list"
  cw_definitions :: "queue_definition list"
  cw_migrate :: "'w \<Rightarrow> unit res \<times> 'w"
  cw_create_job :: "string \<Rightarrow> json option \<Rightarrow> job_options \<Rightarrow> 'w \<Rightarrow> nat option res \<times> 'w"
  cw_job_stats :: "'w \<Rightarrow> stats_row list res \<times> 'w"
  cw_list_jobs :: "list_options \<Rightarrow> 'w \<Rightarrow> listed_job list res \<times> 'w"
  cw_get_job :: "string \<Rightarrow> 'w \<Rightarrow> job_state res \<times> 'w"
  cw_retry_jobs :: "string list \<Rightarrow> 'w \<Rightarrow> string list res \<times> 'w"
  cw_fail_jobs :: "string list \<Rightarrow> string option \<Rightarrow> 'w \<Rightarrow> string list res \<times> 'w"
  cw_run_once :: "'w \<Rightarrow> unit res \<times> 'w"

definition then_print :: "('a \<Rightarrow> cli_value) \<Rightarrow> 'a res \<times> 'w \<Rightarrow> cli_value option res \<times> 'w" where
  "then_print f rw = (bind_res (fst rw) (\<lambda>v. Inr (Some (f v))), snd rw)"

text \<open>The schemas of the registry as JSON schemas; \<open>to_schema\<close> is the schema library's and may throw.\<close>

definition input_schema_json :: "(schema \<Rightarrow> json res) \<Rightarrow> queue_definition \<Rightarrow> json option res" where
  "input_schema_json to_schema q =
     (case qd_input_schema q of None \<Rightarrow> Inr None | Some s \<Rightarrow> bind_res (to_schema s) (\<lambda>j. Inr (Some j)))"

definition list_queues :: "(schema \<Rightarrow> json res) \<Rightarrow> queue_definition list \<Rightarrow> cli_value option res" where
  "list_queues to_schema qs =
     bind_res (map_res (\<lambda>q. bind_res (input_schema_json to_schema q) (\<lambda>j. Inr (q, j))) qs) (\<lambda>rows.
     Inr (Some (QueueList rows)))"

definition show_schema :: "(schema \<Rightarrow> json res) \<Rightarrow> queue_definition list \<Rightarrow> string \<Rightarrow> cli_value option res" where
  "show_schema to_schema qs name =
     (case find_row (\<lambda>q. qd_name q = name) qs of
        None \<Rightarrow> Inl (plain_error (''Queue '' @ quoted name @ '' not found''))
      | Some q \<Rightarrow> bind_res (input_schema_json to_schema q) (\<lambda>j.
          Inr (Some (QueueSchema name (qd_type q) (qd_cron q) j))))"

text \<open>The command; nothing printed is the help.\<close>

definition cli_perform ::
  "(schema \<Rightarrow> json res) \<Rightarrow> 'w cli_worker \<Rightarrow> cli_action \<Rightarrow> 'w \<Rightarrow> cli_value option res \<times> 'w" where
  "cli_perform to_schema wk act w =
     (case act of
        ShowHelp \<Rightarrow> (Inr None, w)
      | ListQueues \<Rightarrow> (list_queues to_schema (cw_definitions wk), w)
      | ShowSchema name \<Rightarrow> (show_schema to_schema (cw_definitions wk) name, w)
      | EnqueueJob name payload opts \<Rightarrow> then_print (JobId \<circ> map_option show_nat) (cw_create_job wk name payload opts w)
      | ShowStats \<Rightarrow> then_print JobStats (cw_job_stats wk w)
      | ListJobs opts \<Rightarrow> then_print JobList (cw_list_jobs wk opts w)
      | ShowJob i \<Rightarrow> then_print JobDetail (cw_get_job wk i w)
      | RetryJob i \<Rightarrow> then_print Retried (cw_retry_jobs wk [i] w)
      | FailJob i reason \<Rightarrow> then_print FailedJobs (cw_fail_jobs wk [i] reason w)
      | RunOnce \<Rightarrow> then_print (\<lambda>_. Finished) (cw_run_once wk w))"

definition error_message_of :: "js_error \<Rightarrow> string" where
  "error_message_of e = (if is_error_object e then err_message e else error_text e)"

text \<open>The \<open>try\<close> block: the arguments, the migration, the command.\<close>

definition cli_execute ::
  "(string \<Rightarrow> json res) \<Rightarrow> (string \<Rightarrow> int option) \<Rightarrow> (schema \<Rightarrow> json res) \<Rightarrow> 'w cli_worker \<Rightarrow> bool \<Rightarrow> string list \<Rightarrow>
   'w \<Rightarrow> cli_value option res \<times> 'w" where
  "cli_execute parse_json parse_date to_schema wk migrating argv w =
     (case cli_plan parse_json parse_date (cw_queues wk) migrating argv of
        Inl e \<Rightarrow> (Inl e, w)
      | Inr (migrates, planned) \<Rightarrow>
          (case (if migrates then cw_migrate wk w else (Inr (), w)) of
             (Inl e, w1) \<Rightarrow> (Inl e, w1)
           | (Inr _, w1) \<Rightarrow> (case planned of Inl e \<Rightarrow> (Inl e, w1) | Inr act \<Rightarrow> cli_perform to_schema wk act w1)))"

text \<open>What a run prints, and whether it sets exit code 1.\<close>

definition cli_report :: "bool \<Rightarrow> cli_value option res \<Rightarrow> cli_line list \<times> bool" where
  "cli_report pretty r =
     (case r of
        Inr None \<Rightarrow> ([HelpText], False)
      | Inr (Some v) \<Rightarrow> ([PrintedValue pretty v], False)
      | Inl e \<Rightarrow> ([if pretty then PrintedValue True (ErrorValue (error_message_of e))
          else ErrorLine (error_message_of e)], True))"

definition cli_run ::
  "(string \<Rightarrow> json res) \<Rightarrow> (string \<Rightarrow> int option) \<Rightarrow> (schema \<Rightarrow> json res) \<Rightarrow> 'w cli_worker \<Rightarrow> bool \<Rightarrow> string list \<Rightarrow>
   'w \<Rightarrow> (cli_line list \<times> bool) \<times> 'w" where
  "cli_run parse_json parse_date to_schema wk migrating argv w =
     (case cli_execute parse_json parse_date to_schema wk migrating argv w of
        (r, w') \<Rightarrow> (cli_report (''--json'' \<in> set argv) r, w'))"

section \<open>On the library's own worker\<close>

text \<open>
  The operations of a worker on the database, as the components model them. The others, Graphile's
  and the migration, are those of \<open>base\<close>. What \<open>JSON.parse\<close> gives is a tree of fresh objects.
\<close>

definition json_input :: "json option \<Rightarrow> jsv" where
  "json_input payload = (case payload of None \<Rightarrow> ([], GUndef) | Some j \<Rightarrow> alloc [] j)"

definition library_worker ::
  "backend \<Rightarrow> 'h settings \<Rightarrow> (string \<Rightarrow> int option) \<Rightarrow> jsnum option \<Rightarrow> jsnum option \<Rightarrow> 'p completed_store \<Rightarrow>
   db cli_worker \<Rightarrow> db cli_worker" where
  "library_worker b st pg_time default_max default_timeout store base = base
     \<lparr>cw_queues := map q_name (cs_queues st),
      cw_definitions := get_queue_definitions (cs_queues st) default_max default_timeout,
      cw_create_job := (\<lambda>name payload opts. create_job b st name (json_input payload) (Some opts)),
      cw_job_stats := (\<lambda>d. (Inr (get_job_stats (cs_queues st) store d), d)),
      cw_list_jobs := (\<lambda>opts d. (query_recent_jobs (cs_parse_date st) pg_time opts d, d)),
      cw_get_job := (\<lambda>i d. (query_job i d d, d))\<rparr>"

fun error_line :: "cli_line \<Rightarrow> bool" where
  "error_line (ErrorLine _) = True"
| "error_line (PrintedValue _ (ErrorValue _)) = True"
| "error_line _ = False"

lemma performed_no_error: "fst (cli_perform to_schema wk act w) = Inr (Some v) \<Longrightarrow> \<not> error_line (PrintedValue pretty v)"
  by (cases act) (auto simp: cli_perform_def then_print_def list_queues_def show_schema_def res_simps split: option.splits)

text \<open>
  A run says once how it went: whatever the arguments, the migration and the worker do, one line is
  printed, and it is an error exactly when the exit code is set; and a run whose arguments are
  rejected has not used the worker.
\<close>

theorem cli_prints_once:
  "case cli_run parse_json parse_date to_schema wk migrating argv w of ((lines, failed), w') \<Rightarrow>
     (\<exists>line. lines = [line] \<and> (failed \<longleftrightarrow> error_line line)) \<and>
     (\<not> is_ok (cli_plan parse_json parse_date (cw_queues wk) migrating argv) \<longrightarrow> failed \<and> w' = w)"
proof -
  let ?plan = "cli_plan parse_json parse_date (cw_queues wk) migrating argv"
  obtain r w' where run: "cli_execute parse_json parse_date to_schema wk migrating argv w = (r, w')"
    by (cases "cli_execute parse_json parse_date to_schema wk migrating argv w")
  have "\<not> error_line (PrintedValue pretty v)" if some: "r = Inr (Some v)" for pretty v
  proof -
    obtain act w1 where "cli_perform to_schema wk act w1 = (Inr (Some v), w')"
      using run [unfolded some] by (auto simp: cli_execute_def split: sum.splits prod.splits if_splits)
    then show ?thesis using performed_no_error [of to_schema wk act w1 v pretty] by simp
  qed
  moreover have "(\<exists>e. r = Inl e) \<and> w' = w" if "\<not> is_ok ?plan"
    using run that by (auto simp: cli_execute_def is_ok_iff split: sum.splits)
  ultimately show ?thesis
    by (auto simp: cli_run_def run cli_report_def split: sum.splits option.splits)
qed

text \<open>
  Looking does not touch: listings and statistics the command line asks for succeed on the library's
  worker once a migration that was asked for did, print the answer of their query, and leave the
  database as the migration left it.
\<close>

theorem cli_reads_succeed:
  assumes "cli_plan parse_json (cs_parse_date st) (map q_name (cs_queues st)) migrating argv = Inr (migrates, Inr act)"
    and "(if migrates then cw_migrate base d else (Inr (), d)) = (Inr (), d1)"
    and "act = ShowStats \<or> act = ListJobs opts"
  shows "\<exists>v. cli_run parse_json (cs_parse_date st) to_schema
      (library_worker b st pg_time default_max default_timeout store base) migrating argv d =
    (([PrintedValue (''--json'' \<in> set argv) v], False), d1) \<and>
    (if act = ShowStats then v = JobStats (get_job_stats (cs_queues st) store d1)
     else \<exists>rows. v = JobList rows \<and> query_recent_jobs (cs_parse_date st) pg_time opts d1 = Inr rows)"
proof -
  let ?wk = "library_worker b st pg_time default_max default_timeout store base"
  have run: "cli_execute parse_json (cs_parse_date st) to_schema ?wk migrating argv d = cli_perform to_schema ?wk act d1"
  proof -
    have wk: "cw_queues ?wk = map q_name (cs_queues st)" "cw_migrate ?wk = cw_migrate base"
      by (simp_all add: library_worker_def)
    show ?thesis by (simp only: cli_execute_def wk assms(1,2) sum.case prod.case)
  qed
  show ?thesis
  proof (cases "act = ShowStats")
    case True
    then show ?thesis
      unfolding cli_run_def run by (simp add: cli_perform_def then_print_def library_worker_def cli_report_def)
  next
    case False
    with assms(3) have act: "act = ListJobs opts" by simp
    then obtain rows where "query_recent_jobs (cs_parse_date st) pg_time opts d1 = Inr rows"
      using cli_accepts_valid_requests [OF assms(1), where parse_date' = "cs_parse_date st" and pg_time = pg_time and d = d1] by (auto simp: is_ok_iff)
    with act show ?thesis
      unfolding cli_run_def run by (simp add: cli_perform_def then_print_def library_worker_def cli_report_def)
  qed
qed

end
