(* ===== verification/StepEvents.thy ===== *)
theory StepEvents
  imports Steps Tracing
begin

text \<open>
  The events a step leaves on the span of its run, \<open>event\<close> and \<open>run\<close> of
  \<^verbatim>\<open>src/src/steps.ts\<close>. The span may be anyone's: each event may fail.
\<close>

definition step_event :: "'o raw_span \<Rightarrow> string \<Rightarrow> string \<Rightarrow> 'o \<Rightarrow> 'o" where
  "step_event raw name sid = safe (raw (AddEvent name (Some [(''step.id'', AStr sid)])))"

text \<open>One call of \<open>run\<close> that shares no execution: its result, the store, the world and the span.\<close>

definition traced_step_run ::
  "('s \<Rightarrow> string \<Rightarrow> step_entry option) \<Rightarrow> (string \<Rightarrow> json option \<Rightarrow> 's \<Rightarrow> unit res \<times> 's) \<Rightarrow>
   'o raw_span \<Rightarrow> js_error option \<Rightarrow> codec option \<Rightarrow> string \<Rightarrow> ('w \<Rightarrow> jsv res \<times> 'w) \<Rightarrow>
   ('s \<times> 'w) \<times> 'o \<Rightarrow> jsv res \<times> ('s \<times> 'w) \<times> 'o" where
  "traced_step_run get put raw inactive codec sid fn swo =
     (let ((s, w), o0) = swo in
      case begin_step inactive sid of
        Inl e \<Rightarrow> (Inl e, (s, w), o0)
      | Inr _ \<Rightarrow>
          (case get s sid of
             Some e \<Rightarrow> (decode_output codec sid (entry_value e), (s, w), step_event raw ''step.cache_hit'' sid o0)
           | None \<Rightarrow>
               (case fn w of
                  (Inl e, w') \<Rightarrow> (Inl e, (s, w'), step_event raw ''step.failed'' sid o0)
                | (Inr v, w') \<Rightarrow>
                    (case encode_output codec sid v of
                       Inl e \<Rightarrow> (Inl e, (s, w'), step_event raw ''step.failed'' sid o0)
                     | Inr out \<Rightarrow>
                         (case put sid out s of
                            (Inl e, s') \<Rightarrow> (Inl e, (s', w'), step_event raw ''step.failed'' sid o0)
                          | (Inr _, s') \<Rightarrow> (decode_output codec sid out, (s', w'),
                              step_event raw ''step.completed'' sid o0))))))"

lemma traced_step_unchanged:
  "\<exists>o'. traced_step_run get put raw inactive codec sid fn (sw, o0) =
     (case step_run get put inactive codec sid fn sw of (r, sw') \<Rightarrow> (r, sw', o'))"
  by (cases sw) (simp add: traced_step_run_def step_run_def split: sum.split option.split prod.split)

text \<open>A span that records what it is told.\<close>

definition recording_span :: "span_op list raw_span" where
  "recording_span op o0 = (Inr (), o0 @ [op])"

text \<open>
  The events tell what became of a step: a call that is let in does what it does without a span and leaves
  exactly one event, a hit when the attempt knew a checkpoint, a completion when the checkpoint
  was written by this call, and a failure when there is none after it.
\<close>

theorem step_events_tell:
  assumes "begin_step inactive sid = Inr ()"
    and "traced_step_run pg_get (pg_put h) recording_span inactive codec sid fn ((s, w), o0) = (r, (s', w'), o')"
  shows "step_run pg_get (pg_put h) inactive codec sid fn (s, w) = (r, s', w') \<and>
    o' = o0 @ [AddEvent (if pg_get s sid \<noteq> None then ''step.cache_hit''
      else if pg_get s' sid \<noteq> None then ''step.completed'' else ''step.failed'') (Some [(''step.id'', AStr sid)])]"
  using assms
  by (auto simp: traced_step_run_def step_run_def step_event_def safe_def recording_span_def pg_get_def pg_put_def
      update_conv' split: sum.splits option.splits prod.splits)

end
