(* ===== verification/Harness.thy ===== *)
theory Harness
  imports Attempts
begin

text \<open>
  The test harness, \<^verbatim>\<open>src/src/testing.ts\<close>: handlers run in memory, enqueues are captured,
  steps and progress are kept per job, and waited children run inline. A handler is a tree of what
  it asks of its context, each request with what follows its answer; it awaits every request
  before the next one. Progress is stored when it is flushed or the run ends; the code may store it
  earlier, which only another run of the same job could tell. The theory TestContext adds the extras
  other than the job id.
\<close>

section \<open>State\<close>

text \<open>
  Steps are cached per queue and job, as is progress; a progress write cannot fail here. A
  captured enqueue is its id, the clean payload and the spec.
\<close>

type_synonym step_caches = "((string \<times> string) \<times> (string \<times> step_entry) list) list"

record captured =
  cp_id :: string
  cp_payload :: "json option"
  cp_spec :: job_spec

record world =
  wo_logs :: "(string \<times> string) list"
  wo_enqueued :: "captured list"
  wo_continued :: "(string \<times> string \<times> int option) list"
  wo_progress :: "((string \<times> string) \<times> json option) list"
  wo_invocation :: nat

type_synonym harness = "step_caches \<times> world"

section \<open>Handlers\<close>

text \<open>A wait names the contract it was given, and whether it is one of the harness's own.\<close>

datatype request =
    WriteLog string string
  | CreateJob string jsv "job_options option"
  | CreateJobs string "jsv list" "job_options option"
  | RunStep string "codec option" "world \<Rightarrow> jsv res \<times> world"
  | TriggerAndWait string "unit queue" bool "jsv list" bool "jsnum option"
  | SetProgress jsv
  | FlushProgress
  | GetProgress
  | ContinueJob "date_arg option"

datatype answer =
    Settled "unit res"
  | EnqueuedId "string option res"
  | EnqueuedIds "string option list res"
  | StepValue "jsv res"
  | WaitResults "wait_result list res"
  | ProgressValue "json option"

datatype handler = Return "jsv res" | Perform request "answer \<Rightarrow> handler"

record harness_settings =
  hn_settings :: "(jsv option \<Rightarrow> handler) settings"
  hn_queues :: "(jsv option \<Rightarrow> handler) normalized list"
  hn_zod_message :: "issue list \<Rightarrow> string"

definition producer_settings ::
  "(string \<Rightarrow> int option) \<Rightarrow> (jsv option \<Rightarrow> handler) queue list \<Rightarrow> (jsv option \<Rightarrow> handler) settings" where
  "producer_settings parse_date queues = \<lparr>cs_queues = queues, cs_default_max = Num 4,
     cs_schema = ''graphile_worker'', cs_payload_mode = Strict, cs_validate = None, cs_tx_mode = None,
     cs_skip = False, cs_active = Inr None, cs_parse_date = parse_date\<rparr>"

definition new_harness :: harness where
  "new_harness = ([], \<lparr>wo_logs = [], wo_enqueued = [], wo_continued = [], wo_progress = [], wo_invocation = 0\<rparr>)"

definition create_harness ::
  "(string \<Rightarrow> int option) \<Rightarrow> (issue list \<Rightarrow> string) \<Rightarrow> (jsv option \<Rightarrow> handler) queue list \<Rightarrow>
   (jsv option \<Rightarrow> handler) handlers_arg option \<Rightarrow> (harness_settings \<times> harness) res" where
  "create_harness parse_date zod_message contracts handlers =
     bind_res (normalize_worker_queues contracts handlers) (\<lambda>queues.
     bind_res (bind_create_job (producer_settings parse_date contracts)) (\<lambda>_.
     Inr (\<lparr>hn_settings = producer_settings parse_date contracts, hn_queues = queues,
            hn_zod_message = zod_message\<rparr>, new_harness)))"

section \<open>Capturing enqueues\<close>

definition capture_job :: "job_spec \<Rightarrow> world \<Rightarrow> string res \<times> world" where
  "capture_job spec w =
     (let i = ''child-'' @ show_nat (length (wo_enqueued w) + 1) in
      case extract_producer_link (js_payload spec) of
        Inl e \<Rightarrow> (Inl e, w)
      | Inr (_, clean) \<Rightarrow>
          (Inr i, w\<lparr>wo_enqueued := wo_enqueued w @ [\<lparr>cp_id = i, cp_payload = clean, cp_spec = spec\<rparr>]\<rparr>))"

fun capture_jobs :: "job_spec list \<Rightarrow> world \<Rightarrow> string list res \<times> world" where
  "capture_jobs [] w = (Inr [], w)"
| "capture_jobs (spec # specs) w =
     (case capture_job spec w of
        (Inl e, w') \<Rightarrow> (Inl e, w')
      | (Inr i, w') \<Rightarrow>
          (case capture_jobs specs w' of
             (Inl e, w'') \<Rightarrow> (Inl e, w'')
           | (Inr ids, w'') \<Rightarrow> (Inr (i # ids), w'')))"

text \<open>A key is recorded and never deduplicates.\<close>

definition capture_one :: "'h settings \<Rightarrow> string \<Rightarrow> jsv \<Rightarrow> job_options option \<Rightarrow> world \<Rightarrow> string option res \<times> world" where
  "capture_one st name data opts w =
     (case resolve_one st name data opts False None of
        Inl e \<Rightarrow> (Inl e, w)
      | Inr (task, payload, s) \<Rightarrow>
          (case capture_job (spec_of task (inject_trace_context payload (cs_active st)) s) w of
             (Inl e, w') \<Rightarrow> (Inl e, w')
           | (Inr i, w') \<Rightarrow> (Inr (Some i), w')))"

definition capture_many ::
  "'h settings \<Rightarrow> string \<Rightarrow> jsv list \<Rightarrow> job_options option \<Rightarrow> world \<Rightarrow> string option list res \<times> world" where
  "capture_many st name data opts w =
     (case resolve_many st name data opts of
        Inl e \<Rightarrow> (Inl e, w)
      | Inr (specs, preserve, idempotent) \<Rightarrow>
          let traced = traced_specs st name specs in
          (case capture_jobs (if idempotent then with_batch_key_mode preserve traced else traced) w of
             (Inl e, w') \<Rightarrow> (Inl e, w')
           | (Inr ids, w') \<Rightarrow> (Inr (map Some ids), w')))"

section \<open>The context of a run\<close>

record run_context =
  cx_key :: "string \<times> string"
  cx_schema :: "schema option"
  cx_value :: "json option"
  cx_dirty :: bool
  cx_called :: bool

definition harness_get :: "string \<times> string \<Rightarrow> step_caches \<Rightarrow> string \<Rightarrow> step_entry option" where
  "harness_get key steps sid = memory_get (nullish_else (map_of steps key) []) sid"

definition harness_put ::
  "string \<times> string \<Rightarrow> string \<Rightarrow> json option \<Rightarrow> step_caches \<Rightarrow> unit res \<times> step_caches" where
  "harness_put key sid out steps =
     (case memory_put sid out (nullish_else (map_of steps key) []) of
        (r, cache) \<Rightarrow> (r, AList.update key cache steps))"

text \<open>\<open>createContext\<close>: a job without an id gets the next one.\<close>

definition create_context ::
  "harness_settings \<Rightarrow> string \<Rightarrow> string option \<Rightarrow> harness \<Rightarrow> run_context \<times> harness" where
  "create_context hs queue_name job h =
     (let (steps, w) = h;
          (job_id, w') = (case job of
             Some i \<Rightarrow> (i, w)
           | None \<Rightarrow> (''test-job-'' @ show_nat (wo_invocation w + 1), w\<lparr>wo_invocation := wo_invocation w + 1\<rparr>));
          key = (queue_name, job_id)
      in (\<lparr>cx_key = key,
           cx_schema = Option.bind (find_row (\<lambda>n. q_name (nq_queue n) = queue_name) (hn_queues hs))
             (q_progress_schema \<circ> nq_queue),
           cx_value = Option.bind (map_of (wo_progress w') key) id, cx_dirty = False, cx_called = False\<rparr>,
          if map_of steps key = None then steps @ [(key, [])] else steps, w'))"

text \<open>\<open>progress.set\<close>, and the write of the latest value by \<open>flush\<close> and \<open>close\<close>.\<close>

definition set_progress :: "(issue list \<Rightarrow> string) \<Rightarrow> jsv \<Rightarrow> run_context \<Rightarrow> unit res \<times> run_context" where
  "set_progress zod_message v cx =
     (case bind_res (case cx_schema cx of
             None \<Rightarrow> Inr v
           | Some s \<Rightarrow> (case s v of Inl issues \<Rightarrow> Inl (NamedError ''ZodError'' (zod_message issues)) | Inr x \<Rightarrow> Inr x))
           (\<lambda>x. bind_res (assert_json_value (fst x) (snd x) False) (\<lambda>_. json_snapshot (fst x) (snd x))) of
        Inl e \<Rightarrow> (Inl e, cx)
      | Inr j \<Rightarrow> (Inr (), cx\<lparr>cx_value := j, cx_dirty := True\<rparr>))"

definition write_latest :: "run_context \<Rightarrow> world \<Rightarrow> world" where
  "write_latest cx w =
     (if cx_dirty cx then w\<lparr>wo_progress := AList.update (cx_key cx) (cx_value cx) (wo_progress w)\<rparr> else w)"

definition harness_continue ::
  "(string \<Rightarrow> int option) \<Rightarrow> date_arg option \<Rightarrow> world \<times> run_context \<Rightarrow> js_error \<times> world \<times> run_context" where
  "harness_continue parse_date run_at s =
     (let (w, cx) = s in
      if cx_called cx then (plain_error ''ctx.continue() was already called'', w, cx)
      else let cx' = cx\<lparr>cx_called := True\<rparr> in
        (case parse_continue_run_at parse_date run_at of
           Inl e \<Rightarrow> (e, w, cx')
         | Inr t \<Rightarrow> (JobContinuedSignal,
             w\<lparr>wo_continued := wo_continued w @ [(fst (cx_key cx), snd (cx_key cx), t)]\<rparr>, cx')))"

section \<open>Running a handler\<close>

text \<open>
  What a wait asks of the backend: the contract, whether it is known, the inputs and whether they
  are a batch. None is a run that has not ended yet.
\<close>

type_synonym wait_backend =
  "unit queue \<Rightarrow> bool \<Rightarrow> jsv list \<Rightarrow> bool \<Rightarrow> harness \<Rightarrow> (json res \<times> harness) option"

text \<open>A wait up to its backend, and what follows the backend's answer, which is not persisted.\<close>

definition wait_begins ::
  "string \<times> string \<Rightarrow> string \<Rightarrow> unit queue \<Rightarrow> jsv list \<Rightarrow> jsnum option \<Rightarrow> step_caches \<Rightarrow>
   wait_result list res option" where
  "wait_begins key sid q inputs timeout steps =
     (case bind_res (begin_step None sid) (\<lambda>_. check_wait_timeout timeout) of
        Inl e \<Rightarrow> Some (Inl e)
      | Inr _ \<Rightarrow>
          (case harness_get key steps sid of
             Some e \<Rightarrow> Some (decode_wait_checkpoint sid q
                 (case e of StepVoid \<Rightarrow> Some JNull | StepOutput j \<Rightarrow> Some j))
           | None \<Rightarrow> if inputs = [] then Some (Inr []) else None))"

definition wait_ends ::
  "string \<times> string \<Rightarrow> string \<Rightarrow> unit queue \<Rightarrow> json res \<Rightarrow> step_caches \<Rightarrow> wait_result list res \<times> step_caches" where
  "wait_ends key sid q r steps =
     (case r of
        Inl e \<Rightarrow> (Inl e, steps)
      | Inr checkpoint \<Rightarrow>
          (case harness_put key sid (Some checkpoint) steps of
             (Inl e, steps') \<Rightarrow> (Inl e, steps')
           | (Inr _, steps') \<Rightarrow> (decode_wait_checkpoint sid q (Some checkpoint), steps')))"

fun perform ::
  "harness_settings \<Rightarrow> wait_backend \<Rightarrow> request \<Rightarrow> harness \<times> run_context \<Rightarrow> (answer \<times> harness \<times> run_context) option" where
  "perform hs bk (WriteLog level message) ((steps, w), cx) =
     Some (Settled (Inr ()), (steps, w\<lparr>wo_logs := wo_logs w @ [(level, message)]\<rparr>), cx)"
| "perform hs bk (CreateJob name data opts) ((steps, w), cx) =
     (case capture_one (hn_settings hs) name data opts w of (r, w') \<Rightarrow> Some (EnqueuedId r, (steps, w'), cx))"
| "perform hs bk (CreateJobs name data opts) ((steps, w), cx) =
     (case capture_many (hn_settings hs) name data opts w of (r, w') \<Rightarrow> Some (EnqueuedIds r, (steps, w'), cx))"
| "perform hs bk (RunStep sid codec fn) ((steps, w), cx) =
     (case step_run (harness_get (cx_key cx)) (harness_put (cx_key cx)) None codec sid fn (steps, w) of
        (r, h) \<Rightarrow> Some (StepValue r, h, cx))"
| "perform hs bk (TriggerAndWait sid q known inputs batch timeout) ((steps, w), cx) =
     (case wait_begins (cx_key cx) sid q inputs timeout steps of
        Some r \<Rightarrow> Some (WaitResults r, (steps, w), cx)
      | None \<Rightarrow>
          (case bk q known inputs batch (steps, w) of
             None \<Rightarrow> None
           | Some (r, steps', w') \<Rightarrow>
               (case wait_ends (cx_key cx) sid q r steps' of
                  (out, steps'') \<Rightarrow> Some (WaitResults out, (steps'', w'), cx))))"
| "perform hs bk (SetProgress v) (h, cx) =
     (case set_progress (hn_zod_message hs) v cx of (r, cx') \<Rightarrow> Some (Settled r, h, cx'))"
| "perform hs bk FlushProgress ((steps, w), cx) =
     Some (Settled (Inr ()), (steps, write_latest cx w), cx\<lparr>cx_dirty := False\<rparr>)"
| "perform hs bk GetProgress (h, cx) = Some (ProgressValue (cx_value cx), h, cx)"
| "perform hs bk (ContinueJob run_at) ((steps, w), cx) =
     (case harness_continue (cs_parse_date (hn_settings hs)) run_at (w, cx) of
        (e, w', cx') \<Rightarrow> Some (Settled (Inl e), (steps, w'), cx'))"

primrec run_handler ::
  "harness_settings \<Rightarrow> wait_backend \<Rightarrow> handler \<Rightarrow> harness \<times> run_context \<Rightarrow> (jsv res \<times> harness \<times> run_context) option" where
  "run_handler hs bk (Return r) = (\<lambda>s. Some (r, s))"
| "run_handler hs bk (Perform req k) = (\<lambda>s.
     case perform hs bk req s of None \<Rightarrow> None | Some (a, s') \<Rightarrow> run_handler hs bk (k a) s')"

text \<open>\<open>invoke\<close>: a continuation resolves, and the latest progress is written whatever happened.\<close>

datatype 'a invocation = Resolved 'a | ContinuedRun | Rejected js_error

definition invoke_run ::
  "harness_settings \<Rightarrow> string \<Rightarrow> string option \<Rightarrow>
   (harness \<times> run_context \<Rightarrow> ('a res \<times> harness \<times> run_context) option) \<Rightarrow> harness \<Rightarrow>
   ('a invocation \<times> harness) option" where
  "invoke_run hs queue_name job body h =
     (let (cx, h') = create_context hs queue_name job h in
      case body (h', cx) of
        None \<Rightarrow> None
      | Some (r, (steps, w), cx') \<Rightarrow>
          Some (case r of
                  Inr v \<Rightarrow> Resolved v
                | Inl e \<Rightarrow> if e = JobContinuedSignal then ContinuedRun else Rejected e,
                steps, write_latest cx' w))"

text \<open>The payload is validated as it was given, not as JSON would carry it.\<close>

definition parse_given :: "'h queue \<Rightarrow> jsv \<Rightarrow> jsv option res" where
  "parse_given q v =
     (case q_input_schema q of
        None \<Rightarrow> Inr None
      | Some s \<Rightarrow> (case s v of
            Inl issues \<Rightarrow> Inl (JobValidationError (q_name q) (map (at_index None) issues) PayloadSubject)
          | Inr x \<Rightarrow> Inr (Some x)))"

definition run_process ::
  "harness_settings \<Rightarrow> wait_backend \<Rightarrow> (jsv option \<Rightarrow> handler) normalized \<Rightarrow> jsv \<Rightarrow>
   harness \<times> run_context \<Rightarrow> (json option res \<times> harness \<times> run_context) option" where
  "run_process hs bk n payload s =
     (case parse_given (nq_queue n) payload of
        Inl e \<Rightarrow> Some (Inl e, s)
      | Inr input \<Rightarrow>
          (case run_handler hs bk (nq_process n input) s of
             None \<Rightarrow> None
           | Some (r, s') \<Rightarrow> Some (bind_res r (encode_queue_output (nq_queue n)), s')))"

section \<open>Waited children\<close>

text \<open>
  The children of a wait are enqueued, then run one after the other, each once; a thrown error is
  a child's final failure, a continuation fails the wait.
\<close>

definition start_children ::
  "harness_settings \<Rightarrow> string \<Rightarrow> jsv list \<Rightarrow> bool \<Rightarrow> world \<Rightarrow> string list res \<times> world" where
  "start_children hs name inputs batch w =
     (if batch
      then (case capture_many (hn_settings hs) name inputs None w of
              (Inl e, w') \<Rightarrow> (Inl e, w')
            | (Inr ids, w') \<Rightarrow> (Inr (List.map_filter id ids), w'))
      else (case capture_one (hn_settings hs) name (hd inputs) None w of
              (Inl e, w') \<Rightarrow> (Inl e, w')
            | (Inr i, w') \<Rightarrow> (Inr (case i of None \<Rightarrow> [] | Some x \<Rightarrow> [x]), w')))"

definition harness_queue :: "harness_settings \<Rightarrow> string \<Rightarrow> (jsv option \<Rightarrow> handler) normalized res" where
  "harness_queue hs name =
     (case find_row (\<lambda>n. q_name (nq_queue n) = name) (hn_queues hs) of
        None \<Rightarrow> Inl (plain_error (''Unknown queue '' @ quoted name))
      | Some n \<Rightarrow> Inr n)"

fun child_failure :: "js_error \<Rightarrow> child_report" where
  "child_failure e = (if is_error_object e then ReportFailed (err_name e) (err_message e)
     else ReportFailed ''Error'' (err_message e))"

definition continued_child :: "string \<Rightarrow> string \<Rightarrow> js_error" where
  "continued_child i name = plain_error (''Child '' @ i @ '' of '' @ quoted name @
     '' called ctx.continue(); the test harness runs waited children once'')"

fun run_children ::
  "(string \<Rightarrow> jsv \<Rightarrow> harness \<Rightarrow> (json option invocation \<times> harness) option) \<Rightarrow> string \<Rightarrow>
   (string \<times> jsv) list \<Rightarrow> harness \<Rightarrow> ((string \<times> child_report) list res \<times> harness) option" where
  "run_children run name [] h = Some (Inr [], h)"
| "run_children run name ((i, input) # children) h =
     (case run i input h of
        None \<Rightarrow> None
      | Some (ContinuedRun, h') \<Rightarrow> Some (Inl (continued_child i name), h')
      | Some (Resolved out, h') \<Rightarrow>
          (case run_children run name children h' of
             None \<Rightarrow> None
           | Some (r, h'') \<Rightarrow> Some (map_sum id (Cons (i, ReportOk out)) r, h''))
      | Some (Rejected e, h') \<Rightarrow>
          (case run_children run name children h' of
             None \<Rightarrow> None
           | Some (r, h'') \<Rightarrow> Some (map_sum id (Cons (i, child_failure e)) r, h'')))"

definition child_checkpoint :: "(string \<times> child_report) list \<Rightarrow> json" where
  "child_checkpoint reports = JArr (map (\<lambda>(i, rep). JObj ((''id'', JStr i) # report_fields rep)) reports)"

text \<open>\<open>depth\<close> bounds how deep waits may nest: children wait for children of their own.\<close>

fun inline_wait :: "harness_settings \<Rightarrow> nat \<Rightarrow> wait_backend" where
  "inline_wait hs 0 = (\<lambda>q known inputs batch h. None)"
| "inline_wait hs (Suc depth) = (\<lambda>q known inputs batch (steps, w).
     if \<not> known
     then Some (Inl (UnknownQueueError (q_name q) (map q_name (cs_queues (hn_settings hs)))), steps, w)
     else
       (case start_children hs (q_name q) inputs batch w of
          (Inl e, w') \<Rightarrow> Some (Inl e, steps, w')
        | (Inr ids, w') \<Rightarrow>
            (case harness_queue hs (q_name q) of
               Inl e \<Rightarrow> Some (Inl e, steps, w')
             | Inr n \<Rightarrow>
                 (case run_children (\<lambda>i input. invoke_run hs (q_name q) (Some i)
                          (run_process hs (inline_wait hs depth) n input)) (q_name q) (zip ids inputs) (steps, w') of
                    None \<Rightarrow> None
                  | Some (r, h) \<Rightarrow> Some (map_sum id child_checkpoint r, h)))))"

section \<open>The harness's operations\<close>

text \<open>\<open>process\<close> and \<open>init\<close>; a continued run resolves as well.\<close>

definition harness_process ::
  "harness_settings \<Rightarrow> nat \<Rightarrow> string \<Rightarrow> jsv \<Rightarrow> string option \<Rightarrow> harness \<Rightarrow> (unit res \<times> harness) option" where
  "harness_process hs depth name payload job h =
     (case harness_queue hs name of
        Inl e \<Rightarrow> Some (Inl e, h)
      | Inr n \<Rightarrow>
          (case invoke_run hs name job (run_process hs (inline_wait hs depth) n payload) h of
             None \<Rightarrow> None
           | Some (r, h') \<Rightarrow> Some (case r of Rejected e \<Rightarrow> Inl e | _ \<Rightarrow> Inr (), h')))"

definition harness_init ::
  "harness_settings \<Rightarrow> nat \<Rightarrow> string \<Rightarrow> string option \<Rightarrow> harness \<Rightarrow> (jsv option res \<times> harness) option" where
  "harness_init hs depth name job h =
     (case harness_queue hs name of
        Inl e \<Rightarrow> Some (Inl e, h)
      | Inr n \<Rightarrow>
          (case nq_init n of
             None \<Rightarrow> Some (Inl (plain_error (''Queue '' @ quoted name @ '' is not a cron-init queue'')), h)
           | Some f \<Rightarrow>
               (case invoke_run hs (name @ cron_init_suffix) job
                    (run_handler hs (inline_wait hs depth) (f None)) h of
                  None \<Rightarrow> None
                | Some (r, h') \<Rightarrow> Some (case r of
                      Rejected e \<Rightarrow> Inl e | ContinuedRun \<Rightarrow> Inr None | Resolved v \<Rightarrow> Inr (Some v), h'))))"

definition clear_logs :: "harness \<Rightarrow> harness" where
  "clear_logs h = (fst h, (snd h)\<lparr>wo_logs := []\<rparr>)"

section \<open>Steps are kept\<close>

lemma harness_put_get:
  "harness_get k (snd (harness_put key sid out steps)) = (if k = key
     then (harness_get key steps)(sid \<mapsto> entry_of_output out) else harness_get k steps)"
  by (auto simp: harness_get_def harness_put_def memory_put_def memory_get_def update_conv' fun_eq_iff)

lemma harness_put_ok: "fst (harness_put key sid out steps) = Inr ()"
  by (simp add: harness_put_def memory_put_def)

text \<open>The store of a job's steps is a step store, whatever the other jobs do.\<close>

interpretation job_steps: step_store "\<lambda>_. True" "harness_get key" "harness_put key" for key
proof
  show "harness_get key s' = (harness_get key s)(sid \<mapsto> entry_of_output out) \<and> True"
    if "harness_put key sid out s = (Inr u, s')" for sid out s u s'
    using harness_put_get [of key key sid out s] that by simp
  show "harness_get key s' = harness_get key s \<and> True"
    if "harness_put key sid out s = (Inl e, s')" for sid out s e s'
    using harness_put_ok [of key sid out s] that by simp
qed

text \<open>
  Children are numbered apart from other jobs: a job whose id is not a child's keeps its steps to
  its own runs.
\<close>

definition child_id :: "string \<Rightarrow> bool" where
  "child_id i \<longleftrightarrow> take 6 i = ''child-''"

lemma capture_job_id: "capture_job spec w = (Inr i, w') \<Longrightarrow> child_id i"
  by (auto simp: capture_job_def child_id_def Let_def split: sum.splits prod.splits)

lemma capture_jobs_ids: "capture_jobs specs w = (Inr ids, w') \<Longrightarrow> list_all child_id ids"
  by (induction specs arbitrary: w ids)
     (auto split: sum.splits prod.splits dest: capture_job_id)

lemma capture_one_id: "capture_one st name data opts w = (Inr (Some i), w') \<Longrightarrow> child_id i"
  by (auto simp: capture_one_def split: sum.splits prod.splits dest: capture_job_id)

lemma capture_many_ids:
  "capture_many st name data opts w = (Inr ids, w') \<Longrightarrow> \<exists>is. ids = map Some is \<and> list_all child_id is"
  by (auto simp: capture_many_def Let_def split: sum.splits prod.splits dest: capture_jobs_ids)

lemma start_children_ids:
  assumes "start_children hs name inputs batch w = (Inr ids, w')"
  shows "list_all child_id ids"
proof -
  have some: "List.map_filter id (map Some is) = is" for "is" :: "string list"
    by (induction "is") (simp_all add: map_filter_simps)
  show ?thesis
    using assms
    by (auto simp: start_children_def some split: if_splits sum.splits prod.splits option.splits
        dest!: capture_one_id capture_many_ids)
qed

text \<open>What a piece of a run does to the steps of the job \<open>key\<close>.\<close>

definition same_steps :: "string \<times> string \<Rightarrow> harness \<Rightarrow> harness \<Rightarrow> bool" where
  "same_steps key h h' \<longleftrightarrow> harness_get key (fst h') = harness_get key (fst h)"

definition keeps_steps :: "string \<times> string \<Rightarrow> harness \<Rightarrow> harness \<Rightarrow> bool" where
  "keeps_steps key h h' \<longleftrightarrow> (\<forall>sid e. harness_get key (fst h) sid = Some e \<longrightarrow> harness_get key (fst h') sid = Some e)"

lemma same_steps_trans: "same_steps key a b \<Longrightarrow> same_steps key b c \<Longrightarrow> same_steps key a c"
  and keeps_steps_trans: "keeps_steps key a b \<Longrightarrow> keeps_steps key b c \<Longrightarrow> keeps_steps key a c"
  and same_keeps: "same_steps key a b \<Longrightarrow> keeps_steps key a b"
  by (simp_all add: same_steps_def keeps_steps_def)

lemma same_steps_world [simp]: "same_steps key (steps, w) (steps, w')"
  and keeps_steps_world [simp]: "keeps_steps key (steps, w) (steps, w')"
  by (simp_all add: same_steps_def keeps_steps_def)

definition run_effect :: "string \<times> string \<Rightarrow> harness \<times> run_context \<Rightarrow> harness \<times> run_context \<Rightarrow> bool" where
  "run_effect key s s' \<longleftrightarrow> cx_key (snd s') = cx_key (snd s) \<and>
     (cx_key (snd s) \<noteq> key \<longrightarrow> same_steps key (fst s) (fst s')) \<and> keeps_steps key (fst s) (fst s')"

lemma run_effect_trans: "run_effect key s s' \<Longrightarrow> run_effect key s' s'' \<Longrightarrow> run_effect key s s''"
  by (auto simp: run_effect_def intro: same_steps_trans keeps_steps_trans)

lemma run_effect_refl: "run_effect key s s"
  by (simp add: run_effect_def same_steps_def keeps_steps_def)

lemma run_effect_world:
  "cx_key cx' = cx_key cx \<Longrightarrow> run_effect key ((steps, w), cx) ((steps, w'), cx')"
  by (simp add: run_effect_def)

lemma put_other: "k \<noteq> key \<Longrightarrow> harness_get key (snd (harness_put k sid out steps)) = harness_get key steps"
  by (simp add: harness_put_get)

lemma step_run_others:
  assumes "step_run (harness_get k) (harness_put k) inactive codec sid fn (s, w) = (res, s', w')" "k \<noteq> key"
  shows "harness_get key s' = harness_get key s"
  using assms(1)
proof (cases rule: step_run_cases)
  case (unstored v out e)
  with put_other [OF assms(2), of sid out s] show ?thesis by simp
next
  case (stored v out)
  with put_other [OF assms(2), of sid out s] show ?thesis by simp
qed simp_all

definition leaves_steps :: "string \<times> string \<Rightarrow> wait_backend \<Rightarrow> bool" where
  "leaves_steps key bk \<longleftrightarrow> (\<forall>q known inputs batch h r h'.
     bk q known inputs batch h = Some (r, h') \<longrightarrow> same_steps key h h')"

lemma wait_ends_effect:
  assumes "wait_ends k sid q r steps = (out, steps')" "k = key \<longrightarrow> harness_get key steps sid = None"
  shows "(k \<noteq> key \<longrightarrow> same_steps key (steps, w) (steps', w')) \<and> keeps_steps key (steps, w) (steps', w')"
proof (cases r)
  case (Inl e)
  with assms show ?thesis by (simp add: wait_ends_def)
next
  case (Inr j)
  have "steps' = snd (harness_put k sid (Some j) steps)"
    using assms(1) Inr harness_put_ok [of k sid "Some j" steps]
    by (auto simp: wait_ends_def split: prod.splits sum.splits)
  then show ?thesis
    using assms(2) harness_put_get [of key k sid "Some j" steps]
    by (auto simp: same_steps_def keeps_steps_def)
qed

lemma perform_effect:
  assumes "perform hs bk req s = Some (a, s')" "leaves_steps key bk"
  shows "run_effect key s s'"
proof -
  obtain steps w cx where s: "s = ((steps, w), cx)" by (cases s) auto
  show ?thesis
  proof (cases req)
    case (RunStep sid codec fn)
    obtain r steps' w' where run:
      "step_run (harness_get (cx_key cx)) (harness_put (cx_key cx)) None codec sid fn (steps, w) = (r, steps', w')"
      by (cases "step_run (harness_get (cx_key cx)) (harness_put (cx_key cx)) None codec sid fn (steps, w)") auto
    then have "s' = ((steps', w'), cx)" using assms(1) by (simp add: s RunStep)
    then show ?thesis
      using step_run_others [OF run, of key] job_steps.run_keeps_others [OF TrueI run]
      by (cases "cx_key cx = key") (auto simp: s run_effect_def same_steps_def keeps_steps_def)
  next
    case (TriggerAndWait sid q known inputs batch timeout)
    show ?thesis
    proof (cases "wait_begins (cx_key cx) sid q inputs timeout steps")
      case None
      then have free: "harness_get (cx_key cx) steps sid = None"
        by (auto simp: wait_begins_def split: sum.splits option.splits if_splits)
      obtain r steps1 w1 where bk: "bk q known inputs batch (steps, w) = Some (r, steps1, w1)"
        using assms(1) None by (auto simp: s TriggerAndWait split: option.splits)
      obtain out steps2 where e: "wait_ends (cx_key cx) sid q r steps1 = (out, steps2)"
        by (cases "wait_ends (cx_key cx) sid q r steps1")
      have s': "s' = ((steps2, w1), cx)" using assms(1) None bk e by (simp add: s TriggerAndWait)
      have same: "same_steps key (steps, w) (steps1, w1)"
        using assms(2) bk unfolding leaves_steps_def by blast
      then have "cx_key cx = key \<longrightarrow> harness_get key steps1 sid = None"
        using free by (auto simp: same_steps_def)
      from wait_ends_effect [OF e this, of w1 w1] same show ?thesis
        unfolding run_effect_def s s' by (auto intro: same_steps_trans keeps_steps_trans same_keeps)
    qed (use assms(1) in \<open>simp add: s TriggerAndWait run_effect_refl\<close>)
  qed (use assms(1) in \<open>auto simp: s set_progress_def harness_continue_def Let_def run_effect_world
        split: prod.splits sum.splits if_splits\<close>)
qed

lemma run_handler_effect:
  assumes "leaves_steps key bk"
  shows "run_handler hs bk p s = Some (r, s') \<Longrightarrow> run_effect key s s'"
proof (induction p arbitrary: s)
  case (Perform req k)
  then obtain a s1 where "perform hs bk req s = Some (a, s1)" "run_handler hs bk (k a) s1 = Some (r, s')"
    by (auto split: option.splits)
  with Perform.IH perform_effect [OF _ assms] show ?case
    by (metis rangeI run_effect_trans)
qed (simp add: run_effect_refl)

lemma create_context_steps:
  assumes "create_context hs name job h = (cx, h')"
  shows "same_steps key h h' \<and> fst (cx_key cx) = name \<and> (\<forall>i. job = Some i \<longrightarrow> snd (cx_key cx) = i)"
proof -
  have "harness_get key (steps @ [(k, [])]) = harness_get key steps" if "map_of steps k = None" for steps k
    using that by (auto simp: harness_get_def map_add_def memory_get_def fun_eq_iff split: option.split)
  with assms show ?thesis
    by (cases h; cases job) (auto simp: create_context_def same_steps_def Let_def split: if_splits)
qed

lemma invoke_run_effect:
  assumes "invoke_run hs name job body h = Some (r, h')"
    and "\<And>s x s'. body s = Some (x, s') \<Longrightarrow> run_effect key s s'"
  shows "keeps_steps key h h' \<and> (\<forall>i. job = Some i \<and> i \<noteq> snd key \<longrightarrow> same_steps key h h')"
proof -
  obtain cx h1 where c: "create_context hs name job h = (cx, h1)" by (cases "create_context hs name job h")
  obtain x steps w cx' where b: "body (h1, cx) = Some (x, (steps, w), cx')" and h': "fst h' = steps"
    using assms(1) c by (auto simp: invoke_run_def split: option.splits)
  from assms(2) [OF b] have "keeps_steps key h1 h'" "cx_key cx \<noteq> key \<longrightarrow> same_steps key h1 h'"
    using h' by (simp_all add: run_effect_def same_steps_def keeps_steps_def)
  with create_context_steps [OF c, of key] show ?thesis
    by (auto intro: same_steps_trans keeps_steps_trans same_keeps)
qed

lemma run_process_effect:
  assumes "leaves_steps key bk" "run_process hs bk n payload s = Some (r, s')"
  shows "run_effect key s s'"
  using assms run_handler_effect [OF assms(1)]
  by (auto simp: run_process_def run_effect_refl split: sum.splits option.splits prod.splits)

lemma run_children_same:
  assumes "\<And>i input h r h'. child_id i \<Longrightarrow> run i input h = Some (r, h') \<Longrightarrow> same_steps key h h'"
  shows "run_children run name cs h = Some (r, h') \<Longrightarrow> list_all (child_id \<circ> fst) cs \<Longrightarrow> same_steps key h h'"
proof (induction cs arbitrary: h r)
  case (Cons c cs)
  obtain i input where c: "c = (i, input)" by (cases c)
  obtain x h1 where x: "run i input h = Some (x, h1)"
    using Cons.prems(1) by (auto simp: c split: option.splits)
  have "child_id i" using Cons.prems(2) by (simp add: c)
  then have "same_steps key h h1" using x by (rule assms)
  moreover have "same_steps key h1 h'"
  proof (cases "x = ContinuedRun")
    case True
    with Cons.prems(1) x show ?thesis by (simp add: c same_steps_def)
  next
    case False
    then obtain r1 where "run_children run name cs h1 = Some (r1, h')"
      using Cons.prems(1) x by (auto simp: c split: invocation.splits option.splits)
    with Cons show ?thesis by simp
  qed
  ultimately show ?case by (rule same_steps_trans)
qed (simp add: same_steps_def)

lemma inline_wait_leaves:
  assumes "\<not> child_id (snd key)"
  shows "leaves_steps key (inline_wait hs depth)"
proof (induction depth)
  case (Suc depth)
  show ?case
    unfolding leaves_steps_def
  proof (intro allI impI)
    fix q known inputs batch h r h'
    assume r: "inline_wait hs (Suc depth) q known inputs batch h = Some (r, h')"
    obtain steps w where h: "h = (steps, w)" by (cases h)
    show "same_steps key h h'"
    proof (cases "\<exists>ids w1 n. known \<and> start_children hs (q_name q) inputs batch w = (Inr ids, w1) \<and>
        harness_queue hs (q_name q) = Inr n")
      case True
      then obtain ids w1 n where known: "known" "start_children hs (q_name q) inputs batch w = (Inr ids, w1)"
          "harness_queue hs (q_name q) = Inr n" by blast
      let ?run = "\<lambda>i input. invoke_run hs (q_name q) (Some i) (run_process hs (inline_wait hs depth) n input)"
      obtain x h2 where ran: "run_children ?run (q_name q) (zip ids inputs) (steps, w1) = Some (x, h2)"
          and "h' = h2"
        using r known by (auto simp: h split: option.splits)
      have ids: "list_all (child_id \<circ> fst) (zip ids inputs)"
        using start_children_ids [OF known(2)] by (auto simp: list_all_iff dest: set_zip_leftD)
      have "same_steps key g g'" if "child_id i" "?run i input g = Some (y, g')" for i input g y g'
        using invoke_run_effect [OF that(2), of key] run_process_effect [OF Suc.IH] that(1) assms by blast
      from run_children_same [of ?run, OF this ran ids] show ?thesis
        by (simp add: h same_steps_def \<open>h' = h2\<close>)
    qed (use r in \<open>auto simp: h same_steps_def split: if_splits sum.splits prod.splits\<close>)
  qed
qed (simp add: leaves_steps_def)

text \<open>What a test does with its harness.\<close>

inductive harness_step :: "harness_settings \<Rightarrow> harness \<Rightarrow> harness \<Rightarrow> bool" for hs where
  process: "harness_process hs depth name payload job h = Some (r, h') \<Longrightarrow> harness_step hs h h'"
| init: "harness_init hs depth name job h = Some (r, h') \<Longrightarrow> harness_step hs h h'"
| cleared: "harness_step hs h (clear_logs h)"
| opened: "create_context hs name job h = (cx, h') \<Longrightarrow> harness_step hs h h'"

lemma harness_step_keeps:
  assumes "harness_step hs h h'" "\<not> child_id (snd key)"
  shows "keeps_steps key h h'"
  using assms(1)
proof cases
  case (process depth name payload job r)
  show ?thesis
  proof (cases "harness_queue hs name")
    case (Inr n)
    obtain x where x: "invoke_run hs name job (run_process hs (inline_wait hs depth) n payload) h = Some (x, h')"
      using process Inr by (auto simp: harness_process_def split: option.splits)
    show ?thesis
      using invoke_run_effect [OF x, of key] run_process_effect [OF inline_wait_leaves [OF assms(2)]] by blast
  qed (use process in \<open>simp add: harness_process_def keeps_steps_def\<close>)
next
  case (init depth name job r)
  show ?thesis
  proof (cases "\<exists>n f. harness_queue hs name = Inr n \<and> nq_init n = Some f")
    case True
    then obtain f x where x:
      "invoke_run hs (name @ cron_init_suffix) job (run_handler hs (inline_wait hs depth) (f None)) h = Some (x, h')"
      using init by (auto simp: harness_init_def split: option.splits)
    show ?thesis
      using invoke_run_effect [OF x, of key] run_handler_effect [OF inline_wait_leaves [OF assms(2)]] by blast
  qed (use init in \<open>auto simp: harness_init_def keeps_steps_def split: sum.splits option.splits\<close>)
next
  case cleared
  then show ?thesis by (simp add: clear_logs_def keeps_steps_def)
next
  case (opened name job cx)
  then show ?thesis using create_context_steps same_keeps by blast
qed

text \<open>
  A step that completed is never run again in a test: after a step call of a job returned, whatever
  the test does with the harness, runs of any queue under any job id included, a later call in a
  run of the same job returns the same value and changes nothing, even with another step function.
\<close>

theorem harness_replays_steps:
  assumes "perform hs bk (RunStep sid codec fn) (h, cx) = Some (StepValue (Inr v), h1, cx)"
    and "(harness_step hs)\<^sup>*\<^sup>* h1 h2"
    and "\<not> child_id (snd (cx_key cx))" and "cx_key cx' = cx_key cx"
  shows "perform hs bk' (RunStep sid codec fn') (h2, cx') = Some (StepValue (Inr v), h2, cx')"
proof -
  obtain steps w steps1 w1 steps2 w2 where h: "h = (steps, w)" "h1 = (steps1, w1)" "h2 = (steps2, w2)"
    by (metis surj_pair)
  have run: "step_run (harness_get (cx_key cx)) (harness_put (cx_key cx)) None codec sid fn (steps, w) = (Inr v, steps1, w1)"
    using assms(1) by (auto simp: h split: prod.splits)
  obtain e where e: "sid \<noteq> []" "harness_get (cx_key cx) steps1 sid = Some e"
      "decode_output codec sid (entry_value e) = Inr v"
    using job_steps.run_checkpoints [OF TrueI run] by blast
  have "keeps_steps (cx_key cx) h1 h2"
    using assms(2)
  proof (induction rule: rtranclp_induct)
    case (step a b)
    then show ?case using harness_step_keeps [OF _ assms(3)] keeps_steps_trans by blast
  qed (simp add: keeps_steps_def)
  with e(2) have "harness_get (cx_key cx) steps2 sid = Some e" by (simp add: keeps_steps_def h)
  with e(1,3) show ?thesis by (simp add: h assms(4) step_run_def begin_step_def)
qed

section \<open>Runs end\<close>

text \<open>A handler whose waits all name queues of \<open>P\<close>, whatever it is answered.\<close>

primrec waits_only :: "(string \<Rightarrow> bool) \<Rightarrow> handler \<Rightarrow> bool" where
  "waits_only P (Return r) \<longleftrightarrow> True"
| "waits_only P (Perform req k) \<longleftrightarrow>
     (case req of TriggerAndWait _ q _ _ _ _ \<Rightarrow> P (q_name q) | _ \<Rightarrow> True) \<and> (\<forall>a. waits_only P (k a))"

definition agree :: "(string \<Rightarrow> bool) \<Rightarrow> wait_backend \<Rightarrow> wait_backend \<Rightarrow> bool" where
  "agree P bk bk' \<longleftrightarrow> (\<forall>q known inputs batch h. P (q_name q) \<longrightarrow>
     bk q known inputs batch h \<noteq> None \<and> bk' q known inputs batch h = bk q known inputs batch h)"

definition same_run :: "'a option \<Rightarrow> 'a option \<Rightarrow> bool" where
  "same_run a b \<longleftrightarrow> a \<noteq> None \<and> b = a"

lemma same_runE: "same_run a b \<Longrightarrow> (\<And>x. a = Some x \<Longrightarrow> b = Some x \<Longrightarrow> thesis) \<Longrightarrow> thesis"
  by (auto simp: same_run_def)

lemma perform_agree:
  assumes "agree P bk bk'"
    and "case req of TriggerAndWait _ q _ _ _ _ \<Rightarrow> P (q_name q) | _ \<Rightarrow> True"
  shows "same_run (perform hs bk req s) (perform hs bk' req s)"
proof -
  obtain steps w cx where s: "s = ((steps, w), cx)" by (cases s) auto
  show ?thesis
  proof (cases req)
    case (TriggerAndWait sid q known inputs batch timeout)
    then have "bk q known inputs batch (steps, w) \<noteq> None \<and>
        bk' q known inputs batch (steps, w) = bk q known inputs batch (steps, w)"
      using assms by (simp add: agree_def)
    then show ?thesis
      by (auto simp: s TriggerAndWait same_run_def split: option.split prod.split)
  qed (auto simp: s same_run_def split: prod.split)
qed

lemma run_handler_agree:
  assumes "agree P bk bk'"
  shows "waits_only P p \<Longrightarrow> same_run (run_handler hs bk p s) (run_handler hs bk' p s)"
proof (induction p arbitrary: s)
  case (Perform req k)
  have "same_run (perform hs bk req s) (perform hs bk' req s)"
    using perform_agree [OF assms] Perform.prems by simp
  then obtain a s' where "perform hs bk req s = Some (a, s')" "perform hs bk' req s = Some (a, s')"
    by (metis same_runE surj_pair)
  with Perform show ?case by simp
qed (simp add: same_run_def)

lemma run_process_agree:
  assumes "agree P bk bk'" "\<And>input. waits_only P (nq_process n input)"
  shows "same_run (run_process hs bk n payload s) (run_process hs bk' n payload s)"
proof (cases "parse_given (nq_queue n) payload")
  case (Inr input)
  obtain r s' where "run_handler hs bk (nq_process n input) s = Some (r, s')"
      "run_handler hs bk' (nq_process n input) s = Some (r, s')"
    using run_handler_agree [OF assms, of hs input s] by (metis same_runE surj_pair)
  then show ?thesis by (simp add: run_process_def Inr same_run_def)
qed (simp add: run_process_def same_run_def)

lemma invoke_run_agree:
  assumes "\<And>s. same_run (body s) (body' s)"
  shows "same_run (invoke_run hs name job body h) (invoke_run hs name job body' h)"
proof -
  obtain cx h1 where c: "create_context hs name job h = (cx, h1)" by (cases "create_context hs name job h")
  obtain r steps w cx' where "body (h1, cx) = Some (r, (steps, w), cx')" "body' (h1, cx) = Some (r, (steps, w), cx')"
    using assms [of "(h1, cx)"] by (metis same_runE surj_pair)
  then show ?thesis by (simp add: invoke_run_def c same_run_def)
qed

lemma run_children_agree:
  assumes "\<And>i input h. same_run (run i input h) (run' i input h)"
  shows "same_run (run_children run name cs h) (run_children run' name cs h)"
proof (induction cs arbitrary: h)
  case (Cons c cs)
  obtain i input where c: "c = (i, input)" by (cases c)
  obtain x h1 where "run i input h = Some (x, h1)" "run' i input h = Some (x, h1)"
    using assms by (metis same_runE surj_pair)
  with Cons [of h1] show ?case
    by (cases x) (auto simp: c same_run_def split: option.split)
qed (simp add: same_run_def)

lemma harness_queue_Inr:
  "harness_queue hs name = Inr n \<Longrightarrow> n \<in> set (hn_queues hs) \<and> q_name (nq_queue n) = name"
  using find_row_Some [of "\<lambda>n. q_name (nq_queue n) = name" "hn_queues hs"]
  by (auto simp: harness_queue_def split: option.splits)

text \<open>The waits of every queue name queues below it.\<close>

definition waits_descend :: "(string \<Rightarrow> nat) \<Rightarrow> harness_settings \<Rightarrow> bool" where
  "waits_descend rank hs \<longleftrightarrow> (\<forall>n\<in>set (hn_queues hs). \<forall>input.
     waits_only (\<lambda>name. rank name < rank (q_name (nq_queue n))) (nq_process n input))"

lemma inline_wait_agree:
  assumes "waits_descend rank hs"
  shows "b \<le> depth \<Longrightarrow> b \<le> depth' \<Longrightarrow> agree (\<lambda>name. rank name < b) (inline_wait hs depth) (inline_wait hs depth')"
proof (induction b arbitrary: depth depth')
  case (Suc b)
  obtain a a' where a: "depth = Suc a" "depth' = Suc a'" using Suc.prems by (metis Suc_le_D)
  have IH: "agree (\<lambda>name. rank name < b) (inline_wait hs a) (inline_wait hs a')"
    using Suc a by simp
  show ?case
    unfolding agree_def
  proof (intro allI impI)
    fix q :: "unit queue" and known inputs batch and h :: harness
    assume rank: "rank (q_name q) < Suc b"
    obtain steps w where h: "h = (steps, w)" by (cases h)
    have "same_run (inline_wait hs depth q known inputs batch h) (inline_wait hs depth' q known inputs batch h)"
    proof (cases "\<exists>ids w1 n. known \<and> start_children hs (q_name q) inputs batch w = (Inr ids, w1) \<and>
        harness_queue hs (q_name q) = Inr n")
      case True
      then obtain ids w1 n where known: "known" "start_children hs (q_name q) inputs batch w = (Inr ids, w1)"
          "harness_queue hs (q_name q) = Inr n" by blast
      have n: "n \<in> set (hn_queues hs)" "q_name (nq_queue n) = q_name q"
        using harness_queue_Inr [OF known(3)] by auto
      let ?P = "\<lambda>name. rank name < rank (q_name q)"
      have "agree ?P (inline_wait hs a) (inline_wait hs a')"
        using IH rank by (auto simp: agree_def)
      moreover have "waits_only ?P (nq_process n input)" for input
        using assms n unfolding waits_descend_def by metis
      ultimately have process: "same_run (run_process hs (inline_wait hs a) n input s)
          (run_process hs (inline_wait hs a') n input s)" for input s
        by (rule run_process_agree)
      let ?run = "\<lambda>d i input. invoke_run hs (q_name q) (Some i) (run_process hs (inline_wait hs d) n input)"
      have "same_run (?run a i input g) (?run a' i input g)" for i input g
        by (rule invoke_run_agree) (rule process)
      from run_children_agree [of "?run a" "?run a'", OF this, of "q_name q" "zip ids inputs" "(steps, w1)"]
      show ?thesis by (auto simp: h a known same_run_def)
    qed (auto simp: h a same_run_def split: sum.split prod.split)
    then show "inline_wait hs depth q known inputs batch h \<noteq> None \<and>
        inline_wait hs depth' q known inputs batch h = inline_wait hs depth q known inputs batch h"
      by (simp add: same_run_def)
  qed
qed (simp add: agree_def)

text \<open>
  C40 A test run ends: when the waits of every queue's handler name queues below it, whatever the
  handlers are answered, a run of a queue ends with one result, the same for every bound on the
  nesting of waits that is at least the height of the queue; a payload, an enqueue or a child
  that fails is part of that result.
\<close>

theorem harness_run_ends:
  assumes "waits_descend rank hs"
  shows "\<exists>result. \<forall>depth \<ge> rank name. harness_process hs depth name payload job h = Some result"
proof (cases "harness_queue hs name")
  case (Inr n)
  have n: "n \<in> set (hn_queues hs)" "q_name (nq_queue n) = name" using harness_queue_Inr [OF Inr] by auto
  let ?run = "\<lambda>depth. invoke_run hs name job (run_process hs (inline_wait hs depth) n payload) h"
  have only: "waits_only (\<lambda>m. rank m < rank name) (nq_process n input)" for input
    using assms n unfolding waits_descend_def by metis
  have same: "same_run (?run (rank name)) (?run depth)" if "rank name \<le> depth" for depth
    by (intro invoke_run_agree run_process_agree [OF inline_wait_agree [OF assms] only]) (use that in simp_all)
  obtain r h' where "?run (rank name) = Some (r, h')" using same [of "rank name"] by (auto simp: same_run_def)
  with same have "\<forall>depth \<ge> rank name. ?run depth = Some (r, h')" by (auto simp: same_run_def)
  then show ?thesis
    by (intro exI [of _ "(case r of Rejected e \<Rightarrow> Inl e | _ \<Rightarrow> Inr (), h')"]) (simp add: harness_process_def Inr)
qed (simp add: harness_process_def)

text \<open>A queue whose handler waits for a job of another queue, in a harness made for the two.\<close>

definition child_contract :: "'h queue" where
  "child_contract = (bare_queue ''resize'')\<lparr>q_input_schema := Some (\<lambda>v. Inr v)\<rparr>"

definition parent_contract :: "'h queue" where
  "parent_contract = (bare_queue ''mail'')\<lparr>q_input_schema := Some (\<lambda>v. Inr v)\<rparr>"

definition child_handler :: "jsv option \<Rightarrow> handler" where
  "child_handler input = Return (Inr (value_of None))"

definition parent_handler :: "jsv option \<Rightarrow> handler" where
  "parent_handler input = Perform
     (TriggerAndWait ''thumb'' child_contract True [value_of (Some (JBool True))] False None)
     (\<lambda>a. Return (Inr (value_of None)))"

definition sample_harness :: harness_settings where
  "sample_harness = \<lparr>hn_settings = producer_settings (\<lambda>_. None) [parent_contract, child_contract],
     hn_queues = [\<lparr>nq_queue = parent_contract, nq_process = parent_handler, nq_init = None\<rparr>,
       \<lparr>nq_queue = child_contract, nq_process = child_handler, nq_init = None\<rparr>],
     hn_zod_message = \<lambda>_. ''invalid''\<rparr>"

theorem harness_run_ends_witness:
  "\<exists>w. \<forall>depth \<ge> 1. harness_process sample_harness depth ''mail'' (value_of None) None new_harness = Some (Inr (), w) \<and>
     map cp_id (wo_enqueued (snd w)) = [''child-1''] \<and>
     harness_get (''mail'', ''test-job-1'') (fst w) ''thumb'' =
       Some (StepOutput (JArr [JObj [(''id'', JStr ''child-1''), (''ok'', JBool True)]]))"
proof -
  let ?rank = "\<lambda>name. if name = ''mail'' then 1 else 0 :: nat"
  have "waits_descend ?rank sample_harness"
    by (simp add: waits_descend_def sample_harness_def parent_handler_def child_handler_def
        parent_contract_def child_contract_def bare_queue_def)
  from harness_run_ends [OF this, of "''mail''" "value_of None" None new_harness]
  obtain result where all: "\<And>depth. depth \<ge> 1 \<Longrightarrow>
      harness_process sample_harness depth ''mail'' (value_of None) None new_harness = Some result"
    by auto
  have "harness_process sample_harness 1 ''mail'' (value_of None) None new_harness \<noteq> None \<and>
      (case harness_process sample_harness 1 ''mail'' (value_of None) None new_harness of
         None \<Rightarrow> False
       | Some (r, w) \<Rightarrow> r = Inr () \<and> map cp_id (wo_enqueued (snd w)) = [''child-1''] \<and>
           harness_get (''mail'', ''test-job-1'') (fst w) ''thumb'' =
             Some (StepOutput (JArr [JObj [(''id'', JStr ''child-1''), (''ok'', JBool True)]])))"
    by code_simp
  with all [of 1] all show ?thesis by (cases result) auto
qed

theorem harness_replays_steps_witness:
  "\<exists>cx h1 h2. perform sample_harness (inline_wait sample_harness 0) (RunStep ''charge'' None (\<lambda>w. (Inr (value_of (Some JNull)), w)))
      (new_harness, cx) = Some (StepValue (Inr (value_of (Some JNull))), h1, cx) \<and>
     harness_process sample_harness 1 ''mail'' (value_of None) (Some ''a'') h1 = Some (Inr (), h2) \<and>
     perform sample_harness (inline_wait sample_harness 0) (RunStep ''charge'' None (\<lambda>w. (Inl (plain_error ''twice''), w)))
       (h2, cx) = Some (StepValue (Inr (value_of (Some JNull))), h2, cx)"
proof -
  let ?fn = "\<lambda>w :: world. (Inr (value_of (Some JNull)) :: jsv res, w)"
  let ?cx = "\<lparr>cx_key = (''mail'', ''a''), cx_schema = None, cx_value = None, cx_dirty = False, cx_called = False\<rparr>"
  let ?bk = "inline_wait sample_harness 0"
  obtain h1 where first: "perform sample_harness ?bk (RunStep ''charge'' None ?fn) (new_harness, ?cx) =
      Some (StepValue (Inr (value_of (Some JNull))), h1, ?cx)"
    and h1: "h1 = ([((''mail'', ''a''), [(''charge'', StepOutput JNull)])], snd new_harness)"
    by (simp add: new_harness_def step_run_def begin_step_def harness_get_def harness_put_def memory_get_def memory_put_def
        encode_output_def decode_output_def)
  have "case harness_process sample_harness 1 ''mail'' (value_of None) (Some ''a'') 
      ([((''mail'', ''a''), [(''charge'', StepOutput JNull)])], snd new_harness) of
        None \<Rightarrow> False | Some (r, h2) \<Rightarrow> r = Inr ()"
    by code_simp
  then obtain h2 where second: "harness_process sample_harness 1 ''mail'' (value_of None) (Some ''a'') h1 = Some (Inr (), h2)"
    by (auto simp: h1 split: option.splits prod.splits)
  have "\<not> child_id (snd (cx_key ?cx))" by code_simp
  moreover have "(harness_step sample_harness)\<^sup>*\<^sup>* h1 h2"
    using harness_step.process [OF second] by (rule r_into_rtranclp)
  ultimately have "perform sample_harness ?bk (RunStep ''charge'' None fn) (h2, ?cx) =
      Some (StepValue (Inr (value_of (Some JNull))), h2, ?cx)" for fn
    using harness_replays_steps [OF first] by blast
  then show ?thesis using first second by blast
qed

end
