(* ===== verification/TestContext.thy ===== *)
theory TestContext
  imports Harness
begin

text \<open>
  What a test may put into the context of its handler: the extras of \<open>createContext\<close> and the helpers
  of \<open>fakeHelpers\<close> in \<^verbatim>\<open>src/src/testing.ts\<close>. A span, a signal and the cron data are the
  caller's own (\<open>'x\<close>); an overridden operation answers the requests of that operation and can do to
  the harness what the caller's code does.
\<close>

section \<open>The helpers\<close>

record fake_job =
  fj_id :: string
  fj_task :: string
  fj_attempts :: int
  fj_max_attempts :: int
  fj_payload :: json
  fj_priority :: int
  fj_time :: int
  fj_last_error :: "string option"
  fj_key :: "string option"
  fj_locked_by :: "string option"

record 'x test_helpers =
  hp_job :: fake_job
  hp_signal :: 'x

record 'x extras =
  ex_job_id :: "string option"
  ex_queue :: "string option"
  ex_attempt :: "int option"
  ex_max_attempts :: "int option"
  ex_cron :: "'x option"
  ex_span :: "'x option"
  ex_signal :: "'x option"
  ex_helpers :: "'x test_helpers option"

definition no_extras :: "'x extras" where
  "no_extras = \<lparr>ex_job_id = None, ex_queue = None, ex_attempt = None, ex_max_attempts = None,
     ex_cron = None, ex_span = None, ex_signal = None, ex_helpers = None\<rparr>"

text \<open>\<open>now\<close> is the time of the call, \<open>fresh\<close> the signal of a new controller.\<close>

definition fake_helpers :: "string \<Rightarrow> 'x extras \<Rightarrow> 'x \<Rightarrow> int \<Rightarrow> 'x test_helpers" where
  "fake_helpers queue_name ex fresh now =
     \<lparr>hp_job = \<lparr>fj_id = nullish_else (ex_job_id ex) ''test-job'', fj_task = queue_name,
        fj_attempts = nullish_else (ex_attempt ex) 1, fj_max_attempts = nullish_else (ex_max_attempts ex) 4,
        fj_payload = JObj [], fj_priority = 0, fj_time = now, fj_last_error = None, fj_key = None,
        fj_locked_by = None\<rparr>,
      hp_signal = nullish_else (ex_signal ex) fresh\<rparr>"

text \<open>There is no database behind them.\<close>

datatype helpers_call = HelpersAddJob | HelpersAddJobs | HelpersWithPgClient | HelpersQuery | HelpersGetQueueName

fun helpers_answer :: "helpers_call \<Rightarrow> string option res" where
  "helpers_answer HelpersAddJob = Inl (plain_error ''addJob is not available in the test harness'')"
| "helpers_answer HelpersAddJobs = Inl (plain_error ''addJobs is not available in the test harness'')"
| "helpers_answer HelpersWithPgClient = Inl (plain_error ''withPgClient is not available in the test harness'')"
| "helpers_answer HelpersQuery = Inl (plain_error ''query is not available in the test harness'')"
| "helpers_answer HelpersGetQueueName = Inr None"

section \<open>The fields of the context\<close>

record 'x context_fields =
  cf_job_id :: string
  cf_queue :: string
  cf_attempt :: int
  cf_max_attempts :: int
  cf_cron :: "'x option"
  cf_span :: 'x
  cf_signal :: 'x
  cf_helpers :: "'x test_helpers"

text \<open>\<open>noop\<close> is the span that does nothing; \<open>job_id\<close> the id the context was given or counted.\<close>

definition context_fields :: "string \<Rightarrow> string \<Rightarrow> 'x extras \<Rightarrow> 'x \<Rightarrow> 'x \<Rightarrow> int \<Rightarrow> 'x context_fields" where
  "context_fields queue_name job_id ex noop fresh now =
     (let signal = nullish_else (nullish (ex_signal ex) (map_option hp_signal (ex_helpers ex))) fresh in
      \<lparr>cf_job_id = job_id, cf_queue = nullish_else (ex_queue ex) queue_name,
       cf_attempt = nullish_else (ex_attempt ex) 1, cf_max_attempts = nullish_else (ex_max_attempts ex) 4,
       cf_cron = ex_cron ex, cf_span = nullish_else (ex_span ex) noop, cf_signal = signal,
       cf_helpers = nullish_else (ex_helpers ex)
         (fake_helpers queue_name (ex\<lparr>ex_job_id := Some job_id, ex_signal := Some signal\<rparr>) fresh now)\<rparr>)"

definition test_context ::
  "harness_settings \<Rightarrow> string \<Rightarrow> 'x extras \<Rightarrow> 'x \<Rightarrow> 'x \<Rightarrow> int \<Rightarrow> harness \<Rightarrow> 'x context_fields \<times> run_context \<times> harness" where
  "test_context hs queue_name ex noop fresh now h =
     (case create_context hs queue_name (ex_job_id ex) h of
        (cx, h') \<Rightarrow> (context_fields queue_name (snd (cx_key cx)) ex noop fresh now, cx, h'))"

section \<open>The operations of the context\<close>

type_synonym performer = "request \<Rightarrow> harness \<Rightarrow> (answer \<times> harness) option"

record overrides =
  ov_logger :: "performer option"
  ov_create_job :: "performer option"
  ov_create_jobs :: "performer option"
  ov_step :: "performer option"
  ov_progress :: "performer option"
  ov_continue :: "performer option"

definition no_overrides :: overrides where
  "no_overrides = \<lparr>ov_logger = None, ov_create_job = None, ov_create_jobs = None, ov_step = None,
     ov_progress = None, ov_continue = None\<rparr>"

fun override_of :: "overrides \<Rightarrow> request \<Rightarrow> performer option" where
  "override_of ov (WriteLog level message) = ov_logger ov"
| "override_of ov (CreateJob name data opts) = ov_create_job ov"
| "override_of ov (CreateJobs name data opts) = ov_create_jobs ov"
| "override_of ov (RunStep sid codec fn) = ov_step ov"
| "override_of ov (TriggerAndWait sid q known inputs batch timeout) = ov_step ov"
| "override_of ov (SetProgress v) = ov_progress ov"
| "override_of ov FlushProgress = ov_progress ov"
| "override_of ov GetProgress = ov_progress ov"
| "override_of ov (ContinueJob run_at) = ov_continue ov"

text \<open>The run's own progress runner stays; an overridden operation does not reach it.\<close>

definition perform_with ::
  "overrides \<Rightarrow> harness_settings \<Rightarrow> wait_backend \<Rightarrow> request \<Rightarrow> harness \<times> run_context \<Rightarrow>
   (answer \<times> harness \<times> run_context) option" where
  "perform_with ov hs bk req s =
     (case override_of ov req of
        None \<Rightarrow> perform hs bk req s
      | Some f \<Rightarrow> map_option (\<lambda>(a, h). (a, h, snd s)) (f req (fst s)))"

primrec run_with ::
  "overrides \<Rightarrow> harness_settings \<Rightarrow> wait_backend \<Rightarrow> handler \<Rightarrow> harness \<times> run_context \<Rightarrow>
   (jsv res \<times> harness \<times> run_context) option" where
  "run_with ov hs bk (Return r) = (\<lambda>s. Some (r, s))"
| "run_with ov hs bk (Perform req k) = (\<lambda>s.
     case perform_with ov hs bk req s of None \<Rightarrow> None | Some (a, s') \<Rightarrow> run_with ov hs bk (k a) s')"

text \<open>\<open>process\<close> with extras; waited children run without them.\<close>

definition process_with ::
  "harness_settings \<Rightarrow> nat \<Rightarrow> overrides \<Rightarrow> string \<Rightarrow> jsv \<Rightarrow> string option \<Rightarrow> harness \<Rightarrow> (unit res \<times> harness) option" where
  "process_with hs depth ov name payload job h =
     (case harness_queue hs name of
        Inl e \<Rightarrow> Some (Inl e, h)
      | Inr n \<Rightarrow>
          (case invoke_run hs name job (\<lambda>s.
              case parse_given (nq_queue n) payload of
                Inl e \<Rightarrow> Some (Inl e, s)
              | Inr input \<Rightarrow>
                  (case run_with ov hs (inline_wait hs depth) (nq_process n input) s of
                     None \<Rightarrow> None
                   | Some (r, s') \<Rightarrow> Some (bind_res r (encode_queue_output (nq_queue n)), s'))) h of
             None \<Rightarrow> None
           | Some (r, h') \<Rightarrow> Some (case r of Rejected e \<Rightarrow> Inl e | _ \<Rightarrow> Inr (), h')))"

definition init_with ::
  "harness_settings \<Rightarrow> nat \<Rightarrow> overrides \<Rightarrow> string \<Rightarrow> string option \<Rightarrow> harness \<Rightarrow> (jsv option res \<times> harness) option" where
  "init_with hs depth ov name job h =
     (case harness_queue hs name of
        Inl e \<Rightarrow> Some (Inl e, h)
      | Inr n \<Rightarrow>
          (case nq_init n of
             None \<Rightarrow> Some (Inl (plain_error (''Queue '' @ quoted name @ '' is not a cron-init queue'')), h)
           | Some f \<Rightarrow>
               (case invoke_run hs (name @ cron_init_suffix) job (run_with ov hs (inline_wait hs depth) (f None)) h of
                  None \<Rightarrow> None
                | Some (r, h') \<Rightarrow> Some (case r of
                      Rejected e \<Rightarrow> Inl e | ContinuedRun \<Rightarrow> Inr None | Resolved v \<Rightarrow> Inr (Some v), h'))))"

section \<open>What extras change\<close>

text \<open>
  The parts of a test context agree: the run keeps its steps and progress under the id the handler
  sees; helpers that the test did not give describe the job the context describes and carry its
  signal; and given helpers are used as they are, their signal unless another one was given.
\<close>

theorem test_context_consistent:
  assumes "test_context hs queue_name ex noop fresh now h = (cf, cx, h')"
  shows "cx_key cx = (queue_name, cf_job_id cf) \<and>
    (\<forall>i. ex_job_id ex = Some i \<longrightarrow> cf_job_id cf = i) \<and>
    (case ex_helpers ex of
       None \<Rightarrow> fj_id (hp_job (cf_helpers cf)) = cf_job_id cf \<and>
         fj_attempts (hp_job (cf_helpers cf)) = cf_attempt cf \<and>
         fj_max_attempts (hp_job (cf_helpers cf)) = cf_max_attempts cf \<and>
         hp_signal (cf_helpers cf) = cf_signal cf
     | Some hp \<Rightarrow> cf_helpers cf = hp \<and> (ex_signal ex = None \<longrightarrow> cf_signal cf = hp_signal hp))"
proof -
  obtain cx' h1 where c: "create_context hs queue_name (ex_job_id ex) h = (cx', h1)"
    by (cases "create_context hs queue_name (ex_job_id ex) h")
  with assms have cf: "cf = context_fields queue_name (snd (cx_key cx)) ex noop fresh now" and "cx = cx'"
    by (auto simp: test_context_def)
  with create_context_steps [OF c] have key: "fst (cx_key cx) = queue_name"
    "\<forall>i. ex_job_id ex = Some i \<longrightarrow> snd (cx_key cx) = i" by blast+
  then show ?thesis
    unfolding cf by (cases "cx_key cx") (auto simp: context_fields_def fake_helpers_def Let_def split: option.split)
qed

theorem test_context_consistent_witness:
  "\<exists>cf cx h'. test_context sample_harness ''mail'' (no_extras\<lparr>ex_attempt := Some 3\<rparr>) (0 :: nat) 1 9 new_harness = (cf, cx, h') \<and>
    cf_job_id cf = ''test-job-1'' \<and> cx_key cx = (''mail'', ''test-job-1'') \<and>
    fj_attempts (hp_job (cf_helpers cf)) = 3 \<and> hp_signal (cf_helpers cf) = 1"
proof -
  let ?ex = "no_extras\<lparr>ex_attempt := Some 3\<rparr> :: nat extras"
  let ?r = "test_context sample_harness ''mail'' ?ex (0 :: nat) 1 9 new_harness"
  obtain cf cx h' where r: "?r = (cf, cx, h')" by (cases ?r)
  have "cf_job_id (fst ?r) = ''test-job-1''" "cf_attempt (fst ?r) = 3" "cf_signal (fst ?r) = 1" "ex_helpers ?ex = None"
    by (code_simp+)
  with test_context_consistent [OF r] r show ?thesis by (intro exI [of _ cf] exI [of _ cx] exI [of _ h']) simp
qed

text \<open>Without overrides a run with extras is the plain run.\<close>

lemma run_without_overrides: "run_with no_overrides hs bk p s = run_handler hs bk p s"
proof (induction p arbitrary: s)
  case (Perform req k)
  have "override_of no_overrides req = None" by (cases req) (simp_all add: no_overrides_def)
  with Perform show ?case by (simp add: perform_with_def split: option.split prod.split)
qed simp

lemma process_without_overrides:
  "process_with hs depth no_overrides name payload job h = harness_process hs depth name payload job h"
proof (cases "harness_queue hs name")
  case (Inr n)
  have "run_process hs (inline_wait hs depth) n payload = (\<lambda>s. case parse_given (nq_queue n) payload of
        Inl e \<Rightarrow> Some (Inl e, s)
      | Inr input \<Rightarrow>
          (case run_with no_overrides hs (inline_wait hs depth) (nq_process n input) s of
             None \<Rightarrow> None
           | Some (r, s') \<Rightarrow> Some (bind_res r (encode_queue_output (nq_queue n)), s')))"
    by (rule ext) (simp add: run_process_def run_without_overrides split: sum.split option.split prod.split)
  with Inr show ?thesis by (simp add: process_with_def harness_process_def)
qed (simp add: process_with_def harness_process_def)

lemma init_without_overrides:
  "init_with hs depth no_overrides name job h = harness_init hs depth name job h"
proof -
  have "run_with no_overrides hs (inline_wait hs depth) p = run_handler hs (inline_wait hs depth) p" for p
    by (rule ext) (rule run_without_overrides)
  then show ?thesis unfolding init_with_def harness_init_def by presburger
qed

text \<open>An override that leaves the steps of other runs as they are.\<close>

definition harmless :: "string \<times> string \<Rightarrow> overrides \<Rightarrow> bool" where
  "harmless key ov \<longleftrightarrow> (\<forall>req f h a h'. override_of ov req = Some f \<longrightarrow> f req h = Some (a, h') \<longrightarrow> same_steps key h h')"

lemma run_with_effect:
  assumes "leaves_steps key bk" "harmless key ov"
  shows "run_with ov hs bk p s = Some (r, s') \<Longrightarrow> run_effect key s s'"
proof (induction p arbitrary: s)
  case (Perform req k)
  then obtain a s1 where p: "perform_with ov hs bk req s = Some (a, s1)" "run_with ov hs bk (k a) s1 = Some (r, s')"
    by (auto split: option.splits)
  have "run_effect key s s1"
  proof (cases "override_of ov req")
    case None
    with p(1) show ?thesis by (simp add: perform_with_def perform_effect [OF _ assms(1)])
  next
    case (Some f)
    with p(1) obtain h1 where h1: "f req (fst s) = Some (a, h1)" "s1 = (h1, snd s)"
      by (auto simp: perform_with_def)
    with assms(2) Some have "same_steps key (fst s) h1" unfolding harmless_def by blast
    with h1(2) same_keeps show ?thesis by (simp add: run_effect_def)
  qed
  then show ?case using Perform.IH [OF rangeI p(2)] by (rule run_effect_trans)
qed (simp add: run_effect_refl)

text \<open>
  Extras change a test run only where they are: without overrides a run is the plain run; and whatever
  is overridden, as long as the test's own code leaves a job's steps alone, no run with overrides
  loses or changes a step that this job completed, and one under another job id adds none.
\<close>

theorem overrides_keep_steps:
  assumes "process_with hs depth ov name payload job h = Some (r, h')"
    and "harmless key ov" and "\<not> child_id (snd key)"
  shows "(ov = no_overrides \<longrightarrow> harness_process hs depth name payload job h = Some (r, h')) \<and>
    keeps_steps key h h' \<and> (\<forall>i. job = Some i \<and> i \<noteq> snd key \<longrightarrow> same_steps key h h')"
proof -
  have "keeps_steps key h h' \<and> (\<forall>i. job = Some i \<and> i \<noteq> snd key \<longrightarrow> same_steps key h h')"
  proof (cases "harness_queue hs name")
    case (Inl e)
    with assms(1) show ?thesis by (simp add: process_with_def keeps_steps_def same_steps_def)
  next
    case (Inr n)
    let ?body = "\<lambda>s. case parse_given (nq_queue n) payload of
        Inl e \<Rightarrow> Some (Inl e, s)
      | Inr input \<Rightarrow>
          (case run_with ov hs (inline_wait hs depth) (nq_process n input) s of
             None \<Rightarrow> None
           | Some (r, s') \<Rightarrow> Some (bind_res r (encode_queue_output (nq_queue n)), s'))"
    obtain x where x: "invoke_run hs name job ?body h = Some (x, h')"
      using assms(1) Inr by (auto simp: process_with_def split: option.splits)
    have body: "run_effect key s s'" if "?body s = Some (y, s')" for s s' and y :: "json option res"
      using that run_with_effect [OF inline_wait_leaves [OF assms(3)] assms(2)]
      by (auto simp: run_effect_refl split: sum.splits option.splits prod.splits)
    show ?thesis by (rule invoke_run_effect [OF x body])
  qed
  with assms(1) show ?thesis by (auto simp: process_without_overrides)
qed

text \<open>The logger of a test that keeps what is logged for itself.\<close>

definition sample_overrides :: overrides where
  "sample_overrides = no_overrides\<lparr>ov_step := Some (\<lambda>req h. Some (StepValue (Inr (value_of None)), h)),
     ov_logger := Some (\<lambda>req h. Some (Settled (Inr ()), h))\<rparr>"

theorem overrides_keep_steps_witness:
  "\<exists>r h'. process_with sample_harness 1 sample_overrides ''mail'' (value_of None) (Some ''a'') new_harness = Some (r, h') \<and>
    same_steps (''mail'', ''b'') new_harness h'"
proof -
  let ?p = "process_with sample_harness 1 sample_overrides ''mail'' (value_of None) (Some ''a'') new_harness"
  have "?p \<noteq> None" by code_simp
  then obtain r h' where p: "?p = Some (r, h')" by fast
  have "harmless (''mail'', ''b'') sample_overrides"
    unfolding harmless_def
    by (intro allI impI, case_tac req) (auto simp: sample_overrides_def no_overrides_def same_steps_def)
  moreover have "\<not> child_id (snd (''mail'', ''b''))" by code_simp
  ultimately have "\<forall>i. Some ''a'' = Some i \<and> i \<noteq> snd (''mail'', ''b'') \<longrightarrow> same_steps (''mail'', ''b'') new_harness h'"
    using overrides_keep_steps [OF p] by blast
  then have "same_steps (''mail'', ''b'') new_harness h'" by simp
  with p show ?thesis by blast
qed

end
