(* ===== verification/Probe.thy ===== *)
theory Probe
  imports Shutdown
begin

text \<open>
  The pauses and probes of a shutdown, event by event: \<open>databaseAnswers\<close>, \<open>pause\<close> and the loop
  of \<open>whileReachable\<close> in \<^verbatim>\<open>src/src/shutdown.ts\<close>, with their timers, abort listeners and
  connections. The loop refines the race of \<^verbatim>\<open>Shutdown\<close>, and it leaves nothing behind.
\<close>

section \<open>A pause\<close>

record pause_state =
  pz_timer :: bool
  pz_listening :: bool
  pz_done :: bool

definition start_pause :: pause_state where
  "start_pause = \<lparr>pz_timer = True, pz_listening = True, pz_done = False\<rparr>"

definition pause_done :: "pause_state \<Rightarrow> pause_state" where
  "pause_done p = p\<lparr>pz_timer := False, pz_listening := False, pz_done := True\<rparr>"

definition pause_timer :: "pause_state \<Rightarrow> pause_state option" where
  "pause_timer p = (if pz_timer p then Some (pause_done p) else None)"

definition pause_abort :: "pause_state \<Rightarrow> pause_state" where
  "pause_abort p = (if pz_listening p then pause_done p else p)"

section \<open>A probe\<close>

datatype answer_stage = Connecting | Querying | AnswerSettled

text \<open>
  A probe under way: how far the connection is, the timer, the abort listener, what settled the
  race of the answer with both, what the call returned, and how often the client was ended.
\<close>

record probe_state =
  pr_stage :: answer_stage
  pr_timer :: bool
  pr_listening :: bool
  pr_race :: "probe_end option"
  pr_result :: "bool option"
  pr_ends :: nat

definition start_probe :: probe_state where
  "start_probe = \<lparr>pr_stage = Connecting, pr_timer = True, pr_listening = True, pr_race = None,
     pr_result = None, pr_ends = 0\<rparr>"

definition race_settles_with :: "probe_end \<Rightarrow> probe_state \<Rightarrow> probe_state" where
  "race_settles_with e p = p\<lparr>pr_race := nullish (pr_race p) (Some e)\<rparr>"

text \<open>
  The connection or the query settles, with None for a success or whether the error has a
  severity; the timer fires; the call resumes after its race, with its \<open>finally\<close>.
\<close>

datatype probe_event = ConnectSettles "bool option" | QuerySettles "bool option" | ProbeTimer | ProbeResumes

fun probe_step :: "probe_event \<Rightarrow> probe_state \<Rightarrow> probe_state option" where
  "probe_step (ConnectSettles r) p =
     (if pr_stage p \<noteq> Connecting then None
      else case r of
          None \<Rightarrow> Some (p\<lparr>pr_stage := Querying\<rparr>)
        | Some sev \<Rightarrow> Some (race_settles_with (ProbeFailed sev) (p\<lparr>pr_stage := AnswerSettled\<rparr>)))"
| "probe_step (QuerySettles r) p =
     (if pr_stage p \<noteq> Querying then None
      else Some (race_settles_with (case r of None \<Rightarrow> ProbeSucceeded | Some sev \<Rightarrow> ProbeFailed sev)
             (p\<lparr>pr_stage := AnswerSettled\<rparr>)))"
| "probe_step ProbeTimer p =
     (if pr_timer p then Some (race_settles_with ProbeTimedOut (p\<lparr>pr_timer := False\<rparr>)) else None)"
| "probe_step ProbeResumes p =
     (case pr_race p of
        None \<Rightarrow> None
      | Some e \<Rightarrow>
          if pr_result p \<noteq> None then None
          else Some (p\<lparr>pr_result := Some (database_answers e), pr_timer := False,
                 pr_listening := False, pr_ends := Suc (pr_ends p)\<rparr>))"

text \<open>The listener resolves the race, once.\<close>

definition probe_abort :: "probe_state \<Rightarrow> probe_state" where
  "probe_abort p =
     (if pr_listening p then race_settles_with ProbeAborted (p\<lparr>pr_listening := False\<rparr>) else p)"

section \<open>The loop\<close>

datatype activity = InPause pause_state | InProbe probe_state | LoopOver

text \<open>
  \<open>re_clients\<close> and \<open>re_ends\<close> count the clients made, and the calls of \<open>end\<close> by probes that are
  over.
\<close>

record reach =
  re_act :: activity
  re_aborted :: bool
  re_settled :: "unit res option"
  re_result :: "unit res option"
  re_clients :: nat
  re_ends :: nat

definition start_reach :: "bool \<Rightarrow> reach" where
  "start_reach has_options = \<lparr>re_act = (if has_options then InPause start_pause else LoopOver),
     re_aborted = False, re_settled = None, re_result = None, re_clients = 0, re_ends = 0\<rparr>"

definition abort_activity :: "activity \<Rightarrow> activity" where
  "abort_activity a = (case a of
     InPause p \<Rightarrow> InPause (pause_abort p) | InProbe p \<Rightarrow> InProbe (probe_abort p) | LoopOver \<Rightarrow> LoopOver)"

datatype reach_event = WorkDone "unit res" | PauseTimer | InProbeEvent probe_event | LoopResumes

text \<open>The loop goes on after its pause or its probe: it looks at the signal first.\<close>

definition loop_resumes :: "reach \<Rightarrow> reach option" where
  "loop_resumes s = (case re_act s of
     InPause p \<Rightarrow>
       if \<not> pz_done p then None
       else if re_aborted s then Some (s\<lparr>re_act := LoopOver\<rparr>)
       else Some (s\<lparr>re_act := InProbe start_probe, re_clients := Suc (re_clients s)\<rparr>)
   | InProbe p \<Rightarrow>
       (case pr_result p of
          None \<Rightarrow> None
        | Some answered \<Rightarrow>
            (let s = s\<lparr>re_ends := re_ends s + pr_ends p\<rparr> in
             if re_aborted s then Some (s\<lparr>re_act := LoopOver\<rparr>)
             else if \<not> answered
             then Some (s\<lparr>re_act := LoopOver,
                    re_result := nullish (re_result s) (Some (Inl DatabaseUnreachableError))\<rparr>)
             else Some (s\<lparr>re_act := InPause start_pause\<rparr>)))
   | LoopOver \<Rightarrow> None)"

fun reach_step :: "reach_event \<Rightarrow> reach \<Rightarrow> reach option" where
  "reach_step (WorkDone r) s =
     (if re_settled s \<noteq> None then None
      else Some (s\<lparr>re_settled := Some r, re_aborted := True, re_act := abort_activity (re_act s),
             re_result := nullish (re_result s) (Some r)\<rparr>))"
| "reach_step PauseTimer s =
     (case re_act s of
        InPause p \<Rightarrow> map_option (\<lambda>p'. s\<lparr>re_act := InPause p'\<rparr>) (pause_timer p)
      | _ \<Rightarrow> None)"
| "reach_step (InProbeEvent e) s =
     (case re_act s of
        InProbe p \<Rightarrow> map_option (\<lambda>p'. s\<lparr>re_act := InProbe p'\<rparr>) (probe_step e p)
      | _ \<Rightarrow> None)"
| "reach_step LoopResumes s = loop_resumes s"

fun reach_run :: "reach_event list \<Rightarrow> reach \<Rightarrow> reach option" where
  "reach_run [] s = Some s"
| "reach_run (e # es) s = (case reach_step e s of None \<Rightarrow> None | Some s' \<Rightarrow> reach_run es s')"

section \<open>Invariants\<close>

text \<open>A pause is armed until it is done; a probe is until its call returned, which ends its client.\<close>

definition pause_ok :: "pause_state \<Rightarrow> bool" where
  "pause_ok p \<longleftrightarrow> pz_timer p = (\<not> pz_done p) \<and> pz_listening p = (\<not> pz_done p)"

definition probe_ok :: "probe_state \<Rightarrow> bool" where
  "probe_ok p \<longleftrightarrow>
     (pr_result p = None \<longrightarrow> pr_ends p = 0 \<and> (pr_race p = None \<longrightarrow> pr_timer p \<and> pr_listening p)) \<and>
     (pr_result p \<noteq> None \<longrightarrow> pr_ends p = 1 \<and> \<not> pr_timer p \<and> \<not> pr_listening p \<and>
        pr_result p = map_option database_answers (pr_race p))"

definition activity_ok :: "bool \<Rightarrow> activity \<Rightarrow> bool" where
  "activity_ok aborted a = (case a of
     InPause p \<Rightarrow> pause_ok p \<and> (aborted \<longrightarrow> pz_done p)
   | InProbe p \<Rightarrow> probe_ok p \<and> (aborted \<longrightarrow> pr_race p \<noteq> None \<and> \<not> pr_listening p)
   | LoopOver \<Rightarrow> True)"

definition open_clients :: "activity \<Rightarrow> nat" where
  "open_clients a = (case a of InProbe p \<Rightarrow> 1 | _ \<Rightarrow> 0)"

definition reach_inv :: "reach \<Rightarrow> bool" where
  "reach_inv s \<longleftrightarrow> activity_ok (re_aborted s) (re_act s) \<and>
     re_aborted s = (re_settled s \<noteq> None) \<and> re_clients s = re_ends s + open_clients (re_act s)"

lemma probe_step_ok:
  assumes "probe_step e p = Some p'" "probe_ok p"
  shows "probe_ok p'"
  using assms
  by (cases e) (auto simp: probe_ok_def race_settles_with_def nullish_def split: option.splits if_splits)

lemma probe_step_race:
  "probe_step e p = Some p' \<Longrightarrow> pr_race p \<noteq> None \<Longrightarrow> pr_race p' = pr_race p"
  "probe_step e p = Some p' \<Longrightarrow> pr_listening p' \<Longrightarrow> pr_listening p"
  by (cases e; auto simp: race_settles_with_def nullish_def split: option.splits if_splits)+

lemma probe_abort_ok:
  assumes "probe_ok p"
  shows "probe_ok (probe_abort p)" "pr_race (probe_abort p) \<noteq> None" "\<not> pr_listening (probe_abort p)"
  using assms by (auto simp: probe_ok_def probe_abort_def race_settles_with_def)

lemma start_ok [simp]: "pause_ok start_pause" "probe_ok start_probe"
  by (simp_all add: pause_ok_def start_pause_def probe_ok_def start_probe_def)

lemma loop_resumes_inv:
  assumes "loop_resumes s = Some s'" "reach_inv s"
  shows "reach_inv s'"
proof (cases "re_act s")
  case (InPause p)
  with assms show ?thesis
    by (auto simp: loop_resumes_def reach_inv_def activity_ok_def open_clients_def split: if_splits)
next
  case (InProbe p)
  with assms show ?thesis
    by (auto simp: loop_resumes_def reach_inv_def activity_ok_def open_clients_def probe_ok_def Let_def
        split: option.splits if_splits)
qed (use assms in \<open>simp add: loop_resumes_def\<close>)

lemma pause_timer_ok:
  "pause_timer p = Some p' \<Longrightarrow> pause_ok p' \<and> pz_done p'"
  by (auto simp: pause_timer_def pause_done_def pause_ok_def split: if_splits)

lemma reach_step_inv:
  assumes "reach_step e s = Some s'" "reach_inv s"
  shows "reach_inv s'"
proof (cases e)
  case (WorkDone r)
  have "activity_ok True (abort_activity (re_act s))"
    using assms(2) probe_abort_ok
    by (auto simp: reach_inv_def activity_ok_def abort_activity_def pause_ok_def pause_abort_def pause_done_def
        split: activity.splits)
  moreover have "open_clients (abort_activity (re_act s)) = open_clients (re_act s)"
    by (simp add: open_clients_def abort_activity_def split: activity.split)
  ultimately show ?thesis
    using assms WorkDone by (auto simp: reach_inv_def split: if_splits)
next
  case PauseTimer
  with assms show ?thesis
    by (auto simp: reach_inv_def activity_ok_def open_clients_def dest: pause_timer_ok split: activity.splits)
next
  case (InProbeEvent pe)
  then obtain p p' where p: "re_act s = InProbe p" "probe_step pe p = Some p'" "s' = s\<lparr>re_act := InProbe p'\<rparr>"
    using assms(1) by (auto split: activity.splits)
  have "probe_ok p'" using probe_step_ok [OF p(2)] assms(2) p(1) by (simp add: reach_inv_def activity_ok_def)
  with assms(2) p probe_step_race [OF p(2)] show ?thesis
    by (auto simp: reach_inv_def activity_ok_def open_clients_def)
next
  case LoopResumes
  with assms loop_resumes_inv show ?thesis by simp
qed

lemma reach_run_inv: "reach_run es s = Some s' \<Longrightarrow> reach_inv s \<Longrightarrow> reach_inv s'"
  by (induction es s rule: reach_run.induct) (auto split: option.splits dest: reach_step_inv)

lemma start_reach_inv: "reach_inv (start_reach ho)"
  by (simp add: start_reach_def reach_inv_def activity_ok_def open_clients_def)

section \<open>The race it refines\<close>

definition reach_race :: "reach \<Rightarrow> race" where
  "reach_race s = \<lparr>rc_phase = (if re_aborted s then ProbingOver else
       case re_act s of InPause p \<Rightarrow> Pausing | InProbe p \<Rightarrow> Probing | LoopOver \<Rightarrow> ProbingOver),
     rc_work = re_settled s, rc_result = re_result s\<rparr>"

text \<open>What the race sees of an event: an end of its pause or probe, when the loop goes on with it.\<close>

definition seen_event :: "reach_event \<Rightarrow> reach \<Rightarrow> race_event list" where
  "seen_event e s = (case e of
     WorkDone r \<Rightarrow> [WorkSettles r]
   | LoopResumes \<Rightarrow>
       if re_aborted s then []
       else (case re_act s of
           InPause p \<Rightarrow> [PauseEnds]
         | InProbe p \<Rightarrow> (case pr_race p of None \<Rightarrow> [] | Some x \<Rightarrow> [ProbeEnds x])
         | LoopOver \<Rightarrow> [])
   | _ \<Rightarrow> [])"

fun seen_events :: "reach_event list \<Rightarrow> reach \<Rightarrow> race_event list" where
  "seen_events [] s = []"
| "seen_events (e # es) s =
     seen_event e s @ (case reach_step e s of None \<Rightarrow> [] | Some s' \<Rightarrow> seen_events es s')"

lemma while_reachable_append:
  "while_reachable (xs @ ys) s = (case while_reachable xs s of None \<Rightarrow> None | Some t \<Rightarrow> while_reachable ys t)"
  by (induction xs s rule: while_reachable.induct) (auto split: option.split)

lemma loop_resumes_seen:
  assumes "loop_resumes s = Some s'" "reach_inv s"
  shows "while_reachable (seen_event LoopResumes s) (reach_race s) = Some (reach_race s')"
proof (cases "re_act s")
  case (InPause p)
  with assms show ?thesis
    by (auto simp: loop_resumes_def seen_event_def reach_race_def split: if_splits)
next
  case (InProbe p)
  then obtain b where b: "pr_result p = Some b"
    using assms(1) by (auto simp: loop_resumes_def split: option.splits)
  then have "map_option database_answers (pr_race p) = Some b"
    using assms(2) InProbe by (simp add: reach_inv_def activity_ok_def probe_ok_def)
  then obtain e where e: "pr_race p = Some e" "b = database_answers e" by blast
  from b e assms InProbe show ?thesis
    by (auto simp: loop_resumes_def seen_event_def reach_race_def Let_def split: if_splits)
qed (use assms in \<open>simp add: loop_resumes_def\<close>)

lemma reach_step_seen:
  assumes "reach_step e s = Some s'" "reach_inv s"
  shows "while_reachable (seen_event e s) (reach_race s) = Some (reach_race s')"
proof (cases e)
  case (WorkDone r)
  with assms show ?thesis by (auto simp: seen_event_def reach_race_def split: if_splits)
next
  case LoopResumes
  with assms loop_resumes_seen show ?thesis by simp
qed (use assms in \<open>auto simp: seen_event_def reach_race_def split: activity.splits\<close>)

lemma reach_run_seen:
  "reach_run es s = Some s' \<Longrightarrow> reach_inv s \<Longrightarrow>
   while_reachable (seen_events es s) (reach_race s) = Some (reach_race s')"
proof (induction es s rule: reach_run.induct)
  case (2 e es s)
  then obtain t where t: "reach_step e s = Some t" "reach_run es t = Some s'"
    by (auto split: option.splits)
  have "while_reachable (seen_events es t) (reach_race t) = Some (reach_race s')"
    by (rule 2(1) [OF t reach_step_inv [OF t(1) 2(3)]])
  with t(1) reach_step_seen [OF t(1) 2(3)] show ?case by (simp add: while_reachable_append)
qed simp

lemma seen_event_cases:
  "WorkSettles r \<in> set (seen_event e s) \<Longrightarrow> e = WorkDone r"
  "ProbeEnds x \<in> set (seen_event e s) \<Longrightarrow> e = LoopResumes"
  by (auto simp: seen_event_def split: reach_event.splits activity.splits option.splits if_splits)

lemma seen_events_cases:
  "WorkSettles r \<in> set (seen_events es s) \<Longrightarrow> WorkDone r \<in> set es"
  "ProbeEnds x \<in> set (seen_events es s) \<Longrightarrow> LoopResumes \<in> set es"
proof -
  have "(WorkSettles r \<in> set (seen_events es s) \<longrightarrow> WorkDone r \<in> set es) \<and>
      (ProbeEnds x \<in> set (seen_events es s) \<longrightarrow> LoopResumes \<in> set es)"
  proof (induction es s rule: seen_events.induct)
    case (2 e es s)
    then show ?case
      using seen_event_cases(1) [of r e s] seen_event_cases(2) [of x e s] by (cases "reach_step e s") auto
  qed simp
  then show "WorkSettles r \<in> set (seen_events es s) \<Longrightarrow> WorkDone r \<in> set es"
    "ProbeEnds x \<in> set (seen_events es s) \<Longrightarrow> LoopResumes \<in> set es" by blast+
qed

lemma over_stays:
  assumes "reach_step e s = Some s'" "re_act s = LoopOver"
  shows "re_act s' = LoopOver \<and> e \<noteq> LoopResumes"
  using assms by (cases e) (auto simp: loop_resumes_def abort_activity_def split: if_splits)

lemma over_run: "reach_run es s = Some s' \<Longrightarrow> re_act s = LoopOver \<Longrightarrow> LoopResumes \<notin> set es"
  by (induction es s rule: reach_run.induct) (auto split: option.splits dest: over_stays)

text \<open>
  C34 The loop with its pauses and probes is the race: whatever the interleaving of timers, connections,
  queries, aborts and the loop, its events are events of the race and its result is the race's
  winner. It rejects as unreachable only if the shutdown itself did, or a probe that ran its race
  to the end got no answer before the shutdown settled.
\<close>

theorem probes_refine_race:
  assumes "reach_run es (start_reach has_options) = Some s"
  shows "while_reachable (seen_events es (start_reach has_options)) (start_race has_options) = Some (reach_race s) \<and>
    re_result s = race_winner (seen_events es (start_reach has_options)) \<and>
    (re_result s = Some (Inl DatabaseUnreachableError) \<longrightarrow>
       WorkDone (Inl DatabaseUnreachableError) \<in> set es \<or>
       has_options \<and> LoopResumes \<in> set es \<and>
         (\<exists>e. ProbeEnds e \<in> set (seen_events es (start_reach has_options)) \<and> \<not> database_answers e))"
proof -
  let ?s = "start_reach has_options"
  have "reach_race ?s = start_race has_options"
    by (simp add: reach_race_def start_reach_def start_race_def)
  with reach_run_seen [OF assms start_reach_inv]
  have run: "while_reachable (seen_events es ?s) (start_race has_options) = Some (reach_race s)" by simp
  moreover from race_settles [OF run] have res: "re_result s = race_winner (seen_events es ?s)"
    by (simp add: reach_race_def start_race_def)
  moreover have "WorkDone (Inl DatabaseUnreachableError) \<in> set es \<or>
       has_options \<and> LoopResumes \<in> set es \<and> (\<exists>e. ProbeEnds e \<in> set (seen_events es ?s) \<and> \<not> database_answers e)"
    if unreachable: "re_result s = Some (Inl DatabaseUnreachableError)"
  proof -
    have "has_options" if "LoopResumes \<in> set es"
      using over_run [OF assms] that by (cases has_options) (auto simp: start_reach_def)
    with winner_unreachable [of "seen_events es ?s"] unreachable res seen_events_cases show ?thesis by metis
  qed
  ultimately show ?thesis by blast
qed

text \<open>
  A probe that ran into its timeout while the shutdown was still going, and one that the end of the
  shutdown cut short.
\<close>

theorem probes_refine_race_witness:
  "\<exists>s. reach_run [PauseTimer, LoopResumes, InProbeEvent (ConnectSettles None), InProbeEvent ProbeTimer,
      InProbeEvent ProbeResumes, LoopResumes, WorkDone (Inr ())] (start_reach True) = Some s \<and>
    re_result s = Some (Inl DatabaseUnreachableError) \<and> rc_work (reach_race s) = Some (Inr ())"
proof -
  let ?es = "[PauseTimer, LoopResumes, InProbeEvent (ConnectSettles None), InProbeEvent ProbeTimer,
      InProbeEvent ProbeResumes, LoopResumes, WorkDone (Inr ())]"
  let ?s = "the (reach_run ?es (start_reach True))"
  have run: "reach_run ?es (start_reach True) = Some ?s" by code_simp
  have "race_winner (seen_events ?es (start_reach True)) = Some (Inl DatabaseUnreachableError)"
    "rc_work (reach_race ?s) = Some (Inr ())" by (code_simp+)
  with run probes_refine_race [OF run] show ?thesis by metis
qed

section \<open>Nothing left behind\<close>

definition armed :: "activity \<Rightarrow> bool" where
  "armed a = (case a of InPause p \<Rightarrow> pz_timer p \<or> pz_listening p
     | InProbe p \<Rightarrow> pr_timer p \<or> pr_listening p | LoopOver \<Rightarrow> False)"

lemma armed_ok: "pause_ok p \<Longrightarrow> pz_done p \<Longrightarrow> \<not> armed (InPause p)"
  "probe_ok p' \<Longrightarrow> pr_result p' \<noteq> None \<Longrightarrow> \<not> armed (InProbe p')"
  by (auto simp: armed_def pause_ok_def probe_ok_def)

lemma aborted_loop_ends:
  assumes "reach_inv s" "re_settled s \<noteq> None"
  shows "\<exists>es s'. reach_run es s = Some s' \<and> length es \<le> 2 \<and> set es \<subseteq> {InProbeEvent ProbeResumes, LoopResumes} \<and>
    re_act s' = LoopOver \<and> re_result s' = re_result s"
proof (cases "re_act s")
  case (InPause p)
  with assms have "reach_run [LoopResumes] s = Some (s\<lparr>re_act := LoopOver\<rparr>)"
    by (simp add: reach_inv_def activity_ok_def loop_resumes_def)
  then show ?thesis by (intro exI [of _ "[LoopResumes]"]) simp
next
  case (InProbe p)
  show ?thesis
  proof (cases "pr_result p")
    case None
    from assms InProbe obtain x where "pr_race p = Some x"
      by (auto simp: reach_inv_def activity_ok_def)
    with assms InProbe None have "\<exists>s'. reach_run [InProbeEvent ProbeResumes, LoopResumes] s = Some s' \<and>
        re_act s' = LoopOver \<and> re_result s' = re_result s"
      by (simp add: reach_inv_def loop_resumes_def Let_def)
    then show ?thesis by (elim exE) (intro exI [of _ "[InProbeEvent ProbeResumes, LoopResumes]"], auto)
  next
    case (Some b)
    with assms InProbe have "\<exists>s'. reach_run [LoopResumes] s = Some s' \<and>
        re_act s' = LoopOver \<and> re_result s' = re_result s"
      by (simp add: reach_inv_def loop_resumes_def Let_def)
    then show ?thesis by (elim exE) (intro exI [of _ "[LoopResumes]"], auto)
  qed
next
  case LoopOver
  then show ?thesis by (intro exI [of _ "[]"]) simp
qed

text \<open>
  The probes of a shutdown leave nothing behind: whatever happens, at most one connection is open;
  the loop never goes on from a pause or probe whose timer or abort listener is left; once the
  shutdown settled no listener is left and at most two of the loop's own steps end it with the
  result it has; and when it is over every client it made was ended exactly once.
\<close>

theorem probes_leave_nothing:
  assumes "reach_run es (start_reach has_options) = Some s"
  shows "re_ends s \<le> re_clients s \<and> re_clients s \<le> Suc (re_ends s) \<and>
    (reach_step LoopResumes s \<noteq> None \<longrightarrow> \<not> armed (re_act s)) \<and>
    (re_act s = LoopOver \<longrightarrow> re_ends s = re_clients s) \<and>
    (re_settled s \<noteq> None \<longrightarrow>
       (\<exists>es' s'. reach_run es' s = Some s' \<and> length es' \<le> 2 \<and>
          set es' \<subseteq> {InProbeEvent ProbeResumes, LoopResumes} \<and>
          re_act s' = LoopOver \<and> re_result s' = re_result s \<and> re_ends s' = re_clients s'))"
proof -
  have inv: "reach_inv s" by (rule reach_run_inv [OF assms start_reach_inv])
  have over: "re_ends t = re_clients t" if "reach_inv t" "re_act t = LoopOver" for t
    using that by (simp add: reach_inv_def open_clients_def)
  have "\<not> armed (re_act s)" if "loop_resumes s \<noteq> None"
    using that inv armed_ok
    by (auto simp: loop_resumes_def reach_inv_def activity_ok_def split: activity.splits option.splits if_splits)
  moreover have "re_ends s \<le> re_clients s \<and> re_clients s \<le> Suc (re_ends s)"
    using inv by (simp add: reach_inv_def open_clients_def split: activity.splits)
  moreover have "\<exists>es' s'. reach_run es' s = Some s' \<and> length es' \<le> 2 \<and>
      set es' \<subseteq> {InProbeEvent ProbeResumes, LoopResumes} \<and>
      re_act s' = LoopOver \<and> re_result s' = re_result s \<and> re_ends s' = re_clients s'" if "re_settled s \<noteq> None"
    using aborted_loop_ends [OF inv that] over reach_run_inv [OF _ inv] by blast
  ultimately show ?thesis using over [OF inv] by simp
qed

text \<open>The shutdown settles while the first probe still waits for its connection.\<close>

theorem probes_leave_nothing_witness:
  "\<exists>s es' s'. reach_run [PauseTimer, LoopResumes, WorkDone (Inr ())] (start_reach True) = Some s \<and>
    re_clients s = 1 \<and> re_ends s = 0 \<and> reach_run es' s = Some s' \<and> length es' \<le> 2 \<and>
    re_result s' = Some (Inr ()) \<and> re_ends s' = re_clients s'"
proof -
  let ?s = "the (reach_run [PauseTimer, LoopResumes, WorkDone (Inr ())] (start_reach True))"
  have run: "reach_run [PauseTimer, LoopResumes, WorkDone (Inr ())] (start_reach True) = Some ?s" by code_simp
  have "re_clients ?s = 1" "re_ends ?s = 0" "re_settled ?s \<noteq> None" "re_result ?s = Some (Inr ())"
    by (code_simp+)
  with probes_leave_nothing [OF run] run show ?thesis by metis
qed

end
