(* ===== verification/Keeping.thy ===== *)
theory Keeping
  imports Enqueueing
begin

text \<open>
  Invariants of the database along transactions: how they compose, and that whatever enqueues keeps
  an invariant that Graphile's \<open>add_job\<close> and \<open>add_jobs\<close> and the two statements on the idempotency
  table keep.
\<close>

section \<open>Kept invariants\<close>

definition keeps_inv :: "(db \<Rightarrow> bool) \<Rightarrow> 'a tx \<Rightarrow> bool" where
  "keeps_inv I m \<longleftrightarrow> (\<forall>d. I d \<longrightarrow> I (snd (m d)))"

named_theorems keeps_intros "transactions that keep an invariant"

lemma keeps_invD: "keeps_inv I m \<Longrightarrow> I d \<Longrightarrow> m d = (r, d') \<Longrightarrow> I d'"
  by (metis keeps_inv_def snd_conv)

lemma keeps_inv_at: "keeps_inv I m \<Longrightarrow> I d \<Longrightarrow> I (snd (m d))"
  by (simp add: keeps_inv_def)

lemma keeps_monad [keeps_intros]:
  "keeps_inv I (tx_return x)" "keeps_inv I (tx_throw e)" "keeps_inv I (tx_lift r)"
  "keeps_inv I m \<Longrightarrow> (\<And>x. keeps_inv I (f x)) \<Longrightarrow> keeps_inv I (tx_bind m f)"
  "keeps_inv I m \<Longrightarrow> keeps_inv I (transaction m)"
  "(\<And>d. I d \<Longrightarrow> I (g d)) \<Longrightarrow> keeps_inv I (tx_modify g)"
  by (auto simp: keeps_inv_def tx_simps tx_bind_def transaction_def split: prod.split sum.split)

lemma keeps_case [keeps_intros]:
  "(v = None \<Longrightarrow> keeps_inv I m) \<Longrightarrow> (\<And>x. v = Some x \<Longrightarrow> keeps_inv I (f x)) \<Longrightarrow>
   keeps_inv I (case v of None \<Rightarrow> m | Some x \<Rightarrow> f x)"
  "(b \<Longrightarrow> keeps_inv I m) \<Longrightarrow> (\<not> b \<Longrightarrow> keeps_inv I m') \<Longrightarrow> keeps_inv I (if b then m else m')"
  "(\<And>x y. p = (x, y) \<Longrightarrow> keeps_inv I (g x y)) \<Longrightarrow> keeps_inv I (case p of (x, y) \<Rightarrow> g x y)"
  "(xs = [] \<Longrightarrow> keeps_inv I m) \<Longrightarrow> (\<And>y ys. xs = y # ys \<Longrightarrow> keeps_inv I (h y ys)) \<Longrightarrow>
   keeps_inv I (case xs of [] \<Rightarrow> m | y # ys \<Rightarrow> h y ys)"
  by (simp_all split: option.split prod.split list.split)

lemma keeps_lift: "(\<And>x. r = Inr x \<Longrightarrow> keeps_inv I (f x)) \<Longrightarrow> keeps_inv I (tx_bind (tx_lift r) f)"
  by (cases r) (auto simp: keeps_inv_def tx_simps)

section \<open>Enqueueing\<close>

text \<open>What enqueueing needs of an invariant, when the payloads satisfy \<open>P\<close>.\<close>

definition enqueue_keeps :: "(db \<Rightarrow> bool) \<Rightarrow> (json \<Rightarrow> bool) \<Rightarrow> backend \<Rightarrow> bool" where
  "enqueue_keeps I P b \<longleftrightarrow>
     (\<forall>a. P (aa_payload a) \<longrightarrow> keeps_inv I (be_add_job b a)) \<and>
     (\<forall>specs preserve. list_all (P \<circ> js_payload) specs \<longrightarrow> keeps_inv I (be_add_jobs b specs preserve)) \<and>
     (\<forall>q k t. keeps_inv I (claim_key q k t)) \<and>
     (\<forall>q k i d. I d \<longrightarrow> I (record_key q k i d)) \<and>
     (\<forall>v a. P (inject_trace_context v a))"

lemma keeps_item:
  assumes "enqueue_keeps I P b" "P (js_payload s)"
  shows "keeps_inv I (add_idempotent_item (be_add_job b) s)"
proof -
  have "keeps_inv I (be_add_job b (args_of s))"
    using assms by (simp add: enqueue_keeps_def args_of_def)
  moreover have "keeps_inv I (claim_key q k t)" "I d \<Longrightarrow> I (record_key q k i d)" for q k t i d
    using assms(1) by (simp_all add: enqueue_keeps_def)
  ultimately show ?thesis
    unfolding add_idempotent_item_def by (intro keeps_intros)
qed

lemma keeps_items:
  "enqueue_keeps I P b \<Longrightarrow> list_all (P \<circ> js_payload) specs \<Longrightarrow>
   keeps_inv I (add_idempotent_items (be_add_job b) specs)"
  by (induction specs) (auto intro!: keeps_intros keeps_item)

text \<open>What a statement enqueues.\<close>

fun statement_payloads :: "statement \<Rightarrow> json list" where
  "statement_payloads SelectNothing = []"
| "statement_payloads (AddJob _ a) = [aa_payload a]"
| "statement_payloads (AddJobs _ specs _) = map js_payload specs"
| "statement_payloads (AddIdempotentJobs _ specs) = map js_payload specs"

lemma keeps_statement:
  assumes "enqueue_keeps I P b" "list_all P (statement_payloads stmt)"
  shows "keeps_inv I (run_statement b stmt)"
proof (cases stmt)
  case (AddJobs schema specs preserve)
  have jobs: "keeps_inv I (be_add_jobs b specs preserve)"
    using assms AddJobs by (auto simp: enqueue_keeps_def list_all_iff)
  have "keeps_inv I (\<lambda>d. tx_bind (be_add_jobs b specs preserve) (\<lambda>rows. tx_return (f d rows)) d)"
    for f :: "db \<Rightarrow> job_row list \<Rightarrow> nat option list"
    unfolding keeps_inv_def
    by (intro allI impI, erule keeps_inv_at [rotated]) (intro keeps_intros jobs)
  then show ?thesis by (auto simp: AddJobs intro: keeps_intros)
next
  case (AddJob schema a)
  have "keeps_inv I (be_add_job b a)"
    using assms AddJob by (auto simp: enqueue_keeps_def)
  then show ?thesis by (auto simp: AddJob intro!: keeps_intros)
next
  case (AddIdempotentJobs schema specs)
  have "keeps_inv I (add_idempotent_items (be_add_job b) specs)"
    using assms AddIdempotentJobs by (intro keeps_items) (auto simp: list_all_iff)
  then show ?thesis by (auto simp: AddIdempotentJobs intro!: keeps_intros)
qed (auto intro: keeps_intros)

lemma add_sql_payloads:
  "add_job_sql schema s = Inr stmt \<Longrightarrow> statement_payloads stmt = [js_payload s]"
  "add_jobs_sql schema specs preserve = Inr stmt \<Longrightarrow> statement_payloads stmt = map js_payload specs"
  "add_idempotent_jobs_sql schema specs = Inr stmt \<Longrightarrow> statement_payloads stmt = map js_payload specs"
  by (auto simp: add_job_sql_def add_jobs_sql_def add_idempotent_jobs_sql_def res_simps args_of_def)

lemma keeps_client:
  assumes "enqueue_keeps I P b"
  shows "P (js_payload s) \<Longrightarrow> keeps_inv I (client_add_job b schema s)"
    and "list_all (P \<circ> js_payload) specs \<Longrightarrow> keeps_inv I (client_add_jobs b schema specs preserve)"
    and "list_all (P \<circ> js_payload) specs \<Longrightarrow> keeps_inv I (client_add_idempotent b schema specs)"
proof -
  show "keeps_inv I (client_add_job b schema s)" if "P (js_payload s)"
    unfolding client_add_job_def
    by (intro keeps_lift keeps_monad keeps_case keeps_statement [OF assms])
       (use that in \<open>auto simp: add_sql_payloads keeps_monad split: option.split\<close>)
  show "keeps_inv I (client_add_jobs b schema specs preserve)" if "list_all (P \<circ> js_payload) specs"
    unfolding client_add_jobs_def
    by (intro keeps_case keeps_lift keeps_monad keeps_statement [OF assms])
       (use that in \<open>auto simp: add_sql_payloads list_all_iff\<close>)
  show "keeps_inv I (client_add_idempotent b schema specs)" if "list_all (P \<circ> js_payload) specs"
    unfolding client_add_idempotent_def
    by (intro keeps_intros keeps_items [OF assms] that)
qed

text \<open>The payloads of the specs an enqueue makes are envelopes around its items.\<close>

lemma spec_payload [simp]: "js_payload (spec_of task payload s) = payload"
  by (simp add: spec_of_def)

lemma traced_payloads:
  assumes "enqueue_keeps I P b"
  shows "list_all (P \<circ> js_payload) (traced_specs st name specs)"
    and "list_all (P \<circ> js_payload) (with_batch_key_mode preserve specs') =
      list_all (P \<circ> js_payload) specs'"
proof -
  show "list_all (P \<circ> js_payload) (traced_specs st name specs)"
    using assms by (auto simp: enqueue_keeps_def traced_specs_def list_all_iff)
  show "list_all (P \<circ> js_payload) (with_batch_key_mode preserve specs') =
      list_all (P \<circ> js_payload) specs'"
    unfolding with_batch_key_mode_def by (induction specs') auto
qed

lemma keeps_enqueue:
  assumes "enqueue_keeps I P b"
  shows "keeps_inv I (enqueue_one st (client_adapter b schema) name data opts cron)"
    and "keeps_inv I (enqueue_many st (client_adapter b schema) name items opts)"
proof -
  have inject: "P (inject_trace_context v a)" for v a
    using assms by (simp add: enqueue_keeps_def)
  show "keeps_inv I (enqueue_one st (client_adapter b schema) name data opts cron)"
    unfolding enqueue_one_def Let_def client_adapter_def enqueue_idempotent_def
    by (intro keeps_intros) (auto intro!: keeps_intros keeps_client [OF assms] inject)
  show "keeps_inv I (enqueue_many st (client_adapter b schema) name items opts)"
    unfolding enqueue_many_def Let_def client_adapter_def enqueue_idempotent_def
    by (intro keeps_intros) (auto simp: traced_payloads [OF assms] intro!: keeps_intros keeps_client [OF assms])
qed

lemma prepared_payloads:
  assumes "enqueue_keeps I P b"
    and "prepare_one st name data opts mode = Inr p \<or> prepare_many st name items opts = Inr p"
  shows "list_all P (statement_payloads (pj_statement p))"
proof -
  have inject: "P (inject_trace_context v a)" for v a
    using assms by (simp add: enqueue_keeps_def)
  from assms(2) show ?thesis
  proof
    assume "prepare_one st name data opts mode = Inr p"
    then show ?thesis
      using inject by (auto simp: prepare_one_def skipped_job_def Let_def res_simps add_sql_payloads split: if_splits)
  next
    assume "prepare_many st name items opts = Inr p"
    then show ?thesis
      by (auto simp: prepare_many_def skipped_job_def Let_def res_simps add_sql_payloads list_all_iff
          with_batch_key_mode_def traced_specs_def inject split: if_splits)
  qed
qed

lemma keeps_prepared:
  assumes "enqueue_keeps I P b"
    and "prepare_one st name data opts mode = Inr p \<or> prepare_many st name items opts = Inr p"
  shows "keeps_inv I (run_statement b (pj_statement p))"
  by (rule keeps_statement [OF assms(1) prepared_payloads [OF assms]])

section \<open>Waits and continuations\<close>

lemma keeps_enter_wait:
  assumes "\<And>p. prep = Inr (Some p) \<Longrightarrow> keeps_inv I (exec p)"
    and "\<And>d g. I d \<Longrightarrow> I (d\<lparr>db_groups := db_groups d @ [g]\<rparr>)"
    and "\<And>d ids. I d \<Longrightarrow> I (mark_waited ids (d\<lparr>db_waits := db_waits d @ new_waits h c ids\<rparr>))"
    and finish: "\<And>b. keeps_inv I (finish_wait h (wc_id c) b)"
    and suspends: "\<And>d t. I d \<Longrightarrow> I (suspend h c t d)"
  shows "keeps_inv I (enter_wait prep exec h c)"
  unfolding enter_wait_def
proof (rule keeps_monad(5), unfold keeps_inv_def, intro allI impI)
  fix d assume d: "I d"
  let ?start = "case find_group h c d of
      None \<Rightarrow> tx_bind (open_wait prep exec h c) (\<lambda>_. tx_return (int (wc_count c), False))
    | Some g \<Rightarrow> tx_return (gr_remaining g, group_expired g d)"
  have start: "keeps_inv I ?start"
    unfolding open_wait_def by (intro keeps_lift keeps_intros assms(1-3)) simp_all
  have suspended: "keeps_inv I (\<lambda>d'. (Inr WaitSuspended,
      case find_group h c d' of None \<Rightarrow> d' | Some g \<Rightarrow> suspend h c (gr_deadline g) d'))"
    by (auto simp: keeps_inv_def suspends split: option.split)
  have "keeps_inv I (tx_bind ?start (\<lambda>(remaining, expired).
      if remaining = 0 \<or> expired
      then tx_bind (finish_wait h (wc_id c) (remaining = 0)) (\<lambda>j. tx_return (WaitFinished j))
      else (\<lambda>d'. (Inr WaitSuspended,
        case find_group h c d' of None \<Rightarrow> d' | Some g \<Rightarrow> suspend h c (gr_deadline g) d'))))"
    by (intro keeps_intros start finish suspended)
  with d show "I (snd (if owned_row h d = None then (Inl (StepPersistenceError (job_id_text h)), d)
     else tx_bind ?start (\<lambda>(remaining, expired).
      if remaining = 0 \<or> expired
      then tx_bind (finish_wait h (wc_id c) (remaining = 0)) (\<lambda>j. tx_return (WaitFinished j))
      else (\<lambda>d'. (Inr WaitSuspended,
        case find_group h c d' of None \<Rightarrow> d' | Some g \<Rightarrow> suspend h c (gr_deadline g) d'))) d))"
    by (simp add: keeps_inv_def)
qed

lemma keeps_finish_wait:
  assumes "\<And>h e. keeps_inv I (write_checkpoint h i e)" and "\<And>p d. I d \<Longrightarrow> I (delete_groups p d)"
  shows "keeps_inv I (finish_wait h i b)"
  unfolding keeps_inv_def finish_wait_def Let_def
  by (intro allI impI, erule keeps_inv_at [rotated]) (intro keeps_intros assms)

lemma keeps_sweep_lost:
  assumes "\<And>f. keeps_inv I (report_waits f)" and "\<And>ks. keeps_inv I (wake_parents ks)"
  shows "keeps_inv I (sweep_lost busy)"
  unfolding sweep_lost_def
proof (rule keeps_monad(5))
  have reports: "I (snd (tx_bind (tx_bind (report_waits f) wake_parents) (\<lambda>_. tx_return xs) d))"
    if "I d" for f xs d
    by (rule keeps_inv_at [of I _ d, OF _ that]) (intro keeps_intros assms)
  show "keeps_inv I (\<lambda>d. let lost = (\<lambda>w. if busy w then None else lost_report d (wr_child w));
       found = [w \<leftarrow> db_waits d. wr_result w = None \<and> lost w \<noteq> None] in
     tx_bind (tx_bind (report_waits lost) wake_parents) (\<lambda>_. tx_return (map wr_child found)) d)"
    unfolding keeps_inv_def Let_def by (intro allI impI reports)
qed

lemma keeps_sweep:
  assumes "keeps_inv I (sweep_lost busy)" and "\<And>d. I d \<Longrightarrow> I (wake_swallowed d)"
    and "\<And>d. I d \<Longrightarrow> I (drop_orphan_groups d)"
  shows "keeps_inv I (sweep_waits busy)"
  unfolding sweep_waits_def by (intro keeps_intros assms)

lemma keeps_continue:
  assumes "\<And>d r. I d \<Longrightarrow> owned_row h d = Some r \<Longrightarrow> keeps_inv I (aj (continuation_args r t tp pr))"
    and "\<And>d. I d \<Longrightarrow> I (exhaust_owned h d)" and "\<And>d i j. I d \<Longrightarrow> I (move_waits i j d)"
    and "\<And>s. keeps_inv I (settle_job h s)"
  shows "keeps_inv I (continue_job aj h t tp rec pr)"
  unfolding keeps_inv_def
proof (intro allI impI)
  fix d assume d: "I d"
  show "I (snd (continue_job aj h t tp rec pr d))"
  proof (cases "owned_row h d")
    case None
    with d show ?thesis by (simp add: continued.fenced)
  next
    case (Some r)
    show ?thesis
      unfolding continue_job_owned [OF Some]
      by (rule keeps_inv_at [of I _ d, OF _ d]) (intro keeps_intros assms(1) [OF d Some] assms(2-4))
  qed
qed

end
