(* ===== verification/Typing.thy ===== *)
theory Typing
  imports Maintenance Keeping
begin

text \<open>
  The types of what the library stores: every payload is an envelope of version 2 with
  well-formed checkpoints, every outcome names a continuation or an error exactly when its
  state has one, every wait row is finished exactly when it has a result. Every operation keeps
  these types, so what a worker reads it can always decode.
\<close>

section \<open>Types of rows\<close>

definition typed_steps :: "json option \<Rightarrow> bool" where
  "typed_steps v = (case v of
     None \<Rightarrow> True
   | Some (JObj kvs) \<Rightarrow> list_all (\<lambda>(k, e). entry_of_json e \<noteq> None) kvs
   | _ \<Rightarrow> False)"

definition typed_trace :: "json option \<Rightarrow> bool" where
  "typed_trace v = (case v of
     None \<Rightarrow> True | Some (JStr tp) \<Rightarrow> parse_traceparent tp \<noteq> None | _ \<Rightarrow> False)"

definition typed_payload :: "json \<Rightarrow> bool" where
  "typed_payload p \<longleftrightarrow> is_payload_envelope p \<and> typed_steps (json_get ''steps'' p) \<and>
     typed_trace (json_get ''traceparent'' p) \<and>
     json_get ''waited'' p \<in> {None, Some (JBool True)}"

definition typed_outcome :: "outcome_row \<Rightarrow> bool" where
  "typed_outcome row \<longleftrightarrow>
     (oc_continued_to row \<noteq> None \<longleftrightarrow> oc_state row = ContinuedState) \<and>
     (oc_last_error row \<noteq> None \<longleftrightarrow> oc_state row = FailedState)"

definition typed_wait :: "wait_row \<Rightarrow> bool" where
  "typed_wait w \<longleftrightarrow> (wr_result w = None \<longleftrightarrow> wr_finished_at w = None)"

definition typed_db :: "db \<Rightarrow> bool" where
  "typed_db d \<longleftrightarrow> list_all (typed_payload \<circ> jr_payload) (db_jobs d) \<and>
     list_all typed_outcome (db_outcomes d) \<and> list_all typed_wait (db_waits d)"

lemma typed_envelope: "typed_payload p \<Longrightarrow> is_payload_envelope p \<and> is_json_object p"
  by (simp add: typed_payload_def is_payload_envelope_def)

lemma typed_inject [simp]: "typed_payload (inject_trace_context v a)"
  by (auto simp: typed_payload_def typed_steps_def typed_trace_def inject_traceparent
      split: sum.split option.split)

lemma typed_set_progress:
  assumes "typed_payload p" shows "typed_payload (json_set ''progress'' v p)"
  using assms typed_envelope [OF assms] by (simp add: typed_payload_def)

lemma typed_set_waited:
  assumes "typed_payload p" shows "typed_payload (json_set ''waited'' (JBool True) p)"
  using assms typed_envelope [OF assms] by (simp add: typed_payload_def)

lemma typed_entries_update:
  "list_all (\<lambda>(k, e). entry_of_json e \<noteq> None) kvs \<Longrightarrow>
   list_all (\<lambda>(k, e). entry_of_json e \<noteq> None) (AList.update sid (json_of_entry s) kvs)"
  by (induction kvs) auto

lemma typed_patch_step:
  assumes "typed_payload p"
  shows "typed_payload (patch_step sid e p)"
proof -
  have "typed_steps (Some (json_set sid (json_of_entry e)
      (case json_get ''steps'' p of Some (JObj kvs) \<Rightarrow> JObj kvs | _ \<Rightarrow> JObj [])))"
    using assms typed_entries_update
    by (auto simp: typed_payload_def typed_steps_def json_set_JObj split: option.splits json.splits)
  then show ?thesis
    using assms typed_envelope [OF assms] by (simp add: typed_payload_def patch_step_def)
qed

text \<open>The trace parents a continuation is given are empty or well formed.\<close>

definition trace_text :: "string option \<Rightarrow> bool" where
  "trace_text tp = (case tp of None \<Rightarrow> True | Some s \<Rightarrow> s = [] \<or> parse_traceparent s \<noteq> None)"

lemma typed_continuation:
  assumes "typed_payload p" "trace_text tp"
  shows "typed_payload (continuation_payload p tp pr)"
  using assms typed_envelope [OF assms(1)]
  by (auto simp: typed_payload_def typed_trace_def trace_text_def continuation_keeps_envelope
      split: option.splits)

section \<open>Operations that keep the types\<close>

abbreviation typed_tx :: "'a tx \<Rightarrow> bool" where
  "typed_tx \<equiv> keeps_inv typed_db"

lemma typed_jobs_update:
  assumes "typed_db d" "\<And>r. r \<in> set (db_jobs d) \<Longrightarrow> p r \<Longrightarrow> typed_payload (jr_payload r) \<Longrightarrow> typed_payload (jr_payload (f r))"
  shows "typed_db (d\<lparr>db_jobs := update_where p f (db_jobs d)\<rparr>)"
  using assms by (auto simp: typed_db_def list_all_iff set_update_where)

lemma typed_tables [simp]:
  "typed_db (d\<lparr>db_lanes := l\<rparr>) = typed_db d" "typed_db (d\<lparr>db_groups := g\<rparr>) = typed_db d"
  "typed_db (d\<lparr>db_idem := k\<rparr>) = typed_db d" "typed_db (d\<lparr>db_heartbeats := hb\<rparr>) = typed_db d"
  by (simp_all add: typed_db_def)

lemma typed_owned: "typed_db d \<Longrightarrow> owned_row h d = Some r \<Longrightarrow> typed_payload (jr_payload r)"
  by (auto simp: typed_db_def list_all_iff dest: owned_row_Some)

lemma typed_retry [keeps_intros]: "typed_tx (schedule_retry h t)"
  unfolding keeps_inv_def schedule_retry_def Let_def
  by (auto split: option.split intro: typed_jobs_update)

lemma typed_patch:
  "(\<And>p. typed_payload p \<Longrightarrow> typed_payload (f p)) \<Longrightarrow> typed_tx (patch_envelope h f)"
  unfolding keeps_inv_def patch_envelope_def
  by (auto split: option.split intro!: typed_jobs_update dest: typed_owned)

lemma typed_checkpoint [keeps_intros]: "typed_tx (write_checkpoint h sid e)"
  unfolding write_checkpoint_def by (intro typed_patch typed_patch_step)

lemma typed_progress [keeps_intros]: "typed_tx (write_progress h v)"
  unfolding write_progress_def by (intro typed_patch typed_set_progress)

lemma typed_new_outcome [simp]: "typed_outcome (new_outcome oc r now)"
  by (cases oc) (simp_all add: typed_outcome_def new_outcome_def)

lemma typed_outcome_frame [simp]:
  "typed_outcome (row\<lparr>oc_task := t, oc_created_at := c\<rparr>) = typed_outcome row"
  by (simp add: typed_outcome_def)

lemma typed_record: "typed_db d \<Longrightarrow> typed_db (record_outcome oc r d)"
  by (auto simp: typed_db_def record_outcome_def upsert_outcome_def list_all_iff set_update_where
      split: option.split)

lemma typed_reporting [keeps_intros]: "typed_tx (report_waits f)" "typed_tx (wake_parents ks)"
  by (auto simp: keeps_inv_def report_waits_def wake_parents_def typed_db_def typed_wait_def list_all_iff
      set_update_where Let_def)

lemma typed_report [keeps_intros]: "typed_tx (report_child rep i)"
  unfolding report_child_def by (intro keeps_intros)

lemma typed_settle_row: "typed_db d \<Longrightarrow> typed_db (settle_own_row row h r d)"
  by (auto simp: settle_own_row_def typed_db_def list_all_iff set_update_where set_delete_where split: settle_row.split)

lemma typed_settle [keeps_intros]: "typed_tx (settle_job h s)"
  unfolding settle_job_def
proof (rule keeps_monad(5))
  show "typed_tx (\<lambda>d. case owned_row h d of None \<Rightarrow> (Inr False, d)
     | Some r \<Rightarrow> (case report_child (st_report s) (jr_id r) (record_outcome (st_outcome s) r d) of
          (Inl e, d') \<Rightarrow> (Inl e, d') | (Inr _, d') \<Rightarrow> (Inr True, settle_own_row (st_row s) h r d')))"
    unfolding keeps_inv_def
    by (auto split: option.split prod.split sum.split intro: typed_settle_row
        dest: typed_record keeps_invD [OF typed_report])
qed

section \<open>What Graphile stores\<close>

text \<open>Graphile stores the payloads it is given.\<close>

definition typed_add_job :: "add_job_fn \<Rightarrow> bool" where
  "typed_add_job aj \<longleftrightarrow> (\<forall>a. typed_payload (aa_payload a) \<longrightarrow> typed_tx (aj a))"

definition typed_backend :: "backend \<Rightarrow> bool" where
  "typed_backend b \<longleftrightarrow> typed_add_job (be_add_job b) \<and>
     (\<forall>specs preserve. list_all (typed_payload \<circ> js_payload) specs \<longrightarrow> typed_tx (be_add_jobs b specs preserve))"

lemma typed_added: "typed_add_job aj \<Longrightarrow> typed_payload (aa_payload a) \<Longrightarrow> typed_tx (aj a)"
  by (simp add: typed_add_job_def)

lemma typed_exhaust: "typed_db d \<Longrightarrow> typed_db (exhaust_owned h d)"
  by (simp add: exhaust_owned_def typed_jobs_update)

lemma typed_move: "typed_db d \<Longrightarrow> typed_db (move_waits a b d)"
  by (auto simp: move_waits_def typed_db_def typed_wait_def list_all_iff set_update_where)

lemma typed_continue:
  assumes "typed_add_job aj" "trace_text tp"
  shows "typed_tx (continue_job aj h t tp rec pr)"
  using typed_continuation [OF typed_owned assms(2)]
  by (intro keeps_continue typed_added [OF assms(1)] typed_exhaust typed_move typed_settle)
     (simp_all add: continuation_args_def)

section \<open>Waits\<close>

lemma typed_mark: "typed_db d \<Longrightarrow> typed_db (mark_waited ids d)"
  unfolding mark_waited_def by (rule typed_jobs_update) (simp_all add: typed_set_waited)

lemma typed_new_waits: "typed_db d \<Longrightarrow> typed_db (d\<lparr>db_waits := db_waits d @ new_waits h c ids\<rparr>)"
  by (auto simp: typed_db_def new_waits_def typed_wait_def list_all_iff)

lemma typed_delete_groups: "typed_db d \<Longrightarrow> typed_db (delete_groups p d)"
  by (auto simp: delete_groups_def typed_db_def list_all_iff set_delete_where)

lemma typed_finish_wait: "typed_tx (finish_wait h i b)"
  by (intro keeps_finish_wait typed_checkpoint typed_delete_groups)

lemma typed_suspend: "typed_db d \<Longrightarrow> typed_db (suspend h c t d)"
  by (simp add: suspend_def Let_def typed_jobs_update)

lemma typed_enter_wait:
  assumes "\<And>p. prep = Inr (Some p) \<Longrightarrow> typed_tx (exec p)"
  shows "typed_tx (enter_wait prep exec h c)"
  by (intro keeps_enter_wait assms typed_mark typed_new_waits typed_finish_wait typed_suspend) simp_all

lemma typed_sweep_lost: "typed_tx (sweep_lost busy)"
  by (intro keeps_sweep_lost typed_reporting)

lemma typed_sweep_rest: "typed_db d \<Longrightarrow> typed_db (wake_swallowed d)" "typed_db d \<Longrightarrow> typed_db (drop_orphan_groups d)"
  by (simp_all add: wake_swallowed_def typed_jobs_update drop_orphan_groups_def typed_delete_groups)

lemma typed_sweep: "typed_tx (sweep_waits busy)"
  by (intro keeps_sweep typed_sweep_lost typed_sweep_rest)

section \<open>Maintenance\<close>

lemma typed_sweep_dead [keeps_intros]: "typed_tx (sweep_dead_workers busy stale sweeper)"
proof -
  have "typed_db (snd (release_jobs_locked_by ws d))" if "typed_db d" for ws d
    using that by (auto simp: release_jobs_locked_by_def typed_db_def list_all_iff set_update_where)
  then show ?thesis
    by (simp add: keeps_inv_def sweep_dead_result Let_def)
qed

lemma typed_prune_outcomes: "typed_db d \<Longrightarrow> typed_db (prune_job_outcomes busy t d)"
  by (auto simp: prune_job_outcomes_def typed_db_def list_all_iff set_delete_where)

lemma typed_prune_keys: "typed_db d \<Longrightarrow> typed_db (prune_idempotency_keys busy d)"
  by (simp add: prune_idempotency_keys_def)

lemma keeps_attempt_step:
  "keeps_inv I work \<Longrightarrow> I d \<Longrightarrow> I (snd (attempt_step event how work news d))"
  by (auto simp: attempt_step_def keeps_inv_def split: fate.split prod.split sum.split)

lemma keeps_pass:
  assumes "I d" "\<And>busy stale w. keeps_inv I (sweep_dead_workers busy stale w)"
    and "\<And>busy. keeps_inv I (sweep_waits busy)"
    and "\<And>busy t d. I d \<Longrightarrow> I (prune_job_outcomes busy t d)"
    and "\<And>busy d. I d \<Longrightarrow> I (prune_idempotency_keys busy d)"
  shows "I (snd (maintenance_pass opts lk ft d))"
proof -
  have steps: "I (snd (case v of None \<Rightarrow> ([], d) | Some x \<Rightarrow> attempt_step event how (work x) news d))"
    if "I d" "\<And>x. keeps_inv I (work x)" for v event how news d and work :: "'a \<Rightarrow> 'b tx"
    using that by (cases v) (auto intro: keeps_attempt_step [of I])
  show ?thesis
    unfolding maintenance_pass_def Let_def case_prod_beta snd_conv
    by (intro keeps_attempt_step [of I] steps keeps_monad(6) [of I] assms)
qed

section \<open>Enqueueing\<close>

lemma typed_enqueue:
  assumes "typed_backend b"
  shows "enqueue_keeps typed_db typed_payload b"
proof -
  have "typed_tx (claim_key q k t)" for q k t
    by (auto simp: keeps_inv_def claim_key_def split: option.split)
  with assms show ?thesis
    by (simp add: enqueue_keeps_def typed_backend_def typed_add_job_def record_key_def)
qed

section \<open>Every operation\<close>

text \<open>
  What may happen to the database: every operation of the library, over a Graphile that stores
  what it is given, and what only moves, changes the scheduling of, or deletes jobs. A maintenance
  pass may run at once or be cut into its statements, with others between them.
\<close>

definition library_tables ::
  "db \<Rightarrow> outcome_row list \<times> group_row list \<times> wait_row list \<times> idem_row list \<times> heartbeat_row list" where
  "library_tables d = (db_outcomes d, db_groups d, db_waits d, db_idem d, db_heartbeats d)"

definition wait_prepared :: "prepared_job option res \<Rightarrow> bool" where
  "wait_prepared prep \<longleftrightarrow> (\<forall>p. prep = Inr (Some p) \<longrightarrow> (\<exists>(st :: unit settings) name data opts mode items.
     prepare_one st name data opts mode = Inr p \<or> prepare_many st name items opts = Inr p))"

inductive library_step :: "backend \<Rightarrow> db \<Rightarrow> db \<Rightarrow> bool" for b where
  enqueue: "enqueue_one (st :: unit settings) (client_adapter b schema) name data opts cron d = (r1, d') \<Longrightarrow> library_step b d d'"
| enqueue_batch: "enqueue_many (st :: unit settings) (client_adapter b schema) name items opts d = (r2, d') \<Longrightarrow> library_step b d d'"
| prepared: "prepare_one (st :: unit settings) name data opts mode = Inr p \<or> prepare_many st name items opts = Inr p \<Longrightarrow>
    run_statement b (pj_statement p) d = (r3, d') \<Longrightarrow> library_step b d d'"
| checkpoint: "write_checkpoint h sid e d = (r4, d') \<Longrightarrow> library_step b d d'"
| progress: "write_progress h v d = (r4, d') \<Longrightarrow> library_step b d d'"
| retry: "schedule_retry h t d = (r5, d') \<Longrightarrow> library_step b d d'"
| continue: "trace_text tp \<Longrightarrow> continue_job (be_add_job b) h run_at tp rec pr d = (r6, d') \<Longrightarrow> library_step b d d'"
| wait: "wait_prepared prep \<Longrightarrow> enter_wait prep (run_statement b \<circ> pj_statement) h c d = (r7, d') \<Longrightarrow> library_step b d d'"
| settle: "settle_job h s d = (r8, d') \<Longrightarrow> library_step b d d'"
| heartbeat: "library_step b d (snd (beat_row worker d))"
| maintenance: "library_step b d (snd (maintenance_pass mopts lk ft d))"
| release: "library_step b d (snd (sweep_dead_workers held stale sweeper d))"
| lost: "library_step b d (snd (sweep_lost busy d))"
| wake: "library_step b d (wake_swallowed d)"
| orphans: "library_step b d (drop_orphan_groups d)"
| cron: "jr_payload r = json_set ''_cron'' c (inject_trace_context None (Inr None)) \<Longrightarrow>
    library_step b d (d\<lparr>db_jobs := db_jobs d @ [r]\<rparr>)"
| graphile: "jr_payload ` set (db_jobs d') \<subseteq> jr_payload ` set (db_jobs d) \<Longrightarrow>
    library_tables d' = library_tables d \<Longrightarrow> library_step b d d'"

lemma typed_library_step:
  assumes "typed_backend b" "library_step b d d'" "typed_db d"
  shows "typed_db d'"
  using assms(2,3)
proof (induction rule: library_step.induct)
  case (prepared st name data opts mode p items d r3 d')
  then show ?case
    using keeps_prepared [OF typed_enqueue [OF assms(1)]] keeps_invD by blast
next
  case (continue tp h run_at rec pr d r6 d')
  then show ?case
    using typed_continue [of "be_add_job b" tp h run_at rec pr] assms(1) keeps_invD
    by (auto simp: typed_backend_def)
next
  case (wait prep h c d r7 d')
  have "typed_tx (run_statement b (pj_statement p))" if "prep = Inr (Some p)" for p
    using keeps_prepared [OF typed_enqueue [OF assms(1)]] wait(1) that by (fastforce simp: wait_prepared_def)
  then show ?case using keeps_invD [OF typed_enter_wait wait(3,2)] by simp
next
  case (heartbeat d worker)
  then show ?case by (simp add: beat_row_def)
next
  case maintenance
  then show ?case by (rule keeps_pass [of typed_db, OF _ typed_sweep_dead typed_sweep typed_prune_outcomes typed_prune_keys])
next
  case release
  then show ?case by (rule keeps_inv_at [OF typed_sweep_dead])
next
  case lost
  then show ?case by (rule keeps_inv_at [OF typed_sweep_lost])
next
  case wake
  then show ?case by (rule typed_sweep_rest)
next
  case orphans
  then show ?case by (rule typed_sweep_rest)
next
  case (cron r c d)
  have "typed_payload (json_set ''_cron'' c (inject_trace_context None (Inr None)))"
    using typed_inject [of None "Inr None"] typed_envelope [OF typed_inject [of None "Inr None"]]
    by (simp add: typed_payload_def)
  with cron show ?case by (simp add: typed_db_def)
next
  case (graphile d' d)
  then show ?case by (fastforce simp: library_tables_def typed_db_def list_all_iff)
qed (blast intro: keeps_invD [OF keeps_enqueue(1) [OF typed_enqueue [OF assms(1)]]] keeps_invD [OF keeps_enqueue(2) [OF typed_enqueue [OF assms(1)]]]
    keeps_invD [OF typed_checkpoint] keeps_invD [OF typed_progress] keeps_invD [OF typed_retry] keeps_invD [OF typed_settle])+

section \<open>Whatever is stored can be read\<close>

lemma typed_entries_kept:
  "list_all (\<lambda>(k, e). entry_of_json e \<noteq> None) kvs \<Longrightarrow> map fst (step_entries kvs) = map fst kvs"
  by (induction kvs) auto

lemma typed_payload_read:
  assumes "typed_payload p"
  shows "extract_producer_link p =
      Inr (case json_get ''traceparent'' p of Some (JStr tp) \<Rightarrow> parse_traceparent tp | _ \<Rightarrow> None, clean_payload p)"
    and "\<exists>cache. extract_step_cache p = Inr cache \<and>
      map fst cache = (case json_get ''steps'' p of Some (JObj kvs) \<Rightarrow> map fst kvs | _ \<Rightarrow> [])"
  using assms typed_entries_kept
  by (auto simp: extract_producer_link_def extract_step_cache_def assert_payload_envelope_def
      typed_payload_def typed_steps_def res_simps split: option.splits json.splits)

text \<open>
  C8 A worker can read whatever is stored. Over a Graphile that stores what it is given, every
  database the operations of the library lead to, in any order and number, is well typed: the
  worker's reader accepts every job and finds all of its checkpoints, a stored trace parent gives
  a trace link, an outcome names a continuation or an error exactly when its state has one, and
  a wait is finished exactly when it has a result.
\<close>

theorem stored_rows_readable:
  assumes "typed_backend b" and "typed_db d" and "(library_step b)\<^sup>*\<^sup>* d d'"
  shows "typed_db d' \<and>
    list_all (\<lambda>r. \<exists>link cache. extract_producer_link (jr_payload r) = Inr (link, clean_payload (jr_payload r)) \<and>
        (link \<noteq> None \<longleftrightarrow> json_get ''traceparent'' (jr_payload r) \<noteq> None) \<and>
        extract_step_cache (jr_payload r) = Inr cache \<and>
        map fst cache = (case json_get ''steps'' (jr_payload r) of Some (JObj kvs) \<Rightarrow> map fst kvs | _ \<Rightarrow> []))
      (db_jobs d') \<and>
    list_all (\<lambda>row. (oc_continued_to row \<noteq> None \<longleftrightarrow> oc_state row = ContinuedState) \<and>
        (oc_last_error row \<noteq> None \<longleftrightarrow> oc_state row = FailedState)) (db_outcomes d') \<and>
    list_all (\<lambda>w. wr_result w = None \<longleftrightarrow> wr_finished_at w = None) (db_waits d')"
proof -
  have typed: "typed_db d'"
    using assms(3,2) by (induction rule: rtranclp_induct) (auto intro: typed_library_step [OF assms(1)])
  have "\<exists>link cache. extract_producer_link p = Inr (link, clean_payload p) \<and>
      (link \<noteq> None \<longleftrightarrow> json_get ''traceparent'' p \<noteq> None) \<and> extract_step_cache p = Inr cache \<and>
      map fst cache = (case json_get ''steps'' p of Some (JObj kvs) \<Rightarrow> map fst kvs | _ \<Rightarrow> [])"
    if p: "typed_payload p" for p
  proof -
    have "typed_trace (json_get ''traceparent'' p)" using p by (simp add: typed_payload_def)
    then have "(case json_get ''traceparent'' p of Some (JStr tp) \<Rightarrow> parse_traceparent tp | _ \<Rightarrow> None) \<noteq> None \<longleftrightarrow>
        json_get ''traceparent'' p \<noteq> None"
      by (auto simp: typed_trace_def split: option.splits json.splits)
    with typed_payload_read [OF p] show ?thesis by blast
  qed
  with typed show ?thesis
    by (simp add: typed_db_def list_all_iff typed_outcome_def [abs_def] typed_wait_def [abs_def])
qed

lemma typed_sample_backend: "typed_backend sample_backend"
  by (auto simp: typed_backend_def typed_add_job_def keeps_inv_def sample_backend_def sample_add_job_def
      typed_db_def added_row_def)

text \<open>A checkpoint of the running job, then an enqueue, then the end of the run.\<close>

theorem stored_rows_readable_witness:
  "\<exists>d1 d2 d3.
    write_checkpoint (helpers_of sample_job) ''a'' StepVoid sample_db = (Inr (), d1) \<and>
    enqueue_one sample_settings (client_adapter sample_backend ''graphile_worker'') ''mail'' ([], GNull) None False d1 = (Inr (Some 8), d2) \<and>
    settle_job (helpers_of sample_job) \<lparr>st_outcome = Some (OutcomeFailed ''no''), st_report = None, st_row = RowDelete\<rparr> d2 = (Inr True, d3) \<and>
    map jr_id (db_jobs d3) = [8] \<and> map oc_state (db_outcomes d3) = [FailedState] \<and> typed_db d3"
proof -
  let ?w = "write_checkpoint (helpers_of sample_job) ''a'' StepVoid sample_db"
  let ?e = "enqueue_one sample_settings (client_adapter sample_backend ''graphile_worker'') ''mail'' ([], GNull) None False (snd ?w)"
  let ?s = "settle_job (helpers_of sample_job) \<lparr>st_outcome = Some (OutcomeFailed ''no''), st_report = None, st_row = RowDelete\<rparr> (snd ?e)"
  have results: "fst ?w = Inr ()" "fst ?e = Inr (Some 8)" "fst ?s = Inr True"
      "map jr_id (db_jobs (snd ?s)) = [8]" "map oc_state (db_outcomes (snd ?s)) = [FailedState]"
    by (code_simp+)
  then have eqs: "?w = (Inr (), snd ?w)" "?e = (Inr (Some 8), snd ?e)" "?s = (Inr True, snd ?s)"
    by (metis prod.collapse)+
  have "library_step sample_backend sample_db (snd ?w)" "library_step sample_backend (snd ?w) (snd ?e)"
      "library_step sample_backend (snd ?e) (snd ?s)"
    using library_step.checkpoint [OF eqs(1)] library_step.enqueue [OF eqs(2)] library_step.settle [OF eqs(3)] by blast+
  then have run: "(library_step sample_backend)\<^sup>*\<^sup>* sample_db (snd ?s)" by (meson rtranclp.intros)
  have "typed_db sample_db" by code_simp
  from stored_rows_readable [OF typed_sample_backend this run] have "typed_db (snd ?s)" by blast
  with eqs results show ?thesis
    by (intro exI [of _ "snd ?w"] exI [of _ "snd ?e"] exI [of _ "snd ?s"] conjI)
qed

end
