(* ===== verification/Constraints.thy ===== *)
theory Constraints
  imports Typing
begin

text \<open>
  The constraints that the library's tables declare (\<open>waitTablesSql\<close> of \<^verbatim>\<open>src/src/waits.ts\<close>,
  \<open>outcomeTablesSql\<close> of \<^verbatim>\<open>src/src/job-outcomes.ts\<close>, \<open>idempotencyTablesSql\<close> of
  \<^verbatim>\<open>src/src/enqueue-sql.ts\<close>, \<open>heartbeatTableSql\<close> of \<^verbatim>\<open>src/src/maintenance.ts\<close>): primary
  keys, checks and the foreign key. The types of the columns and \<open>NOT NULL\<close> are the types of the
  rows. No statement of the library can violate them, so none fails on them.
\<close>

section \<open>The constraints\<close>

definition wait_tables_ok :: "db \<Rightarrow> bool" where
  "wait_tables_ok d \<longleftrightarrow>
     distinct (map group_key (db_groups d)) \<and> list_all (\<lambda>g. 0 \<le> gr_remaining g) (db_groups d) \<and>
     distinct (map (\<lambda>w. (wait_key w, wr_idx w)) (db_waits d)) \<and>
     list_all (\<lambda>w. list_ex (\<lambda>g. group_key g = wait_key w) (db_groups d)) (db_waits d)"

definition outcome_table_ok :: "db \<Rightarrow> bool" where
  "outcome_table_ok d \<longleftrightarrow> distinct (map oc_job_id (db_outcomes d)) \<and>
     list_all (\<lambda>row. (oc_state row = ContinuedState) = (oc_continued_to row \<noteq> None)) (db_outcomes d)"

definition idem_table_ok :: "db \<Rightarrow> bool" where
  "idem_table_ok d \<longleftrightarrow> distinct (map (\<lambda>k. (ik_queue k, ik_key k)) (db_idem d))"

definition heartbeat_table_ok :: "db \<Rightarrow> bool" where
  "heartbeat_table_ok d \<longleftrightarrow> distinct (map hb_worker (db_heartbeats d))"

definition constraints_ok :: "db \<Rightarrow> bool" where
  "constraints_ok d \<longleftrightarrow> wait_tables_ok d \<and> outcome_table_ok d \<and> idem_table_ok d \<and> heartbeat_table_ok d"

text \<open>
  The constraints of the wait tables follow from the stronger invariant that groups count their
  pending children; the other three are kept on their own.
\<close>

lemma wait_inv_tables: "wait_inv d \<Longrightarrow> wait_tables_ok d"
  by (fastforce simp: wait_inv_def wait_tables_ok_def list_all_iff list_ex_iff)

definition other_tables_ok :: "db \<Rightarrow> bool" where
  "other_tables_ok d \<longleftrightarrow> outcome_table_ok d \<and> idem_table_ok d \<and> heartbeat_table_ok d"

lemmas other_tables_defs = other_tables_ok_def outcome_table_ok_def idem_table_ok_def heartbeat_table_ok_def

abbreviation keeps_others :: "'a tx \<Rightarrow> bool" where
  "keeps_others \<equiv> keeps_inv other_tables_ok"

lemma others_frame [simp]:
  "other_tables_ok (d\<lparr>db_jobs := x\<rparr>) = other_tables_ok d"
  "other_tables_ok (d\<lparr>db_lanes := l\<rparr>) = other_tables_ok d"
  "other_tables_ok (d\<lparr>db_groups := g\<rparr>) = other_tables_ok d"
  "other_tables_ok (d\<lparr>db_waits := w\<rparr>) = other_tables_ok d"
  by (simp_all add: other_tables_defs)

section \<open>Outcomes, keys and heartbeats\<close>

lemma upsert_keys:
  "distinct (map oc_job_id os) \<Longrightarrow> distinct (map oc_job_id (upsert_outcome row os))"
proof -
  assume distinct: "distinct (map oc_job_id os)"
  have "map oc_job_id (update_where (\<lambda>x. oc_job_id x = oc_job_id row)
      (\<lambda>x. row\<lparr>oc_task := oc_task x, oc_created_at := oc_created_at x\<rparr>) os) = map oc_job_id os"
    by (rule map_update_where) simp
  with distinct show ?thesis by (auto simp: upsert_outcome_def list_ex_iff)
qed

lemma others_record:
  assumes "other_tables_ok d"
  shows "other_tables_ok (record_outcome oc r d)"
proof (cases oc)
  case (Some x)
  have "(oc_state row = ContinuedState) = (oc_continued_to row \<noteq> None)"
    if "row \<in> set (upsert_outcome (new_outcome x r now) os)"
      "\<forall>row\<in>set os. (oc_state row = ContinuedState) = (oc_continued_to row \<noteq> None)" for row now os
    using that by (cases x) (auto simp: upsert_outcome_def set_update_where new_outcome_def split: if_splits)
  with assms Some show ?thesis
    by (auto simp: other_tables_defs record_outcome_def upsert_keys list_all_iff)
qed (use assms in \<open>simp add: record_outcome_def\<close>)

lemma others_settle_row [simp]: "other_tables_ok (settle_own_row row h r d) = other_tables_ok d"
  by (simp add: settle_own_row_def split: settle_row.split)

lemma others_reporting: "keeps_others (report_waits f)" "keeps_others (wake_parents ks)"
  by (auto simp: report_waits_def wake_parents_def keeps_inv_def Let_def)

lemma others_settle [keeps_intros]: "keeps_others (settle_job h s)"
proof -
  have report: "keeps_others (report_child rep i)" for rep i
    unfolding report_child_def by (intro keeps_intros others_reporting)
  show ?thesis
    unfolding settle_job_def
    by (rule keeps_monad(5), unfold keeps_inv_def)
       (auto split: option.split prod.split sum.split dest: others_record keeps_invD [OF report])
qed

lemma others_key [keeps_intros]: "keeps_others (claim_key q k t)"
  unfolding keeps_inv_def
  by (auto simp: claim_key_def other_tables_defs map_update_where find_row_None idem_match_def
      split: option.split)

lemma others_record_key: "other_tables_ok d \<Longrightarrow> other_tables_ok (record_key q k i d)"
  by (simp add: record_key_def other_tables_defs map_update_where)

lemma others_beat: "other_tables_ok d \<Longrightarrow> other_tables_ok (snd (beat_row worker d))"
  by (auto simp: beat_row_def other_tables_defs map_update_where list_ex_iff)

lemma others_prune:
  "other_tables_ok d \<Longrightarrow> other_tables_ok (prune_job_outcomes busy t d)"
  "other_tables_ok d \<Longrightarrow> other_tables_ok (prune_idempotency_keys busy' d)"
  by (auto simp: prune_job_outcomes_def prune_idempotency_keys_def other_tables_defs list_all_iff
      set_delete_where intro: distinct_map_delete_where)

lemma others_sweep_dead [keeps_intros]: "keeps_others (sweep_dead_workers busy stale sweeper)"
  unfolding keeps_inv_def
  by (auto simp: sweep_dead_result Let_def release_jobs_locked_by_def other_tables_defs
      intro: distinct_map_delete_where)

section \<open>Jobs and waits\<close>

lemma others_patch [keeps_intros]:
  "keeps_others (patch_envelope h f)" "keeps_others (schedule_retry h t)"
  by (auto simp: keeps_inv_def patch_envelope_def schedule_retry_def Let_def split: option.split)

lemma others_writes [keeps_intros]:
  "keeps_others (write_checkpoint h sid e)" "keeps_others (write_progress h v)"
  by (simp_all add: write_checkpoint_def write_progress_def others_patch)

lemma others_jobs [simp]:
  "other_tables_ok (exhaust_owned h d) = other_tables_ok d"
  "other_tables_ok (move_waits i j d) = other_tables_ok d"
  "other_tables_ok (mark_waited ids d) = other_tables_ok d"
  "other_tables_ok (suspend h c t d) = other_tables_ok d"
  "other_tables_ok (delete_groups p d) = other_tables_ok d"
  "other_tables_ok (wake_swallowed d) = other_tables_ok d"
  "other_tables_ok (drop_orphan_groups d) = other_tables_ok d"
  by (simp_all add: exhaust_owned_def move_waits_def mark_waited_def suspend_def Let_def
      delete_groups_def wake_swallowed_def drop_orphan_groups_def)

lemma others_continue:
  assumes "\<And>a. keeps_others (aj a)"
  shows "keeps_others (continue_job aj h t tp rec pr)"
  by (intro keeps_continue assms others_settle) simp_all

lemma others_enter_wait:
  assumes "\<And>p. prep = Inr (Some p) \<Longrightarrow> keeps_others (exec p)"
  shows "keeps_others (enter_wait prep exec h c)"
  by (intro keeps_enter_wait keeps_finish_wait others_writes assms) simp_all

lemma others_sweep: "keeps_others (sweep_lost busy)" "keeps_others (sweep_waits busy)"
proof -
  show lost: "keeps_others (sweep_lost busy)" by (intro keeps_sweep_lost others_reporting)
  show "keeps_others (sweep_waits busy)" by (intro keeps_sweep lost) simp_all
qed

lemma others_pass: "other_tables_ok d \<Longrightarrow> other_tables_ok (snd (maintenance_pass opts lk ft d))"
  by (rule keeps_pass [of other_tables_ok, OF _ others_sweep_dead others_sweep(2) others_prune])

section \<open>Graphile and the library's tables\<close>

text \<open>Graphile knows nothing of the library's tables.\<close>

definition backend_keeps_tables :: "backend \<Rightarrow> bool" where
  "backend_keeps_tables b \<longleftrightarrow>
     (\<forall>a d. library_tables (snd (be_add_job b a d)) = library_tables d) \<and>
     (\<forall>specs preserve d. library_tables (snd (be_add_jobs b specs preserve d)) = library_tables d)"

lemma backend_keeps:
  assumes "backend_keeps_tables b" and "\<And>d d'. library_tables d' = library_tables d \<Longrightarrow> I d \<Longrightarrow> I d'"
    and "\<And>q k t. keeps_inv I (claim_key q k t)" and "\<And>q k i d. I d \<Longrightarrow> I (record_key q k i d)"
  shows "enqueue_keeps I (\<lambda>_. True) b"
  using assms(1,3,4) assms(2)
  unfolding enqueue_keeps_def keeps_inv_def backend_keeps_tables_def by blast

lemma others_enqueue:
  assumes "backend_keeps_tables b"
  shows "enqueue_keeps other_tables_ok (\<lambda>_. True) b"
proof (rule backend_keeps [OF assms _ others_key others_record_key])
  show "other_tables_ok d'" if "library_tables d' = library_tables d" "other_tables_ok d" for d d'
    using that by (simp add: library_tables_def other_tables_defs)
qed

text \<open>Enqueueing leaves the two wait tables as they are.\<close>

lemma waits_enqueue:
  assumes "backend_keeps_tables b"
  shows "enqueue_keeps (\<lambda>d. db_groups d = gs \<and> db_waits d = ws) (\<lambda>_. True) b"
  by (rule backend_keeps [OF assms])
     (auto simp: library_tables_def keeps_inv_def claim_key_def record_key_def split: option.split)

lemma waits_kept:
  assumes "\<And>gs ws. keeps_inv (\<lambda>d. db_groups d = gs \<and> db_waits d = ws) m"
  shows "keeps_wait_tables m"
  using assms by (auto simp: keeps_wait_tables_def keeps_inv_def)

lemma waits_statements:
  assumes "backend_keeps_tables b"
  shows "keeps_wait_tables (run_statement b stmt)" "keeps_wait_tables (be_add_job b a)"
    "keeps_wait_tables (enqueue_one st (client_adapter b schema) name data opts cron)"
    "keeps_wait_tables (enqueue_many st (client_adapter b schema) name items opts)"
proof -
  note kept = waits_enqueue [OF assms]
  show "keeps_wait_tables (run_statement b stmt)"
    by (rule waits_kept, rule keeps_statement [OF kept]) (simp add: list_all_iff)
  show "keeps_wait_tables (be_add_job b a)"
    using assms by (simp add: backend_keeps_tables_def keeps_wait_tables_def library_tables_def)
  show "keeps_wait_tables (enqueue_one st (client_adapter b schema) name data opts cron)"
    "keeps_wait_tables (enqueue_many st (client_adapter b schema) name items opts)"
    by (rule waits_kept, rule keeps_enqueue [OF kept])+
qed

lemma waits_frame [simp]:
  "wait_inv (d\<lparr>db_outcomes := x\<rparr>) = wait_inv d" "wait_inv (d\<lparr>db_idem := k\<rparr>) = wait_inv d"
  "wait_inv (d\<lparr>db_heartbeats := hb\<rparr>) = wait_inv d" "wait_inv (d\<lparr>db_jobs := r\<rparr>) = wait_inv d"
  by (simp_all add: wait_inv_def pending_waits_def)

lemma keeps_wait_inv: "keeps_wait_tables m \<Longrightarrow> wait_inv d \<Longrightarrow> m d = (r, d') \<Longrightarrow> wait_inv d'"
  using keeps_wait_tablesD wait_inv_cong by metis

lemma waits_pass: "wait_inv d \<Longrightarrow> wait_inv (snd (maintenance_pass opts lk ft d))"
proof (rule keeps_pass [of wait_inv])
  show "keeps_inv wait_inv (sweep_waits busy)" for busy
    by (simp add: keeps_inv_def sweep_waits_result swept_db_inv)
  show "keeps_inv wait_inv (sweep_dead_workers busy stale w)" for busy stale w
    by (auto simp: keeps_inv_def sweep_dead_result Let_def intro: wait_inv_cong [THEN iffD2])
qed (simp_all add: prune_job_outcomes_def prune_idempotency_keys_def)

section \<open>Every operation\<close>

lemma library_step_waits:
  assumes "backend_keeps_tables b" "library_step b d d'" "wait_inv d"
  shows "wait_inv d'"
  using assms(2,3)
proof (induction rule: library_step.induct)
  case (prepared st name data opts mode p items d r3 d')
  then show ?case using keeps_wait_inv [OF waits_statements(1) [OF assms(1)]] by blast
next
  case (continue tp h run_at rec pr d r6 d')
  then show ?case using continue_job_inv waits_statements(2) [OF assms(1)] by blast
next
  case (wait prep h c d r7 d')
  from enter_wait_inv [OF wait(3) _ wait(2)] waits_statements(1) [OF assms(1)] show ?case by simp
next
  case settle
  then show ?case by (blast intro: settle_job_inv)
next
  case (heartbeat d worker)
  then show ?case by (simp add: beat_row_def)
next
  case maintenance
  then show ?case by (rule waits_pass)
next
  case release
  then show ?case by (auto simp: sweep_dead_result Let_def intro: wait_inv_cong [THEN iffD2])
next
  case (lost busy d)
  then show ?case by (simp add: sweep_lost_result sweep_statements_inv)
next
  case (graphile d' d)
  then show ?case using wait_inv_cong [of d' d] by (simp add: library_tables_def)
qed (auto simp: sweep_statements_inv keeps_checkpoint keeps_retry write_progress_def keeps_patch
    intro: keeps_wait_inv [OF waits_statements(3) [OF assms(1)]] keeps_wait_inv [OF waits_statements(4) [OF assms(1)]]
      keeps_wait_inv [OF keeps_checkpoint] keeps_wait_inv [OF keeps_patch] keeps_wait_inv [OF keeps_retry])

lemma library_step_others:
  assumes "backend_keeps_tables b" "library_step b d d'" "other_tables_ok d"
  shows "other_tables_ok d'"
  using assms(2,3)
proof (induction rule: library_step.induct)
  case (prepared st name data opts mode p items d r3 d')
  then show ?case using keeps_invD [OF keeps_prepared [OF others_enqueue [OF assms(1)]]] by blast
next
  case (continue tp h run_at rec pr d r6 d')
  have "keeps_others (be_add_job b a)" for a
    using others_enqueue [OF assms(1)] by (simp add: enqueue_keeps_def)
  from keeps_invD [OF others_continue [OF this] continue(3,2)] show ?case .
next
  case (wait prep h c d r7 d')
  have "keeps_others (run_statement b (pj_statement p))" if "prep = Inr (Some p)" for p
    using keeps_prepared [OF others_enqueue [OF assms(1)]] wait(1) that by (fastforce simp: wait_prepared_def)
  then show ?case using keeps_invD [OF others_enter_wait wait(3,2)] by simp
next
  case heartbeat
  then show ?case by (rule others_beat)
next
  case maintenance
  then show ?case by (rule others_pass)
next
  case release
  then show ?case by (rule keeps_inv_at [OF others_sweep_dead])
next
  case lost
  then show ?case by (rule keeps_inv_at [OF others_sweep(1)])
next
  case (graphile d' d)
  then show ?case by (simp add: library_tables_def other_tables_defs)
qed (auto intro: keeps_invD [OF keeps_enqueue(1) [OF others_enqueue [OF assms(1)]]]
    keeps_invD [OF keeps_enqueue(2) [OF others_enqueue [OF assms(1)]]]
    keeps_invD [OF others_writes(1)] keeps_invD [OF others_writes(2)]
    keeps_invD [OF others_patch(2)] keeps_invD [OF others_settle])

text \<open>
  C9 The constraints that the tables declare hold of whatever the library does to them: from the
  empty tables, over a Graphile that leaves them alone, every sequence of the library's
  operations keeps every primary key unique, every count of children at least zero, every wait in
  its group, and a continuation named exactly by the outcomes that continued. So no statement of
  the library is refused for a constraint.
\<close>

theorem constraints_hold:
  assumes "backend_keeps_tables b" and "library_tables d = ([], [], [], [], [])"
    and "(library_step b)\<^sup>*\<^sup>* d d'"
  shows "constraints_ok d'"
proof -
  have "wait_inv d \<and> other_tables_ok d"
    using assms(2) by (simp add: library_tables_def wait_inv_def other_tables_defs)
  with assms(3) have "wait_inv d' \<and> other_tables_ok d'"
    by (induction rule: rtranclp_induct)
       (auto intro: library_step_waits [OF assms(1)] library_step_others [OF assms(1)])
  then show ?thesis
    using wait_inv_tables by (simp add: constraints_ok_def other_tables_ok_def)
qed

text \<open>A worker that beats twice, and an attempt whose end is recorded twice.\<close>

theorem constraints_hold_witness:
  "\<exists>d1 d2. snd (beat_row ''w'' (snd (beat_row ''w'' sample_db))) = d1 \<and> length (db_heartbeats d1) = 1 \<and>
    snd (settle_job (helpers_of sample_job) \<lparr>st_outcome = Some OutcomeCompleted, st_report = None, st_row = RowKeep\<rparr>
      (snd (settle_job (helpers_of sample_job) \<lparr>st_outcome = Some (OutcomeFailed ''no''), st_report = None, st_row = RowKeep\<rparr> d1))) = d2 \<and>
    map oc_state (db_outcomes d2) = [CompletedState] \<and> constraints_ok d2"
proof -
  let ?step = "library_step sample_backend"
  let ?b1 = "snd (beat_row ''w'' sample_db)" let ?b2 = "snd (beat_row ''w'' ?b1)"
  let ?s1 = "settle_job (helpers_of sample_job) \<lparr>st_outcome = Some (OutcomeFailed ''no''), st_report = None, st_row = RowKeep\<rparr> ?b2"
  let ?s2 = "settle_job (helpers_of sample_job) \<lparr>st_outcome = Some OutcomeCompleted, st_report = None, st_row = RowKeep\<rparr> (snd ?s1)"
  have "?step sample_db ?b1" "?step ?b1 ?b2" by (rule library_step.heartbeat)+
  moreover have "?step ?b2 (snd ?s1)" "?step (snd ?s1) (snd ?s2)"
    by (rule library_step.settle [OF surjective_pairing])+
  ultimately have run: "?step\<^sup>*\<^sup>* sample_db (snd ?s2)" by (meson rtranclp.intros)
  have "backend_keeps_tables sample_backend"
    by (simp add: backend_keeps_tables_def library_tables_def sample_backend_def sample_add_job_def)
  moreover have "library_tables sample_db = ([], [], [], [], [])" by code_simp
  ultimately have "constraints_ok (snd ?s2)" by (rule constraints_hold [OF _ _ run])
  moreover have "length (db_heartbeats ?b2) = 1" "map oc_state (db_outcomes (snd ?s2)) = [CompletedState]"
    by (code_simp+)
  ultimately show ?thesis
    by (intro exI [of _ ?b2] exI [of _ "snd ?s2"] conjI) (rule refl | assumption)+
qed

end
