(* ===== verification/Finality.thy ===== *)
theory Finality
  imports Constraints
begin

text \<open>
  How a job ended is final: once a job is gone, nothing that the library does later rewrites the
  outcome it left. Only the retention removes it.
\<close>

section \<open>Outcomes of a job that is gone\<close>

definition no_job :: "nat \<Rightarrow> db \<Rightarrow> bool" where
  "no_job i d \<longleftrightarrow> i \<notin> set (map jr_id (db_jobs d))"

definition outcomes_of :: "nat \<Rightarrow> db \<Rightarrow> outcome_row set" where
  "outcomes_of i d = {row \<in> set (db_outcomes d). oc_job_id row = i}"

definition final_within :: "nat \<Rightarrow> outcome_row set \<Rightarrow> db \<Rightarrow> bool" where
  "final_within i rows d \<longleftrightarrow> no_job i d \<and> outcomes_of i d \<subseteq> rows"

text \<open>A statement that only updates jobs or removes some, or works on the other tables.\<close>

lemmas final_defs = final_within_def no_job_def outcomes_of_def

lemma final_update [simp]:
  assumes "\<And>r. jr_id (f r) = jr_id r"
  shows "final_within i rows (d\<lparr>db_jobs := update_where p f js\<rparr>) = final_within i rows (d\<lparr>db_jobs := js\<rparr>)"
proof -
  have "map jr_id (update_where p f js) = map jr_id js" by (rule map_update_where) (rule assms)
  then show ?thesis by (simp add: final_defs del: set_map)
qed

lemma final_same_jobs [simp]:
  "final_within i rows (d\<lparr>db_jobs := db_jobs d\<rparr>) = final_within i rows d"
  "final_within i rows (d\<lparr>db_groups := g, db_jobs := js\<rparr>) = final_within i rows (d\<lparr>db_jobs := js\<rparr>)"
  by (simp_all add: final_defs)

lemma final_frame [simp]:
  "final_within i rows (d\<lparr>db_lanes := l\<rparr>) = final_within i rows d"
  "final_within i rows (d\<lparr>db_groups := g\<rparr>) = final_within i rows d"
  "final_within i rows (d\<lparr>db_waits := w\<rparr>) = final_within i rows d"
  "final_within i rows (d\<lparr>db_idem := k\<rparr>) = final_within i rows d"
  "final_within i rows (d\<lparr>db_heartbeats := hb\<rparr>) = final_within i rows d"
  by (simp_all add: final_defs)

lemma final_delete: "final_within i rows d \<Longrightarrow> final_within i rows (d\<lparr>db_jobs := delete_where p (db_jobs d)\<rparr>)"
  by (auto simp: final_defs set_delete_where)

lemma final_owned: "final_within i rows d \<Longrightarrow> owned_row h d = Some r \<Longrightarrow> jr_id r \<noteq> i"
  by (auto simp: final_within_def no_job_def dest: owned_row_Some)

abbreviation keeps_final :: "nat \<Rightarrow> outcome_row set \<Rightarrow> 'a tx \<Rightarrow> bool" where
  "keeps_final i rows \<equiv> keeps_inv (final_within i rows)"

section \<open>Settling\<close>

lemma upsert_other:
  assumes "oc_job_id row \<noteq> i"
  shows "{x \<in> set (upsert_outcome row os). oc_job_id x = i} = {x \<in> set os. oc_job_id x = i}"
  using assms by (auto simp: upsert_outcome_def set_update_where)

lemma final_record:
  assumes "final_within i rows d" "jr_id r \<noteq> i"
  shows "final_within i rows (record_outcome oc r d)"
proof (cases oc)
  case (Some x)
  have "oc_job_id (new_outcome x r (db_now d)) \<noteq> i" using assms(2) by (simp add: new_outcome_def)
  with assms(1) Some show ?thesis
    by (simp add: record_outcome_def final_defs upsert_other)
qed (use assms in \<open>simp add: record_outcome_def\<close>)

lemma final_reporting: "keeps_final i rows (report_waits f)" "keeps_final i rows (wake_parents ks)"
  by (auto simp: report_waits_def wake_parents_def keeps_inv_def Let_def final_update)

lemma final_settle_row:
  "final_within i rows d \<Longrightarrow> final_within i rows (settle_own_row row h r d)"
  by (auto simp: settle_own_row_def final_update intro: final_delete split: settle_row.split)

lemma final_settle: "keeps_final i rows (settle_job h s)"
proof -
  have report: "keeps_final i rows (report_child rep c)" for rep c
    unfolding report_child_def by (intro keeps_intros final_reporting)
  show ?thesis
    unfolding settle_job_def
    by (rule keeps_monad(5), unfold keeps_inv_def)
       (auto split: option.split prod.split sum.split intro: final_settle_row
         dest: final_record final_owned keeps_invD [OF report])
qed

section \<open>The other operations\<close>

lemma final_jobs:
  assumes "final_within i rows d"
  shows "final_within i rows (exhaust_owned h d)" "final_within i rows (move_waits a b d)"
    "final_within i rows (mark_waited ids d)" "final_within i rows (suspend h c t d)"
    "final_within i rows (delete_groups p d)" "final_within i rows (wake_swallowed d)"
    "final_within i rows (drop_orphan_groups d)" "final_within i rows (record_key q k j d)"
    "final_within i rows (snd (release_jobs_locked_by ws d))"
  using assms
  by (simp_all add: exhaust_owned_def move_waits_def mark_waited_def suspend_def Let_def delete_groups_def
      wake_swallowed_def drop_orphan_groups_def record_key_def release_jobs_locked_by_def final_update)

lemma final_writes:
  "keeps_final i rows (write_checkpoint h sid e)" "keeps_final i rows (write_progress h v)"
  "keeps_final i rows (schedule_retry h t)" "keeps_final i rows (claim_key q k ttl)"
  by (auto simp: keeps_inv_def write_checkpoint_def write_progress_def patch_envelope_def schedule_retry_def
      Let_def claim_key_def final_update split: option.split)

lemma final_sweeps:
  "keeps_final i rows (sweep_lost busy)" "keeps_final i rows (sweep_waits busy)"
  "keeps_final i rows (sweep_dead_workers held stale w)"
proof -
  show lost: "keeps_final i rows (sweep_lost busy)" by (intro keeps_sweep_lost final_reporting)
  show "keeps_final i rows (sweep_waits busy)" by (intro keeps_sweep lost final_jobs)
  show "keeps_final i rows (sweep_dead_workers held stale w)"
    by (auto simp: keeps_inv_def sweep_dead_result Let_def intro: final_jobs)
qed

lemma final_prune:
  "final_within i rows d \<Longrightarrow> final_within i rows (prune_job_outcomes busy t d)"
  "final_within i rows d \<Longrightarrow> final_within i rows (prune_idempotency_keys busy' d)"
  by (auto simp: prune_job_outcomes_def prune_idempotency_keys_def final_within_def no_job_def
      outcomes_of_def set_delete_where)

lemma final_beat: "final_within i rows d \<Longrightarrow> final_within i rows (snd (beat_row worker d))"
  by (simp add: beat_row_def)

section \<open>Ids are not used again\<close>

text \<open>Graphile numbers its jobs with an identity column: an id of the past is not given again.\<close>

definition backend_spares :: "nat \<Rightarrow> backend \<Rightarrow> bool" where
  "backend_spares i b \<longleftrightarrow> (\<forall>a. keeps_inv (no_job i) (be_add_job b a)) \<and>
     (\<forall>specs preserve. keeps_inv (no_job i) (be_add_jobs b specs preserve))"

lemma final_enqueue:
  assumes "backend_keeps_tables b" "backend_spares i b"
  shows "enqueue_keeps (final_within i rows) (\<lambda>_. True) b"
  using assms final_writes(4) [of i rows] final_jobs(8) [of i rows]
  by (simp add: enqueue_keeps_def backend_keeps_tables_def backend_spares_def keeps_inv_def
      final_within_def outcomes_of_def library_tables_def)

lemma final_continue:
  assumes "\<And>a. keeps_final i rows (aj a)"
  shows "keeps_final i rows (continue_job aj h t tp rec pr)"
  by (intro keeps_continue assms final_settle final_jobs)

lemma final_enter_wait:
  assumes "\<And>p. prep = Inr (Some p) \<Longrightarrow> keeps_final i rows (exec p)"
  shows "keeps_final i rows (enter_wait prep exec h c)"
  by (intro keeps_enter_wait keeps_finish_wait final_writes assms final_jobs) simp_all

text \<open>One step of the library after which the id is still unused.\<close>

definition later_step :: "nat \<Rightarrow> backend \<Rightarrow> db \<Rightarrow> db \<Rightarrow> bool" where
  "later_step i b d d' \<longleftrightarrow> library_step b d d' \<and> no_job i d'"

lemma library_step_final:
  assumes "backend_keeps_tables b" "backend_spares i b" "library_step b d d'" "no_job i d'"
    and "final_within i rows d"
  shows "final_within i rows d'"
  using assms(3-5)
proof (induction rule: library_step.induct)
  case (prepared st name data opts mode p items d r3 d')
  then show ?case using keeps_invD [OF keeps_prepared [OF final_enqueue [OF assms(1,2)]]] by blast
next
  case (continue tp h run_at rec pr d r6 d')
  have "keeps_final i rows (be_add_job b a)" for a
    using final_enqueue [OF assms(1,2)] by (simp add: enqueue_keeps_def)
  from keeps_invD [OF final_continue [OF this] continue(4,2)] show ?case .
next
  case (wait prep h c d r7 d')
  have "keeps_final i rows (run_statement b (pj_statement p))" if "prep = Inr (Some p)" for p
    using keeps_prepared [OF final_enqueue [OF assms(1,2)]] wait(1) that by (fastforce simp: wait_prepared_def)
  then show ?case using keeps_invD [OF final_enter_wait wait(4,2)] by simp
next
  case heartbeat
  then show ?case by (simp add: final_beat)
next
  case maintenance
  show ?case
    by (rule keeps_pass [of "final_within i rows", OF maintenance(2) final_sweeps(3) final_sweeps(2) final_prune])
next
  case release
  then show ?case by (intro keeps_inv_at [OF final_sweeps(3)])
next
  case lost
  then show ?case by (intro keeps_inv_at [OF final_sweeps(1)])
next
  case (cron r c d)
  then show ?case by (simp add: final_defs)
next
  case (graphile d' d)
  then show ?case by (simp add: final_defs library_tables_def)
qed (auto intro: final_jobs keeps_invD [OF keeps_enqueue(1) [OF final_enqueue [OF assms(1,2)]]]
    keeps_invD [OF keeps_enqueue(2) [OF final_enqueue [OF assms(1,2)]]]
    keeps_invD [OF final_writes(1)] keeps_invD [OF final_writes(2)] keeps_invD [OF final_writes(3)]
    keeps_invD [OF final_settle])

lemma later_steps_final:
  assumes "backend_keeps_tables b" "backend_spares i b" "(later_step i b)\<^sup>*\<^sup>* d d'" "final_within i rows d"
  shows "final_within i rows d'"
  using assms(3,4)
  by (induction rule: rtranclp_induct) (auto simp: later_step_def intro: library_step_final [OF assms(1,2)])


text \<open>The running job 7 ends, another job is enqueued, and a pass prunes the outcomes.\<close>

definition sample_ended :: db where
  "sample_ended = snd (settle_job (helpers_of sample_job) sample_settle sample_db)"

definition prune_pass :: "db \<Rightarrow> db" where
  "prune_pass d = snd (maintenance_pass \<lparr>mo_recovery = None, mo_retention = Some 60000, mo_worker = None\<rparr>
     \<lparr>lk_heartbeat = \<lambda>_. False, lk_wait = \<lambda>_. False, lk_outcome = \<lambda>_. False, lk_idem = \<lambda>_. False\<rparr>
     \<lparr>ft_dead = Runs, ft_waits = Runs, ft_outcomes = Runs, ft_idem = Runs\<rparr> d)"

text \<open>A backend whose ids start at 100.\<close>

definition spare_backend :: backend where
  "spare_backend = sample_backend\<lparr>be_add_job := \<lambda>a d. let i = max 100 (fresh_id d) in
     (Inr (Some i), d\<lparr>db_jobs := db_jobs d @ [(added_row a d)\<lparr>jr_id := i\<rparr>]\<rparr>)\<rparr>"

definition sample_later :: db where
  "sample_later = snd (enqueue_one sample_settings (client_adapter spare_backend ''graphile_worker'') ''mail''
     ([], GNull) None False sample_ended)"


end
