(* ===== verification/JobContext.thy ===== *)
theory JobContext
  imports Attempts Progress
begin

text \<open>
  One run's deadline and the context its handler works with: \<open>createAttempt\<close> and
  \<open>createJobContext\<close> of \<^verbatim>\<open>src/src/worker.ts\<close>. JavaScript cannot stop a handler, so a handler that
  outlives its deadline goes on calling its context; every call it starts then is refused.
\<close>

section \<open>The deadline of a run\<close>

text \<open>
  The closure of \<open>createAttempt\<close> with the promise of its \<open>run\<close>: the expiry, the reason its signal was
  aborted with, whether it listens to the parent's signal and its timer is armed, what the work and
  the promise settled with, and what \<open>onAbandoned\<close> was called with.
\<close>

record 'v attempt =
  am_expired :: "js_error option"
  am_reason :: "js_error option"
  am_forwarding :: bool
  am_timer :: "int option"
  am_work :: "'v res option"
  am_result :: "'v res option"
  am_abandoned :: "js_error option option"

definition create_attempt :: "js_error option \<Rightarrow> int option \<Rightarrow> 'v attempt" where
  "create_attempt parent_reason timeout = \<lparr>am_expired = None, am_reason = parent_reason,
     am_forwarding = (parent_reason = None), am_timer = timeout, am_work = None, am_result = None,
     am_abandoned = None\<rparr>"

datatype 'v attempt_event =
    ParentAborts js_error
  | WorkSettles "'v res"
  | DeadlinePasses
  | Disposes

definition rejection :: "'v res \<Rightarrow> js_error option" where
  "rejection r = (case r of Inl e \<Rightarrow> Some e | Inr _ \<Rightarrow> None)"

text \<open>An event that cannot happen is None: work settles once, a cleared timer does not fire.\<close>

fun deadline_step :: "'v attempt_event \<Rightarrow> 'v attempt \<Rightarrow> 'v attempt option" where
  "deadline_step (ParentAborts e) a =
     Some (if am_forwarding a then a\<lparr>am_reason := nullish (am_reason a) (Some e), am_forwarding := False\<rparr> else a)"
| "deadline_step (WorkSettles r) a =
     (if am_work a \<noteq> None then None
      else Some (a\<lparr>am_work := Some r, am_result := nullish (am_result a) (Some r),
        am_abandoned := (if am_expired a = None then None else Some (rejection r))\<rparr>))"
| "deadline_step DeadlinePasses a =
     (case am_timer a of
        None \<Rightarrow> None
      | Some t \<Rightarrow> let e = JobTimeoutError t in
          Some (a\<lparr>am_expired := Some e, am_reason := nullish (am_reason a) (Some e), am_timer := None,
            am_result := nullish (am_result a) (Some (Inl e)),
            am_abandoned := map_option rejection (am_work a)\<rparr>))"
| "deadline_step Disposes a = Some (a\<lparr>am_timer := None, am_forwarding := False\<rparr>)"

fun_cases deadline_step_SomeE: "deadline_step ev a = Some a'"

inductive attempt_reachable :: "int option \<Rightarrow> 'v attempt \<Rightarrow> bool" for timeout where
  created: "attempt_reachable timeout (create_attempt parent timeout)"
| step: "attempt_reachable timeout a \<Longrightarrow> deadline_step ev a = Some a' \<Longrightarrow> attempt_reachable timeout a'"

definition attempt_inv :: "int option \<Rightarrow> 'v attempt \<Rightarrow> bool" where
  "attempt_inv timeout a \<longleftrightarrow>
     (case am_timer a of None \<Rightarrow> True | Some t \<Rightarrow> timeout = Some t \<and> am_expired a = None) \<and>
     (case am_expired a of
        None \<Rightarrow> am_result a = am_work a \<and> am_abandoned a = None
      | Some e \<Rightarrow> timeout \<noteq> None \<and> e = JobTimeoutError (the timeout) \<and> am_reason a \<noteq> None \<and>
          (am_result a = Some (Inl e) \<or> am_result a \<noteq> None \<and> am_result a = am_work a) \<and>
          am_abandoned a = map_option rejection (am_work a))"

lemma deadline_step_inv:
  assumes "attempt_inv timeout a" "deadline_step ev a = Some a'"
  shows "attempt_inv timeout a'"
  using assms(2,1)
  by (cases ev; cases "am_work a"; cases "am_expired a"; cases "am_timer a")
     (auto simp: attempt_inv_def Let_def split: if_splits)

lemma reachable_attempt_inv: "attempt_reachable timeout a \<Longrightarrow> attempt_inv timeout a"
proof (induction rule: attempt_reachable.induct)
  case (created parent)
  then show ?case by (simp add: attempt_inv_def create_attempt_def split: option.split)
qed (rule deadline_step_inv)

text \<open>
  A run settles once, with its work or with its timeout, whichever comes first: what it settled with never
  changes, a timeout is the only error of its own, an expired run has aborted its signal, and
  work that settles after the timeout changes nothing but is told to \<open>onAbandoned\<close>.
\<close>

theorem attempt_settles_once:
  assumes "attempt_reachable timeout a" and "deadline_step ev a = Some a'"
  shows "(am_result a \<noteq> None \<longrightarrow> am_result a' = am_result a) \<and>
    (am_result a = None \<and> am_result a' \<noteq> None \<longrightarrow>
       (\<exists>r. ev = WorkSettles r \<and> am_result a' = Some r) \<or>
       (\<exists>t. ev = DeadlinePasses \<and> timeout = Some t \<and> am_result a' = Some (Inl (JobTimeoutError t)))) \<and>
    (am_expired a' \<noteq> None \<longrightarrow> am_reason a' \<noteq> None \<and> am_expired a' = map_option JobTimeoutError timeout) \<and>
    (am_expired a \<noteq> None \<longrightarrow> am_expired a' = am_expired a)"
proof -
  have inv: "attempt_inv timeout a" "attempt_inv timeout a'"
    using reachable_attempt_inv [OF assms(1)] deadline_step_inv assms(2) by blast+
  have armed: "timeout = Some t \<and> am_expired a = None" if "am_timer a = Some t" for t
    using inv(1) that by (simp add: attempt_inv_def)
  have expired: "am_reason a' \<noteq> None \<and> am_expired a' = map_option JobTimeoutError timeout" if "am_expired a' \<noteq> None"
    using inv(2) that by (auto simp: attempt_inv_def)
  have kept: "am_result a \<noteq> None \<longrightarrow> am_result a' = am_result a"
    using assms(2) by (cases ev) (auto simp: Let_def split: option.splits if_splits)
  have first: "(\<exists>r. ev = WorkSettles r \<and> am_result a' = Some r) \<or>
      (\<exists>t. ev = DeadlinePasses \<and> timeout = Some t \<and> am_result a' = Some (Inl (JobTimeoutError t)))"
    if "am_result a = None" "am_result a' \<noteq> None"
    using assms(2) that armed by (cases ev) (auto simp: Let_def split: option.splits if_splits)
  have "am_expired a \<noteq> None \<longrightarrow> am_expired a' = am_expired a"
    using assms(2) armed by (cases ev) (auto simp: Let_def split: option.splits if_splits)
  with expired kept first show ?thesis by blast
qed

text \<open>
  The timer is cleared only when the run is disposed of, after its outcome was recorded. A handler that
  settled in time is therefore reported as abandoned when recording its outcome outlasts the deadline.
\<close>

theorem late_timer_reports_abandoned:
  "\<exists>a1 a2. deadline_step (WorkSettles (Inr v)) (create_attempt None (Some t)) = Some a1 \<and>
    deadline_step DeadlinePasses a1 = Some a2 \<and> am_result a2 = Some (Inr v) \<and>
    am_abandoned a2 = Some None \<and> am_reason a2 = Some (JobTimeoutError t)"
  by (simp add: create_attempt_def Let_def rejection_def)

section \<open>The context\<close>

text \<open>
  What the handler's calls change: the deadline, the endings, the progress runner, the checkpoints it
  remembers, the database, and \<open>'w\<close>, whatever the functions of its steps change.
\<close>

record ('v, 'w) job_context =
  jc_attempt :: "'v attempt"
  jc_ending :: "ending option"
  jc_called :: bool
  jc_progress :: progress_state
  jc_cache :: "(string \<times> step_entry) list"
  jc_db :: db
  jc_world :: 'w

text \<open>What the context is made from: \<open>JobHelpers\<close> and the runtime of the task list.\<close>

record ('h, 'p) context_env =
  ce_helpers :: job_helpers
  ce_settings :: "'h settings"
  ce_adapter :: adapter
  ce_add_job :: add_job_fn
  ce_outcomes :: bool
  ce_waits :: "'h queue \<Rightarrow> jsv list \<Rightarrow> 'p wait_runtime"

datatype ('h, 'w) context_call =
    CallCreateJob string jsv "job_options option"
  | CallCreateJobs string "jsv list" "job_options option"
  | CallContinue "date_arg option"
  | CallProgressSet
  | CallProgressFlush int
  | CallStep string "codec option" "'w \<Rightarrow> jsv res \<times> 'w"
  | CallWait string "'h queue" "jsv list" "jsnum option"

datatype context_answer =
    AnswerId "nat option"
  | AnswerIds "nat option list"
  | AnswerDone
  | AnswerValue jsv
  | AnswerWaits "wait_result list"

definition context_run :: "('v, 'w) job_context \<Rightarrow> run_state" where
  "context_run c = \<lparr>rs_ending = jc_ending c, rs_called = jc_called c, rs_db = jc_db c\<rparr>"

definition set_run :: "run_state \<Rightarrow> ('v, 'w) job_context \<Rightarrow> ('v, 'w) job_context" where
  "set_run st c = c\<lparr>jc_ending := rs_ending st, jc_called := rs_called st, jc_db := rs_db st\<rparr>"

definition context_store :: "('v, 'w) job_context \<Rightarrow> pg_store" where
  "context_store c = \<lparr>pg_cache = jc_cache c, pg_db = jc_db c\<rparr>"

definition set_store :: "pg_store \<Rightarrow> ('v, 'w) job_context \<Rightarrow> ('v, 'w) job_context" where
  "set_store s c = c\<lparr>jc_cache := pg_cache s, jc_db := pg_db s\<rparr>"

definition answer_with :: "('a \<Rightarrow> context_answer) \<Rightarrow> 'a res \<Rightarrow> context_answer res" where
  "answer_with f r = (case r of Inl e \<Rightarrow> Inl e | Inr v \<Rightarrow> Inr (f v))"

text \<open>The backend of a wait, on the store of the checkpoints: the endings travel with it.\<close>

definition context_wait ::
  "('h, 'p) context_env \<Rightarrow> js_error option \<Rightarrow> string \<Rightarrow> 'h queue \<Rightarrow> jsnum option \<Rightarrow> jsv list \<Rightarrow>
   pg_store \<times> run_state \<Rightarrow> (json \<times> bool) res \<times> pg_store \<times> run_state" where
  "context_wait env inactive sid q timeout inputs sw =
     (let limit = Option.bind timeout (\<lambda>t. map_option floor (num_val t)) in
      case backend_wait (ce_waits env q inputs) (ce_helpers env) inactive sid (q_name q) (length inputs) limit
          ((snd sw)\<lparr>rs_db := pg_db (fst sw)\<rparr>) of
        (r, st) \<Rightarrow> (r, (fst sw)\<lparr>pg_db := rs_db st\<rparr>, st))"

text \<open>\<open>ctx.continue()\<close> closes the progress runner once nothing is left to refuse it.\<close>

definition continue_admitted :: "('h, 'p) context_env \<Rightarrow> date_arg option \<Rightarrow> ('v, 'w) job_context \<Rightarrow> bool" where
  "continue_admitted env run_at c \<longleftrightarrow> am_expired (jc_attempt c) = None \<and> \<not> jc_called c \<and>
     is_ok (parse_continue_run_at (cs_parse_date (ce_settings env)) run_at) \<and> jc_ending c = None"

text \<open>
  One call of the context, started now. Each asks \<open>assertActive\<close> first, a wait once more when its turn
  comes; \<open>progress.set\<close> goes on with \<open>SetCommits\<close> when its schema has answered.
\<close>

fun perform_call ::
  "('h, 'p) context_env \<Rightarrow> ('h, 'w) context_call \<Rightarrow> ('v, 'w) job_context \<Rightarrow>
   context_answer res \<times> ('v, 'w) job_context" where
  "perform_call env (CallCreateJob name data opts) c =
     (case am_expired (jc_attempt c) of
        Some e \<Rightarrow> (Inl e, c)
      | None \<Rightarrow> (case enqueue_one (ce_settings env) (ce_adapter env) name data opts False (jc_db c) of
          (r, d') \<Rightarrow> (answer_with AnswerId r, c\<lparr>jc_db := d'\<rparr>)))"
| "perform_call env (CallCreateJobs name data opts) c =
     (case am_expired (jc_attempt c) of
        Some e \<Rightarrow> (Inl e, c)
      | None \<Rightarrow> (case enqueue_many (ce_settings env) (ce_adapter env) name data opts (jc_db c) of
          (r, d') \<Rightarrow> (answer_with AnswerIds r, c\<lparr>jc_db := d'\<rparr>)))"
| "perform_call env (CallContinue run_at) c =
     (case ctx_continue (ce_add_job env) (ce_helpers env) (cs_parse_date (ce_settings env)) (ce_outcomes env)
          (am_expired (jc_attempt c)) run_at (cs_active (ce_settings env)) (ps_value (jc_progress c)) (context_run c) of
        (e, st) \<Rightarrow> (Inl e, set_run st (if continue_admitted env run_at c
           then c\<lparr>jc_progress := close_begins 0 False (jc_progress c)\<rparr> else c)))"
| "perform_call env CallProgressSet c =
     (case am_expired (jc_attempt c) of
        Some e \<Rightarrow> (Inl e, c)
      | None \<Rightarrow> (case set_begins (jc_progress c) of (r, s) \<Rightarrow> (answer_with (\<lambda>_. AnswerDone) r, c\<lparr>jc_progress := s\<rparr>)))"
| "perform_call env (CallProgressFlush now) c =
     (case am_expired (jc_attempt c) of
        Some e \<Rightarrow> (Inl e, c)
      | None \<Rightarrow> (case flush_begins now (jc_progress c) of (r, s) \<Rightarrow> (answer_with (\<lambda>_. AnswerDone) r, c\<lparr>jc_progress := s\<rparr>)))"
| "perform_call env (CallStep sid codec fn) c =
     (case step_run pg_get (pg_put (ce_helpers env)) (am_expired (jc_attempt c)) codec sid fn (context_store c, jc_world c) of
        (r, s, w) \<Rightarrow> (answer_with AnswerValue r, (set_store s c)\<lparr>jc_world := w\<rparr>))"
| "perform_call env (CallWait sid q inputs timeout) c =
     (case step_wait pg_get (pg_put (ce_helpers env)) pg_remember (am_expired (jc_attempt c))
          (Some (context_wait env (am_expired (jc_attempt c)) sid q timeout)) sid q inputs timeout
          (context_store c, context_run c) of
        (r, s, st) \<Rightarrow> (answer_with AnswerWaits r, set_store s (c\<lparr>jc_ending := rs_ending st, jc_called := rs_called st\<rparr>)))"

section \<open>After the deadline\<close>

lemma context_parts [simp]: "set_run (context_run c) c = c" "set_store (context_store c) c = c"
  by (simp_all add: set_run_def context_run_def set_store_def context_store_def)

lemma call_refused: "am_expired (jc_attempt c) = Some e \<Longrightarrow> perform_call env call c = (Inl e, c)"
  by (cases call) (simp_all add: ctx_continue_def step_run_def step_wait_def begin_step_def answer_with_def
      context_run_def set_store_def context_store_def set_run_def
      continue_admitted_def)

text \<open>A handler's calls interleaved with what happens to its attempt; the answers in order.\<close>

fun handler_acts ::
  "('h, 'p) context_env \<Rightarrow> (('h, 'w) context_call + 'v attempt_event) list \<Rightarrow> ('v, 'w) job_context \<Rightarrow>
   (context_answer res list \<times> ('v, 'w) job_context) option" where
  "handler_acts env [] c = Some ([], c)"
| "handler_acts env (Inl call # acts) c =
     (case perform_call env call c of (r, c') \<Rightarrow> map_option (map_prod (Cons r) id) (handler_acts env acts c'))"
| "handler_acts env (Inr ev # acts) c =
     (case deadline_step ev (jc_attempt c) of
        None \<Rightarrow> None
      | Some a \<Rightarrow> handler_acts env acts (c\<lparr>jc_attempt := a\<rparr>))"

lemma attempt_stays_expired:
  assumes "deadline_step ev a = Some a'" "am_expired a = Some e" "am_timer a = None"
  shows "am_expired a' = Some e \<and> am_timer a' = None"
  using assms by (cases ev) (auto split: if_splits)

lemma expired_acts:
  assumes "am_expired (jc_attempt c) = Some e" "am_timer (jc_attempt c) = None"
    and "handler_acts env acts c = Some (answers, c')"
  shows "list_all (\<lambda>r. r = Inl e) answers \<and> (\<exists>a. c' = c\<lparr>jc_attempt := a\<rparr>)"
  using assms
proof (induction acts arbitrary: c answers)
  case Nil
  then show ?case by (auto intro: exI [of _ "jc_attempt c"])
next
  case (Cons act acts)
  show ?case
  proof (cases act)
    case (Inl call)
    with Cons.prems obtain rest where "handler_acts env acts c = Some (rest, c')" "answers = Inl e # rest"
      by (auto simp: call_refused)
    with Cons.IH [OF Cons.prems(1,2)] show ?thesis by simp
  next
    case (Inr ev)
    with Cons.prems(3) obtain a where a: "deadline_step ev (jc_attempt c) = Some a"
      and rest: "handler_acts env acts (c\<lparr>jc_attempt := a\<rparr>) = Some (answers, c')" by (auto split: option.splits)
    from Cons.IH [OF _ _ rest] attempt_stays_expired [OF a Cons.prems(1,2)] show ?thesis by auto
  qed
qed

text \<open>
  C19 After its deadline a handler changes nothing any more: from the moment the timeout fires, and
  whatever it calls and whatever else happens to its attempt, every call it starts is rejected with
  the timeout; the database, the progress, the checkpoints and the endings stay as they are, and
  none of its step functions is run.
\<close>

theorem nothing_starts_after_deadline:
  assumes "attempt_reachable timeout (jc_attempt c)"
    and "handler_acts env (Inr DeadlinePasses # acts) c = Some (answers, c')"
  shows "\<exists>t. timeout = Some t \<and> list_all (\<lambda>r. r = Inl (JobTimeoutError t)) answers \<and>
    jc_db c' = jc_db c \<and> jc_progress c' = jc_progress c \<and> jc_cache c' = jc_cache c \<and>
    jc_ending c' = jc_ending c \<and> jc_called c' = jc_called c \<and> jc_world c' = jc_world c"
proof -
  obtain t where t: "am_timer (jc_attempt c) = Some t"
    using assms(2) by (auto split: option.splits)
  with reachable_attempt_inv [OF assms(1)] have "timeout = Some t" by (simp add: attempt_inv_def)
  obtain a where a: "deadline_step DeadlinePasses (jc_attempt c) = Some a"
    and rest: "handler_acts env acts (c\<lparr>jc_attempt := a\<rparr>) = Some (answers, c')"
    using assms(2) by (auto split: option.splits)
  have "am_expired a = Some (JobTimeoutError t)" "am_timer a = None"
    using a t by (auto simp: Let_def)
  with expired_acts [OF _ _ rest] \<open>timeout = Some t\<close> show ?thesis by auto
qed

definition sample_env :: "(unit, nat) context_env" where
  "sample_env = \<lparr>ce_helpers = helpers_of sample_job, ce_settings = sample_settings,
     ce_adapter = client_adapter sample_backend ''graphile_worker'', ce_add_job = sample_add_job, ce_outcomes = True,
     ce_waits = (\<lambda>_ _. sample_waits)\<rparr>"

definition sample_context :: "(unit, nat) job_context" where
  "sample_context = \<lparr>jc_attempt = create_attempt None (Some 5), jc_ending = None, jc_called = False,
     jc_progress = new_progress None, jc_cache = [], jc_db = sample_db, jc_world = 0\<rparr>"

theorem nothing_starts_after_deadline_witness:
  "\<exists>c'. handler_acts sample_env [Inr DeadlinePasses, Inl (CallStep ''a'' None (\<lambda>n. (Inr ([], GNull), n + 1))),
      Inr (WorkSettles (Inr ())), Inl (CallCreateJob ''mail'' ([], GNull) None), Inl (CallContinue None)] sample_context =
      Some ([Inl (JobTimeoutError 5), Inl (JobTimeoutError 5), Inl (JobTimeoutError 5)], c') \<and>
    jc_db c' = sample_db \<and> jc_world c' = 0"
proof -
  let ?acts = "[Inl (CallStep ''a'' None (\<lambda>n. (Inr ([], GNull), n + 1))), Inr (WorkSettles (Inr ())),
      Inl (CallCreateJob ''mail'' ([], GNull) None), Inl (CallContinue None)]"
  let ?c = "sample_context" and ?r = "handler_acts sample_env (Inr DeadlinePasses # ?acts) sample_context"
  have run: "\<exists>c'. ?r = Some ([Inl (JobTimeoutError 5), Inl (JobTimeoutError 5), Inl (JobTimeoutError 5)], c')"
    by (simp add: sample_context_def create_attempt_def Let_def call_refused del: perform_call.simps)
  then obtain c' where c': "?r = Some ([Inl (JobTimeoutError 5), Inl (JobTimeoutError 5), Inl (JobTimeoutError 5)], c')"
    by blast
  have "attempt_reachable (Some 5) (jc_attempt ?c)"
    unfolding sample_context_def job_context.simps by (rule attempt_reachable.created)
  from nothing_starts_after_deadline [OF this c'] c' show ?thesis by (simp add: sample_context_def)
qed

end
