(* ===== verification/Operations.thy ===== *)
theory Operations
  imports Constraints JobContext
begin

text \<open>
  The attempts of a worker over its own database: the context a worker gives its handlers
  (\<open>createWorker\<close> of \<^verbatim>\<open>src/src/create-better-worker.ts\<close> and \<open>createWaitBackend\<close> of
  \<^verbatim>\<open>src/src/worker.ts\<close>), and that whatever an attempt does to the database, with all of its
  handler's calls, is a sequence of the library's operations. So what these keep holds of attempts.
\<close>

section \<open>The context a worker makes\<close>

text \<open>The children of a wait are prepared like any enqueue; a skipped one gives nothing to wait for.\<close>

definition worker_waits ::
  "backend \<Rightarrow> 'h settings \<Rightarrow> bool \<Rightarrow> 'h queue \<Rightarrow> jsv list \<Rightarrow> prepared_job wait_runtime" where
  "worker_waits b st batch q inputs =
     \<lparr>wr_queues = Some (map q_name (cs_queues st)),
      wr_prepare = bind_res (if batch then prepare_many st (q_name q) inputs None
          else prepare_one st (q_name q) (hd inputs) None None)
        (\<lambda>p. Inr (if pj_skipped p then None else Some p)),
      wr_exec = run_statement b \<circ> pj_statement\<rparr>"

text \<open>\<open>batch\<close> tells the calls of \<open>batchTriggerAndWait\<close> from those of \<open>triggerAndWait\<close>.\<close>

definition worker_env ::
  "backend \<Rightarrow> 'h settings \<Rightarrow> job_helpers \<Rightarrow> bool \<Rightarrow> ('h queue \<Rightarrow> jsv list \<Rightarrow> bool) \<Rightarrow> ('h, prepared_job) context_env" where
  "worker_env b st h outcomes batch =
     \<lparr>ce_helpers = h, ce_settings = st, ce_adapter = client_adapter b (cs_schema st),
      ce_add_job = be_add_job b, ce_outcomes = outcomes,
      ce_waits = (\<lambda>q inputs. worker_waits b st (batch q inputs) q inputs)\<rparr>"

text \<open>Closing the progress runner writes the latest value when it is not stored and is to be kept.\<close>

definition close_progress :: "job_helpers \<Rightarrow> json option \<Rightarrow> bool \<Rightarrow> unit tx" where
  "close_progress h unsaved persist =
     (case unsaved of Some v \<Rightarrow> if persist then write_progress h v else tx_return () | None \<Rightarrow> tx_return ())"

section \<open>Sequences of operations\<close>

abbreviation library_steps :: "backend \<Rightarrow> db \<Rightarrow> db \<Rightarrow> bool" where
  "library_steps b \<equiv> (library_step b)\<^sup>*\<^sup>*"

named_theorems leads_intros "transactions that are sequences of the library's operations"

definition leads :: "backend \<Rightarrow> 'a tx \<Rightarrow> bool" where
  "leads b m \<longleftrightarrow> (\<forall>d. library_steps b d (snd (m d)))"

lemma leadsD: "leads b m \<Longrightarrow> m d = (r, d') \<Longrightarrow> library_steps b d d'"
  by (metis leads_def snd_conv)

lemma leads_step: "(\<And>d r d'. m d = (r, d') \<Longrightarrow> library_step b d d') \<Longrightarrow> leads b m"
  unfolding leads_def by (metis prod.collapse r_into_rtranclp)

lemma leads_return [leads_intros]: "leads b (tx_return x)"
  by (simp add: leads_def tx_return_def)

lemma leads_operations [leads_intros]:
  fixes st :: "unit settings"
  shows "leads b (settle_job h s)" "leads b (schedule_retry h t)" "leads b (write_checkpoint h sid e)"
    "leads b (write_progress h v)"
    "leads b (enqueue_one st (client_adapter b schema) name data opts cron)"
    "leads b (enqueue_many st (client_adapter b schema) name items opts)"
  by (rule leads_step, erule library_step.intros)+

lemma leads_close [leads_intros]: "leads b (close_progress h unsaved persist)"
  by (simp add: close_progress_def leads_intros split: option.split)

section \<open>The calls of a handler\<close>

lemma worker_waits_prepared:
  fixes st :: "unit settings"
  shows "wait_prepared (wr_prepare (worker_waits b st batch q inputs))"
proof -
  have "prepare_many st (q_name q) inputs None = Inr p \<or> prepare_one st (q_name q) (hd inputs) None None = Inr p"
    if "wr_prepare (worker_waits b st batch q inputs) = Inr (Some p)" for p
    using that by (auto simp: worker_waits_def res_simps split: if_splits)
  then show ?thesis unfolding wait_prepared_def by blast
qed

lemma leads_enter_wait:
  "wait_prepared prep \<Longrightarrow> leads b (enter_wait prep (run_statement b \<circ> pj_statement) h c)"
  by (rule leads_step, erule library_step.wait)

lemma traced_text:
  "trace_text (case json_get ''traceparent'' (inject_trace_context None active) of
     Some (JStr s) \<Rightarrow> Some s | _ \<Rightarrow> None)"
  using typed_inject [of None active]
  by (auto simp: typed_payload_def typed_trace_def trace_text_def split: option.splits json.splits)

lemma continue_leads:
  assumes "ctx_continue (be_add_job b) h parse_date outcomes inactive run_at active progress st = (e, st')"
  shows "library_steps b (rs_db st) (rs_db st')"
proof -
  define tp where "tp = (case json_get ''traceparent'' (inject_trace_context None active) of
      Some (JStr s) \<Rightarrow> Some s | _ \<Rightarrow> None)"
  have "trace_text tp" unfolding tp_def by (rule traced_text)
  then have step: "library_steps b d d'" if "continue_job (be_add_job b) h t tp outcomes progress d = (r, d')" for t d r d'
    using library_step.continue that by blast
  from assms show ?thesis
    unfolding ctx_continue_def Let_def tp_def [symmetric]
    by (auto simp: end_run_def dest: step split: option.splits if_splits sum.splits prod.splits)
qed

lemma backend_wait_leads:
  assumes "backend_wait (worker_waits b (st :: unit settings) batch q inputs) h inactive wait_id name n timeout s = (r, s')"
  shows "library_steps b (rs_db s) (rs_db s')"
proof -
  let ?rt = "worker_waits b st batch q inputs"
  have enter: "leads b (enter_wait (wr_prepare ?rt) (wr_exec ?rt) h c)" for c
    using leads_enter_wait [OF worker_waits_prepared] by (simp add: worker_waits_def)
  have "library_steps b (rs_db s) d'" if "enter_wait (wr_prepare ?rt) (wr_exec ?rt) h c (rs_db s) = (x, d')" for c x d'
    by (rule leadsD [OF enter that])
  with assms show ?thesis
    by (auto simp: backend_wait_def end_run_def
        split: option.splits if_splits ending.splits sum.splits prod.splits wait_outcome.splits)
qed

lemma put_leads: "pg_put h sid out s = (r, s') \<Longrightarrow> library_steps b (pg_db s) (pg_db s')"
  using leadsD [OF leads_operations(3)]
  by (auto simp: pg_put_def split: prod.splits sum.splits)

text \<open>One call of a handler, and all of them between the events of its attempt.\<close>

lemma call_leads:
  fixes st :: "unit settings"
  assumes "perform_call (worker_env b st h outcomes batch) call c = (r, c')"
  shows "library_steps b (jc_db c) (jc_db c')"
proof (cases call)
  case (CallCreateJob name data opts)
  with assms show ?thesis
    by (auto simp: worker_env_def dest: leadsD [OF leads_operations(5)] split: option.splits prod.splits)
next
  case (CallCreateJobs name items opts)
  with assms show ?thesis
    by (auto simp: worker_env_def dest: leadsD [OF leads_operations(6)] split: option.splits prod.splits)
next
  case (CallContinue run_at)
  with assms show ?thesis
    by (auto simp: worker_env_def set_run_def context_run_def dest!: continue_leads split: prod.splits)
next
  case (CallStep sid codec fn)
  with assms obtain s w where run: "step_run pg_get (pg_put h) (am_expired (jc_attempt c)) codec sid fn
      (context_store c, jc_world c) = (fst (step_run pg_get (pg_put h) (am_expired (jc_attempt c)) codec sid fn
      (context_store c, jc_world c)), s, w)" and c': "jc_db c' = pg_db s"
    by (auto simp: worker_env_def set_store_def split: prod.splits)
  from run have "library_steps b (pg_db (context_store c)) (pg_db s)"
    by (cases rule: step_run_cases) (auto dest: put_leads)
  then show ?thesis by (simp add: c' context_store_def)
next
  case (CallWait sid q inputs timeout)
  let ?f = "context_wait (worker_env b st h outcomes batch) (am_expired (jc_attempt c)) sid q timeout"
  have wait: "library_steps b (pg_db s) (pg_db s')" if "?f xs (s, u) = (x, s', u')" for xs s u x s' u'
    using that backend_wait_leads by (fastforce simp: context_wait_def worker_env_def Let_def split: prod.splits)
  obtain x s u where run: "step_wait pg_get (pg_put h) pg_remember (am_expired (jc_attempt c)) (Some ?f) sid q inputs timeout
      (context_store c, context_run c) = (x, s, u)" and c': "jc_db c' = pg_db s"
    using assms CallWait by (auto simp: worker_env_def set_store_def split: prod.splits)
  from run have "library_steps b (pg_db (context_store c)) (pg_db s)"
    by (auto simp: step_wait_def pg_remember_def Let_def dest!: wait put_leads
        split: sum.splits option.splits if_splits prod.splits intro: rtranclp_trans)
  then show ?thesis by (simp add: c' context_store_def)
qed (use assms in \<open>auto split: option.splits prod.splits\<close>)

lemma acts_lead:
  fixes st :: "unit settings"
  assumes "handler_acts (worker_env b st h outcomes batch) acts c = Some (answers, c')"
  shows "library_steps b (jc_db c) (jc_db c')"
  using assms
proof (induction acts arbitrary: c answers)
  case (Cons act acts)
  show ?case
  proof (cases act)
    case (Inl call)
    obtain r c1 where call: "perform_call (worker_env b st h outcomes batch) call c = (r, c1)"
      by (cases "perform_call (worker_env b st h outcomes batch) call c")
    with Cons.prems Inl obtain rest where "handler_acts (worker_env b st h outcomes batch) acts c1 = Some (rest, c')"
      by auto
    with Cons.IH call_leads [OF call] show ?thesis by (blast intro: rtranclp_trans)
  next
    case (Inr ev)
    with Cons.prems obtain a where
      "handler_acts (worker_env b st h outcomes batch) acts (c\<lparr>jc_attempt := a\<rparr>) = Some (answers, c')"
      by (auto split: option.splits)
    from Cons.IH [OF this] show ?thesis by simp
  qed
qed simp

section \<open>The end of the attempt\<close>

lemma task_settle_leads [leads_intros]: "leads b (task_settle rt h waited rep row)"
  by (simp add: task_settle_def leads_intros)

lemma settle_failure_leads: "settle_failure rt h waited e d = (t, d') \<Longrightarrow> library_steps b d d'"
  using task_settle_leads
  by (auto simp: settle_failure_def Let_def leads_def dest: leadsD [OF task_settle_leads]
      split: if_splits sum.splits prod.splits)

lemma fail_task_leads:
  assumes "fail_task rt h waited (close_progress h unsaved) e d = (run, d')"
  shows "library_steps b d d'"
proof -
  let ?d1 = "snd (close_progress h unsaved True d)"
  have "library_steps b d ?d1" using leads_close by (simp add: leads_def)
  moreover have "library_steps b ?d1 d'"
    using assms
    by (auto simp: fail_task_def Let_def dest: settle_failure_leads leadsD [OF leads_operations(2)]
        split: option.splits sum.splits prod.splits)
  ultimately show ?thesis by (rule rtranclp_trans)
qed

lemma execute_leads:
  assumes "handler d = (result, ended, d1)" "library_steps b d d1"
    and "execute_task rt h payload (close_progress h unsaved) handler d = (run, d')"
  shows "library_steps b d d'"
proof -
  have close: "library_steps b x (snd (close_progress h unsaved persist x))" for x persist
    using leads_close by (simp add: leads_def)
  have after: "library_steps b d1 d'" if "is_payload_envelope payload"
    using assms(1,3) that close
    by (auto simp: execute_task_def assert_payload_envelope_def Let_def
        dest!: fail_task_leads [where b = b] leadsD [where b = b, OF task_settle_leads]
        split: option.splits ending.splits sum.splits prod.splits bool.splits
        intro: rtranclp_trans rtranclp_trans [OF rtranclp_trans [OF close]])
  show ?thesis
  proof (cases "is_payload_envelope payload")
    case True
    with assms(2) after show ?thesis by (blast intro: rtranclp_trans)
  next
    case False
    with assms(3) show ?thesis
      by (auto simp: execute_task_def assert_payload_envelope_def Let_def dest: fail_task_leads)
  qed
qed

text \<open>What every operation of the library keeps.\<close>

lemma library_steps_keep:
  assumes "library_steps b d d'"
  shows "typed_backend b \<Longrightarrow> typed_db d \<Longrightarrow> typed_db d'"
    and "backend_keeps_tables b \<Longrightarrow> wait_inv d \<Longrightarrow> other_tables_ok d \<Longrightarrow> wait_inv d' \<and> other_tables_ok d'"
proof -
  show "typed_db d'" if "typed_backend b" "typed_db d"
    using assms that(2) by (induction rule: rtranclp_induct) (auto intro: typed_library_step [OF that(1)])
  show "wait_inv d' \<and> other_tables_ok d'" if "backend_keeps_tables b" "wait_inv d" "other_tables_ok d"
    using assms that(2,3)
    by (induction rule: rtranclp_induct)
       (auto intro: library_step_waits [OF that(1)] library_step_others [OF that(1)])
qed

text \<open>
  C6 Whatever a handler does and however its attempt ends, the attempt is a sequence of the library's
  operations: its steps, waits, enqueues and continuations in any order and between any events of
  its deadline, then the end that closes the progress, settles the job, or schedules its retry. So
  every attempt leaves the stored rows of their types, the counts of waiting parents exact, and
  the constraints of the tables satisfied.
\<close>

theorem attempts_are_library_steps:
  fixes st :: "unit settings"
  assumes "handler_acts (worker_env b st h outcomes batch) acts c = Some (answers, c')"
    and "handler (jc_db c) = (result, jc_ending c', jc_db c')"
    and "execute_task \<lparr>tk_outcomes = outcomes, tk_discard = discard\<rparr> h payload (close_progress h unsaved) handler (jc_db c)
      = (run, d')"
  shows "library_steps b (jc_db c) d' \<and>
    (typed_backend b \<and> typed_db (jc_db c) \<longrightarrow> typed_db d') \<and>
    (backend_keeps_tables b \<and> wait_inv (jc_db c) \<and> other_tables_ok (jc_db c) \<longrightarrow> wait_inv d' \<and> constraints_ok d')"
proof -
  have steps: "library_steps b (jc_db c) d'"
    by (rule execute_leads [OF assms(2) acts_lead [OF assms(1)] assms(3)])
  then show ?thesis
    using library_steps_keep [OF steps] wait_inv_tables by (auto simp: constraints_ok_def other_tables_ok_def)
qed

text \<open>Job 7 runs a step, enqueues a job and returns.\<close>

definition sample_acts :: "((unit, nat) context_call + unit attempt_event) list" where
  "sample_acts = [Inl (CallStep ''a'' None (\<lambda>n. (Inr ([], GNull), n + 1))),
     Inl (CallCreateJob ''mail'' ([], GNull) None)]"

definition sample_worker_env :: "(unit, prepared_job) context_env" where
  "sample_worker_env = worker_env sample_backend sample_settings (helpers_of sample_job) True (\<lambda>_ _. False)"

definition sample_acted :: "context_answer res list \<times> (unit, nat) job_context" where
  "sample_acted = the (handler_acts sample_worker_env sample_acts sample_context)"

definition sample_executed :: "task_run \<times> db" where
  "sample_executed = execute_task \<lparr>tk_outcomes = True, tk_discard = False\<rparr> (helpers_of sample_job)
     (jr_payload sample_job) (close_progress (helpers_of sample_job) None)
     (\<lambda>_. (Inr None, jc_ending (snd sample_acted), jc_db (snd sample_acted))) (jc_db sample_context)"

theorem attempts_are_library_steps_witness:
  "fst sample_acted = [Inr (AnswerValue ([], GNull)), Inr (AnswerId (Some 8))] \<and>
   map jr_id (db_jobs (snd sample_executed)) = [8] \<and>
   map oc_state (db_outcomes (snd sample_executed)) = [CompletedState] \<and>
   typed_db (snd sample_executed) \<and> constraints_ok (snd sample_executed)"
proof -
  have acts: "handler_acts sample_worker_env sample_acts sample_context = Some (fst sample_acted, snd sample_acted)"
  proof -
    have "handler_acts sample_worker_env sample_acts sample_context \<noteq> None" by code_simp
    then show ?thesis by (auto simp: sample_acted_def)
  qed
  have "backend_keeps_tables sample_backend"
    by (simp add: backend_keeps_tables_def library_tables_def sample_backend_def sample_add_job_def)
  moreover have "typed_db (jc_db sample_context)" "wait_inv (jc_db sample_context)" "other_tables_ok (jc_db sample_context)"
    by (code_simp+)
  moreover note typed_sample_backend
  moreover
  let ?handler = "\<lambda>_. (Inr None, jc_ending (snd sample_acted), jc_db (snd sample_acted))"
  have ex: "execute_task \<lparr>tk_outcomes = True, tk_discard = False\<rparr> (helpers_of sample_job)
     (jr_payload sample_job) (close_progress (helpers_of sample_job) None) ?handler (jc_db sample_context) =
     (fst sample_executed, snd sample_executed)"
    by (simp only: sample_executed_def prod.collapse)
  ultimately have "typed_db (snd sample_executed) \<and> constraints_ok (snd sample_executed)"
    using attempts_are_library_steps [where handler = ?handler, OF acts [unfolded sample_worker_env_def] refl ex] by blast
  moreover have "fst sample_acted = [Inr (AnswerValue ([], GNull)), Inr (AnswerId (Some 8))]"
    "map jr_id (db_jobs (snd sample_executed)) = [8]"
    "map oc_state (db_outcomes (snd sample_executed)) = [CompletedState]"
    by (code_simp+)
  ultimately show ?thesis by blast
qed

end
