(* ===== verification/Spec2Isabelle.thy ===== *)
theory Spec2Isabelle
  imports Connection PoolIdle Assembly CliRun StepEvents TestContext Probe Finality Operations
begin

text \<open>
  A verification development of \<^bold>\<open>better-graphile-worker\<close>, a job queue library on PostgreSQL
  and Graphile Worker.

  \<^bold>\<open>The program.\<close> A producer prepares a job from a queue's contract (schema, options, keys) and
  enqueues it, alone, in a batch, or inside the caller's transaction. A worker takes jobs from
  Graphile, runs the handler with durable steps, progress, waits for child jobs and
  continuations, and records how the attempt ended. Around it run the supervision of the runner
  (start, stop, restart), crash recovery with a maintenance pass, bounded history, and
  administration queries. All durable state is in PostgreSQL; all writes of an attempt are guarded
  by the lock of its job.

  \<^bold>\<open>Theories and sources\<close> (below \<^verbatim>\<open>src/src/\<close>), in the order of their imports:
  \<^item> \<^verbatim>\<open>Prelude\<close>: sequencing of fallible functions, absent values, decimal numbers, tables as
    lists of rows, with their simplification rules.
  \<^item> \<^verbatim>\<open>Errors\<close> (\<^verbatim>\<open>errors.ts\<close>): every error class as a constructor with its name and message.
  \<^item> \<^verbatim>\<open>Validation\<close>, \<^verbatim>\<open>JsonValues\<close> (\<^verbatim>\<open>validation.ts\<close>, \<^verbatim>\<open>schema-name.ts\<close>,
    \<^verbatim>\<open>options.ts\<close>): integer ranges, durations, and the JSON check on a heap of shared and cyclic
    objects, equal to being a finite JSON tree.
  \<^item> \<^verbatim>\<open>Queues\<close> (\<^verbatim>\<open>queue.ts\<close>, \<^verbatim>\<open>define-queues.ts\<close>, \<^verbatim>\<open>registry.ts\<close>): contracts,
    handlers and the uniqueness of task identifiers.
  \<^item> \<^verbatim>\<open>Payload\<close> (\<^verbatim>\<open>payload.ts\<close>, header functions of \<^verbatim>\<open>otel.ts\<close>): the envelope and its
    round trips.
  \<^item> \<^verbatim>\<open>Database\<close>: the tables, and statements and transactions as functions on them.
  \<^item> \<^verbatim>\<open>PrivateJobs\<close>, \<^verbatim>\<open>JobWrites\<close>, \<^verbatim>\<open>Waits\<close>, \<^verbatim>\<open>WaitInvariant\<close>,
    \<^verbatim>\<open>WaitProtocol\<close>, \<^verbatim>\<open>Continuation\<close> (\<^verbatim>\<open>private-jobs.ts\<close>, \<^verbatim>\<open>waits.ts\<close>):
    settling, retry times, checkpoints, progress, crash release, continuations, and the protocol of
    parents waiting for children, as a step relation with its invariant.
  \<^item> \<^verbatim>\<open>EnqueueSql\<close>, \<^verbatim>\<open>EnqueueMatch\<close>, \<^verbatim>\<open>Idempotency\<close> (\<^verbatim>\<open>enqueue-sql.ts\<close>):
    the enqueue statements, the matching of batch rows with their specs, idempotency keys.
  \<^item> \<^verbatim>\<open>JobOptions\<close>, \<^verbatim>\<open>CreateJob\<close>, \<^verbatim>\<open>Enqueueing\<close> (\<^verbatim>\<open>job-options.ts\<close>,
    \<^verbatim>\<open>create-job.ts\<close>, \<^verbatim>\<open>prisma.ts\<close>, the adapter of \<^verbatim>\<open>client.ts\<close>): the producer.
  \<^item> \<^verbatim>\<open>Steps\<close> (\<^verbatim>\<open>steps.ts\<close>), \<^verbatim>\<open>Worker\<close> and \<^verbatim>\<open>Attempts\<close>
    (\<^verbatim>\<open>worker.ts\<close>), \<^verbatim>\<open>Progress\<close> (\<^verbatim>\<open>progress.ts\<close>): the attempt.
  \<^item> \<^verbatim>\<open>Lifecycle\<close> (\<^verbatim>\<open>lifecycle.ts\<close>), \<^verbatim>\<open>Shutdown\<close> (\<^verbatim>\<open>shutdown.ts\<close>),
    \<^verbatim>\<open>Pool\<close> (\<^verbatim>\<open>worker-pool.ts\<close>), \<^verbatim>\<open>Client\<close> (\<^verbatim>\<open>client.ts\<close>): the machines around
    the worker; \<^verbatim>\<open>Runner\<close> (\<open>startRunner\<close> of \<^verbatim>\<open>worker.ts\<close>): a pool with its
    maintenance and listeners.
  \<^item> \<^verbatim>\<open>Maintenance\<close> (\<^verbatim>\<open>maintenance.ts\<close>), \<^verbatim>\<open>Outcomes\<close> (\<^verbatim>\<open>job-outcomes.ts\<close>),
    \<^verbatim>\<open>History\<close> (\<^verbatim>\<open>completed-jobs-store.ts\<close>), \<^verbatim>\<open>Admin\<close> (\<^verbatim>\<open>admin.ts\<close>):
    recovery and observation.
  \<^item> \<^verbatim>\<open>Facade\<close> (\<^verbatim>\<open>create-better-worker.ts\<close>): how a worker puts these together.
  \<^item> \<^verbatim>\<open>JobContext\<close> (\<open>createAttempt\<close> and \<open>createJobContext\<close> of \<^verbatim>\<open>worker.ts\<close>): the
    deadline of a run as a state machine, and every call a handler can make on its context.
  \<^item> \<^verbatim>\<open>Connection\<close> (\<^verbatim>\<open>maintenance.ts\<close>): the client the maintenance holds;
    \<^verbatim>\<open>Probe\<close> (\<^verbatim>\<open>shutdown.ts\<close>): the pauses and probes of a shutdown with their timers,
    listeners and connections, a refinement of the race in \<^verbatim>\<open>Shutdown\<close>;
    \<^verbatim>\<open>PoolIdle\<close> (\<^verbatim>\<open>worker-pool.ts\<close>): a pool without runners.
  \<^item> \<^verbatim>\<open>Tracing\<close> (\<^verbatim>\<open>otel.ts\<close>), \<^verbatim>\<open>Observers\<close> (\<^verbatim>\<open>observers.ts\<close>,
    \<^verbatim>\<open>hooks.ts\<close>, \<^verbatim>\<open>default-logger.ts\<close>, \<^verbatim>\<open>metrics.ts\<close>): spans, hooks, loggers and
    metrics; \<^verbatim>\<open>Observed\<close> (\<^verbatim>\<open>worker.ts\<close>), \<^verbatim>\<open>Producing\<close>
    (\<^verbatim>\<open>create-job.ts\<close>) and \<^verbatim>\<open>StepEvents\<close> (\<^verbatim>\<open>steps.ts\<close>): the attempt, the enqueue
    functions and the steps with these.
  \<^item> \<^verbatim>\<open>Wiring\<close> (\<^verbatim>\<open>job-client.ts\<close>, \<^verbatim>\<open>create-better-worker.ts\<close>): what a client and
    a worker are made of, and what a worker starts; \<^verbatim>\<open>Assembly\<close> (\<^verbatim>\<open>worker-pool.ts\<close>):
    a pool from its runners.
  \<^item> \<^verbatim>\<open>Keeping\<close>: what it takes for a statement or an enqueue to keep a property of the tables;
    \<^verbatim>\<open>Typing\<close>: the steps of the library on the database, and the types of the stored rows, which
    they keep; \<^verbatim>\<open>Constraints\<close> (the table definitions in \<^verbatim>\<open>waits.ts\<close>,
    \<^verbatim>\<open>job-outcomes.ts\<close>, \<^verbatim>\<open>enqueue-sql.ts\<close>, \<^verbatim>\<open>maintenance.ts\<close>): the keys, foreign keys and
    checks of the private tables; \<^verbatim>\<open>Finality\<close>: final states over the steps of the library;
    \<^verbatim>\<open>Operations\<close>: attempts and contexts as sequences of those steps.
  \<^item> \<^verbatim>\<open>Cli\<close>, \<^verbatim>\<open>CliRun\<close> (\<^verbatim>\<open>cli.ts\<close>): from arguments to a command, and what it does
    and prints; \<^verbatim>\<open>Harness\<close>
    (\<^verbatim>\<open>testing.ts\<close>): handlers as trees of requests, run in memory; \<^verbatim>\<open>TestContext\<close>: the
    context a test may ask for, and runs with overridden operations.

  \<^bold>\<open>How code becomes definitions.\<close> A pure function is a function; one that throws returns
  \<open>js_error + 'a\<close>. A statement or transaction has the type \<open>'a tx\<close>: it takes the database and gives
  a result with the next one; a failed transaction gives back the old one. Asynchronous code is cut
  at its awaits: its state is a record, each piece between two awaits is an event, and theorems hold
  for every interleaving of events (\<^verbatim>\<open>Steps\<close>, \<^verbatim>\<open>Progress\<close>, \<^verbatim>\<open>Lifecycle\<close>,
  \<^verbatim>\<open>Client\<close>, \<^verbatim>\<open>Shutdown\<close>, \<^verbatim>\<open>Probe\<close>, \<^verbatim>\<open>JobContext\<close>, \<^verbatim>\<open>Connection\<close>, \<^verbatim>\<open>PoolIdle\<close>) or of transactions (\<^verbatim>\<open>WaitProtocol\<close>, \<^verbatim>\<open>Maintenance\<close>).
  JavaScript numbers are \<open>jsnum\<close>; numbers that passed a check are integers.

  \<^bold>\<open>Interfaces.\<close> \<open>fenced_write\<close> (\<^verbatim>\<open>PrivateJobs\<close>) is what every write of an attempt promises,
  and \<open>bounded_history\<close> (\<^verbatim>\<open>History\<close>) what the completed-jobs store promises; \<open>step_store\<close>
  (\<^verbatim>\<open>Steps\<close>) is what a runner of steps needs of its store; \<open>finished_watch\<close>
  (\<^verbatim>\<open>Observed\<close>) and \<open>failure_watch\<close> (\<^verbatim>\<open>Producing\<close>) are what someone who counts
  attempts or failed enqueues needs of the hooks. They are interpreted on the model's
  own operations (\<open>step_store\<close> on the memory store, the PostgreSQL store and the harness's, the two watches on
  the queue metrics), and the
  properties rest on these facts.

  \<^bold>\<open>What the theorems show.\<close> Waits count exactly, results are final, wakeups are not lost, and
  neither a crashed child nor a swallowed wakeup strands a parent; a completed step does not run
  again; an attempt that lost its lock changes nothing; successes and permanent failures are
  recorded before they are acknowledged; idempotency keys enqueue once; batch ids are in order;
  envelopes, checkpoints and wait results round-trip; one runner at most is live and a stop leaves
  none; live workers keep their jobs; job states, listings, statistics and history say what
  happened, and a recorded final state is what every later query tells until its retention passed;
  everything an attempt writes is a sequence of steps of the library, under which stored rows stay
  of their types, so no reader fails on them, and the tables keep their constraints, so no statement
  fails on one; a shutdown leaves no probe, timer or connection behind; nothing a handler starts
  after its deadline has an effect; maintenance loses no connection; accepted jobs have a handler
  that reads their input; a pool runs each task in exactly one runner. Whatever watches an attempt or an enqueue changes nothing of it, and
  metrics count each exactly once.

  \<^bold>\<open>Parameters\<close> (code that is not part of the repository): Graphile's \<open>add_job\<close>, \<open>add_jobs\<close>,
  \<open>reschedule_jobs\<close> and its failure update where it is named; the user's handlers, schemas and
  \<open>derive\<close> functions; PostgreSQL's reading of timestamps (\<open>pg_time\<close>) and JavaScript's
  (\<open>parse_date\<close>); the text of a JSON content used for matching (\<open>content_text\<close>); how a
  connection of a database probe ends; OpenTelemetry's tracers and meters, the hooks, the loggers and the console, each
  of which may fail at every call and changes a world of its own (\<open>'o\<close>); the rows other transactions hold (\<open>busy\<close>), which \<open>SKIP LOCKED\<close> skips. What a
  theorem uses of them is a hypothesis of it, with a witness.

  \<^bold>\<open>Bounds and fuel.\<close> \<open>inline_wait\<close> of the test harness takes the depth to which waits may
  nest; the height of the queue in the order of the waits is enough (\<open>harness_run_ends\<close>). No other
  definition of the program runs on fuel. \<open>list_all_pages\<close>, the reader of all
  pages, takes the number of pages it may read; more than the number of jobs is enough. Graphile's
  backoff is PostgreSQL's exponential of at most ten attempts, in whole microseconds.

  \<^bold>\<open>Simplifications.\<close> The two lookups of \<open>getJob\<close> see two states. The order in which a JavaScript
  object lists keys that look like numbers is not kept, and the groups of an SQL statement come in
  the order of their first row.

  \<^bold>\<open>Not modelled\<close>: the SQL text and the indexes of the table definitions; the text of what the command line prints; how
  \<open>getOtel\<close> loads its module; the settings the caller hands through to Graphile; the scripts that build and package the
  library (\<^verbatim>\<open>src/scripts/\<close>); re-exports and declarations that TypeScript erases.
\<close>

end
